(* ===== verification/Prelude.thy ===== *)
theory Prelude
  imports Main "HOL-Library.Word" "HOL-Library.Sublist" "HOL-Library.AList"
begin

text \<open>
  What every component shares: bytes and machine integers, the error values of the Go code,
  the shape of a fallible result, and the generic lemmas on lists, association lists and words
  that carry the component proofs.

  Go strings are byte strings, so a Go \<open>string\<close> is Isabelle's \<open>string\<close> (a list of 8-bit
  characters) and a Go \<open>[]byte\<close> is a list of 8-bit words; \<open>str_bytes\<close> is the conversion
  \<open>[]byte(s)\<close>. A Go \<open>int64\<close> is a 64-bit word wherever its wrap-around can be observed, and
  an \<open>int\<close> where the code keeps it in a range in which nothing wraps.
\<close>

section \<open>Types\<close>

type_synonym byte = "8 word"
type_synonym bytes = "8 word list"
type_synonym int64 = "64 word"

text \<open>
  Go compares the sentinel errors of package \<open>io\<close> by identity and everything else by its text,
  so the sentinels are constructors and every other error is \<open>ErrText\<close> of its \<open>Error()\<close>
  string.
\<close>

datatype go_error = EOF | ErrUnexpectedEOF | ErrShortBuffer | ErrShortWrite | ErrText string

fun error_text :: "go_error \<Rightarrow> string" where
  "error_text EOF = ''EOF''"
| "error_text ErrUnexpectedEOF = ''unexpected EOF''"
| "error_text ErrShortBuffer = ''short buffer''"
| "error_text ErrShortWrite = ''short write''"
| "error_text (ErrText t) = t"

type_synonym 'a result = "go_error + 'a"

text \<open>
  A call that can panic: the run-time error unwinds the goroutine, so the value is the panic
  itself, with its message.
\<close>

datatype 'a outcome = Done 'a | Panic string

definition str_bytes :: "string \<Rightarrow> bytes" where
  "str_bytes s = map (\<lambda>c. word_of_nat (of_char c)) s"

section \<open>Collections of facts\<close>

named_theorems avail_simps \<open>what a reader still delivers after one of its steps\<close>
named_theorems frame_simps \<open>the shape and the length of an encoded frame\<close>

section \<open>Lists\<close>

lemma take_append_le: "n \<le> length xs \<Longrightarrow> take n (xs @ ys) = take n xs"
  by simp

lemma take_drop_split: "xs = take n xs @ drop n xs"
  by simp

lemma take_append_length: "length xs = n \<Longrightarrow> take n (xs @ ys) = xs"
  by simp

lemma drop_append_length: "length xs = n \<Longrightarrow> drop n (xs @ ys) = ys"
  by simp

lemma concat_length_le: "x \<in> set xss \<Longrightarrow> length x \<le> length (concat xss)"
  by (induction xss) auto

lemma append_take_eq:
  assumes "xs = ys @ zs" and "length ys \<le> n"
  shows "take n xs = ys @ take (n - length ys) zs"
  using assms by simp

lemma prefix_takeI: "xs = ys @ zs \<Longrightarrow> ys = take (length ys) xs"
  by simp

section \<open>Association lists\<close>

text \<open>
  A Go map the code only indexes is a partial function; a Go map it also ranges over is an
  association list with distinct keys, so that the loop is a recursion over the list.
\<close>

lemma map_of_update [simp]: "map_of (AList.update k v al) = (map_of al)(k \<mapsto> v)"
  by (simp add: update_conv')

lemma alist_update_new: "k \<notin> fst ` set al \<Longrightarrow> AList.update k v al = al @ [(k, v)]"
  by (induction al) auto

lemma map_of_delete [simp]: "map_of (AList.delete k al) = (map_of al)(k := None)"
  by (simp add: delete_conv')

lemma set_update_subset: "set (AList.update k v al) \<subseteq> insert (k, v) (set al)"
  by (induction al) auto

lemma delete_keeps_other: "(k', v) \<in> set al \<Longrightarrow> k' \<noteq> k \<Longrightarrow> (k', v) \<in> set (AList.delete k al)"
  by (induction al) auto

lemma distinct_update_keys [simp]:
  "distinct (map fst al) \<Longrightarrow> distinct (map fst (AList.update k v al))"
  by (rule distinct_update)

lemma distinct_delete_keys [simp]:
  "distinct (map fst al) \<Longrightarrow> distinct (map fst (AList.delete k al))"
  by (rule distinct_delete)

lemma map_of_filter_key:
  "map_of (filter (\<lambda>(k, v). P k) al) k = (if P k then map_of al k else None)"
  by (induction al) auto

lemma map_of_filter_neq: "map_of (filter (\<lambda>(k, v). k \<noteq> a) al) = (map_of al)(a := None)"
  by (rule ext) (simp add: map_of_filter_key)

section \<open>Bounded quantifiers\<close>

lemma all_le_Suc: "(\<forall>k \<le> Suc n. P k) \<longleftrightarrow> P 0 \<and> (\<forall>k \<le> n. P (Suc k))"
  by (simp add: All_less_Suc2 flip: less_Suc_eq_le)

section \<open>Words\<close>

lemma str_bytes_length [simp]: "length (str_bytes s) = length s"
  by (simp add: str_bytes_def)

lemma str_bytes_append [simp]: "str_bytes (s @ t) = str_bytes s @ str_bytes t"
  by (simp add: str_bytes_def)

lemma char_byte_inj: "word_of_nat (of_char c) = (word_of_nat (of_char d) :: byte) \<Longrightarrow> c = d"
proof -
  assume eq: "word_of_nat (of_char c) = (word_of_nat (of_char d) :: byte)"
  have "unat (word_of_nat (of_char c) :: byte) = of_char c" for c
    by (simp add: unat_of_nat)
  with eq have "(of_char c :: nat) = of_char d" by metis
  then show "c = d" by simp
qed

lemma str_bytes_inj: "str_bytes s = str_bytes t \<longleftrightarrow> s = t"
proof
  assume eq: "str_bytes s = str_bytes t"
  have "inj (\<lambda>c. word_of_nat (of_char c) :: byte)"
    by (rule injI) (rule char_byte_inj)
  with eq show "s = t" by (simp add: str_bytes_def inj_map_eq_map)
qed simp

section \<open>Invariants of a step relation\<close>

text \<open>
  The components that run concurrently are step relations; what holds at the start and is kept by every
  step holds in every reachable state.
\<close>

locale step_invariant =
  fixes step :: "'s \<Rightarrow> 's \<Rightarrow> bool"
    and start :: "'s \<Rightarrow> bool"
    and ok :: "'s \<Rightarrow> bool"
  assumes start_ok: "start s \<Longrightarrow> ok s"
    and step_ok: "step s t \<Longrightarrow> ok s \<Longrightarrow> ok t"
begin

lemma run_ok: "step\<^sup>*\<^sup>* s t \<Longrightarrow> ok s \<Longrightarrow> ok t"
  by (induction rule: rtranclp_induct) (use step_ok in blast)+

lemma reachable_ok: "start s \<Longrightarrow> step\<^sup>*\<^sup>* s t \<Longrightarrow> ok t"
  using start_ok run_ok by blast

end

end
