(* ===== verification/Go_Std.thy ===== *)
theory Go_Std
  imports Prelude
begin

text \<open>
  The functions of the Go standard library the program calls on strings, numbers and bytes:
  \<open>strings.TrimSpace\<close>, \<open>strings.Split\<close>, \<open>strings.Contains\<close>, \<open>strconv.Atoi\<close>,
  \<open>strconv.ParseInt\<close>, \<open>strconv.Itoa\<close>, \<open>strconv.FormatInt\<close>, \<open>hex.EncodeToString\<close> and
  \<open>binary.BigEndian\<close>. Each is written after its documented behaviour and is executable.
\<close>

section \<open>Decimal numbers\<close>

definition digit_char :: "nat \<Rightarrow> char" where
  "digit_char d = ''0123456789'' ! d"

definition digit_val :: "char \<Rightarrow> nat option" where
  "digit_val c =
     (let n = of_char c in if 48 \<le> n \<and> n \<le> (57::nat) then Some (n - 48) else None)"

fun nat_digits :: "nat \<Rightarrow> string" where
  "nat_digits n = (if n < 10 then [digit_char n] else nat_digits (n div 10) @ [digit_char (n mod 10)])"

declare nat_digits.simps [simp del]

definition format_int :: "int \<Rightarrow> string" where
  "format_int i = (if i < 0 then CHR ''-'' # nat_digits (nat (- i)) else nat_digits (nat i))"

fun parse_digits :: "int \<Rightarrow> string \<Rightarrow> int option" where
  "parse_digits acc [] = Some acc"
| "parse_digits acc (c # cs) =
     (case digit_val c of None \<Rightarrow> None | Some d \<Rightarrow> parse_digits (acc * 10 + int d) cs)"

definition parse_uint :: "string \<Rightarrow> int option" where
  "parse_uint s = (if s = [] then None else parse_digits 0 s)"

text \<open>
  \<open>strconv.ParseInt(s, 10, 64)\<close> (and \<open>strconv.Atoi\<close> on a 64-bit platform): an optional sign,
  then one or more decimal digits, with an error when the value leaves the \<open>int64\<close> range.
  The two error values are not told apart, the program only tests for \<open>err != nil\<close>.
\<close>

definition parse_int :: "string \<Rightarrow> int option" where
  "parse_int s =
     (case s of
        [] \<Rightarrow> None
      | c # cs \<Rightarrow>
          if c = CHR ''-'' then
            (case parse_uint cs of
               None \<Rightarrow> None
             | Some n \<Rightarrow> if n \<le> 2 ^ 63 then Some (- n) else None)
          else
            (case parse_uint (if c = CHR ''+'' then cs else s) of
               None \<Rightarrow> None
             | Some n \<Rightarrow> if n < 2 ^ 63 then Some n else None))"

lemma digit_val_char [simp]: "d < 10 \<Longrightarrow> digit_val (digit_char d) = Some d"
proof -
  assume "d < 10"
  then have "d \<in> {0, 1, 2, 3, 4, 5, 6, 7, 8, 9}" by auto
  then show ?thesis by (auto simp: digit_val_def digit_char_def Let_def)
qed

lemma digit_val_sign [simp]: "digit_val CHR ''-'' = None" "digit_val CHR ''+'' = None"
  by (simp_all add: digit_val_def)

lemma digit_val_less: "digit_val c = Some d \<Longrightarrow> d < 10"
  by (auto simp: digit_val_def Let_def split: if_splits)

lemma digit_char_neq: "d < 10 \<Longrightarrow> digit_val c = None \<Longrightarrow> digit_char d \<noteq> c"
  by auto

lemma nat_digits_neq_Nil [simp]: "nat_digits n \<noteq> []"
  by (subst nat_digits.simps) simp

lemma nat_digits_all: "c \<in> set (nat_digits n) \<Longrightarrow> digit_val c \<noteq> None"
proof (induction n rule: nat_digits.induct)
  case (1 n)
  show ?case
  proof (cases "n < 10")
    case True
    with "1.prems" show ?thesis by (simp add: nat_digits.simps [of n])
  next
    case False
    with "1.prems" "1.IH" show ?thesis by (auto simp: nat_digits.simps [of n])
  qed
qed

lemma parse_digits_append:
  "parse_digits acc (s @ t) =
     (case parse_digits acc s of None \<Rightarrow> None | Some n \<Rightarrow> parse_digits n t)"
  by (induction s arbitrary: acc) (auto split: option.splits)

lemma parse_nat_digits: "parse_digits 0 (nat_digits n) = Some (int n)"
proof (induction n rule: nat_digits.induct)
  case (1 n)
  show ?case
  proof (cases "n < 10")
    case True
    then show ?thesis by (simp add: nat_digits.simps [of n])
  next
    case False
    with "1.IH" show ?thesis
      by (simp add: nat_digits.simps [of n] parse_digits_append zdiv_int zmod_int)
  qed
qed

lemma parse_uint_digits [simp]: "parse_uint (nat_digits n) = Some (int n)"
  by (simp add: parse_uint_def parse_nat_digits)

lemma nat_digits_inj: "nat_digits m = nat_digits n \<longleftrightarrow> m = n"
  by (metis option.inject parse_nat_digits of_nat_eq_iff)

lemma nat_digits_hd: "nat_digits n = c # cs \<Longrightarrow> digit_val c \<noteq> None"
  by (rule nat_digits_all [of _ n]) simp

lemma nat_digits_length: "10 ^ k \<le> n \<Longrightarrow> n < 10 ^ Suc k \<Longrightarrow> length (nat_digits n) = Suc k"
proof (induction k arbitrary: n)
  case 0
  then show ?case by (simp add: nat_digits.simps [of n])
next
  case (Suc k)
  from Suc.prems have "10 ^ k \<le> n div 10" "n div 10 < 10 ^ Suc k"
    by (simp_all add: less_mult_imp_div_less mult.commute)
  moreover from Suc.prems(1) have "\<not> n < 10"
    by (metis One_nat_def le_trans not_le one_le_numeral one_le_power power_Suc mult.commute
        mult_le_mono1 mult_1)
  ultimately show ?case using Suc.IH [of "n div 10"] by (simp add: nat_digits.simps [of n])
qed

lemma parse_format_int:
  assumes "- (2 ^ 63) \<le> i" and "i < 2 ^ 63"
  shows "parse_int (format_int i) = Some i"
proof (cases "i < 0")
  case True
  with assms(1) have "nat (- i) \<le> 2 ^ 63" by simp
  with True show ?thesis by (simp add: parse_int_def format_int_def)
next
  case False
  obtain c cs where s: "nat_digits (nat i) = c # cs"
    by (cases "nat_digits (nat i)") auto
  from nat_digits_hd [OF s] have "c \<noteq> CHR ''-''" and "c \<noteq> CHR ''+''"
    by auto
  moreover from False have "parse_uint (c # cs) = Some i"
    using parse_uint_digits [of "nat i"] s by simp
  ultimately show ?thesis
    using False s assms(2) by (simp add: parse_int_def format_int_def)
qed

lemma nat_digits_length_le: "n < 10 ^ Suc k \<Longrightarrow> length (nat_digits n) \<le> Suc k"
proof (induction k arbitrary: n)
  case 0
  then show ?case by (simp add: nat_digits.simps [of n])
next
  case (Suc k)
  from Suc.prems have "n div 10 < 10 ^ Suc k" by (simp add: less_mult_imp_div_less mult.commute)
  from Suc.IH [OF this] show ?case by (simp add: nat_digits.simps [of n])
qed

lemma format_int_length: "- (2 ^ 63) \<le> i \<Longrightarrow> i < 2 ^ 63 \<Longrightarrow> length (format_int i) < 256"
  using nat_digits_length_le [of "nat \<bar>i\<bar>" 18] by (auto simp: format_int_def abs_if nat_less_iff)

lemma parse_digits_nonneg: "parse_digits acc s = Some n \<Longrightarrow> 0 \<le> acc \<Longrightarrow> 0 \<le> n"
  by (induction s arbitrary: acc) (auto split: option.splits)

lemma parse_uint_nonneg: "parse_uint s = Some n \<Longrightarrow> 0 \<le> n"
  by (auto simp: parse_uint_def dest: parse_digits_nonneg split: if_splits)

lemma parse_int_range: "parse_int s = Some i \<Longrightarrow> - (2 ^ 63) \<le> i \<and> i < 2 ^ 63"
  by (fastforce simp: parse_int_def dest: parse_uint_nonneg split: list.splits if_splits option.splits)

lemma format_int_neq_Nil [simp]: "format_int i \<noteq> []"
  by (simp add: format_int_def)

lemma format_int_inj: "format_int i = format_int j \<longleftrightarrow> i = j"
proof
  assume eq: "format_int i = format_int j"
  have hd_sign: "nat_digits n \<noteq> CHR ''-'' # cs" for n cs
    using nat_digits_hd [of n "CHR ''-''" cs] by auto
  show "i = j"
  proof (cases "i < 0"; cases "j < 0")
    assume "i < 0" "j < 0"
    with eq show ?thesis by (simp add: format_int_def nat_digits_inj)
  next
    assume "i < 0" "\<not> j < 0"
    with eq hd_sign [of "nat j"] show ?thesis by (simp add: format_int_def) metis
  next
    assume "\<not> i < 0" "j < 0"
    with eq hd_sign [of "nat i"] show ?thesis by (simp add: format_int_def)
  next
    assume "\<not> i < 0" "\<not> j < 0"
    with eq show ?thesis by (simp add: format_int_def nat_digits_inj)
  qed
qed simp

section \<open>Strings\<close>

text \<open>
  \<open>strings.TrimSpace\<close> drops leading and trailing Unicode white space. A Go string is UTF-8, so
  the white-space runes are listed by their encodings: tab to carriage return, space, U+0085,
  U+00A0, U+1680, U+2000 to U+200A, U+2028, U+2029, U+202F, U+205F and U+3000.
\<close>

definition space_runes :: "string list" where
  "space_runes =
     [[CHR 0x09], [CHR 0x0A], [CHR 0x0B], [CHR 0x0C], [CHR 0x0D], [CHR 0x20],
      [CHR 0xC2, CHR 0x85], [CHR 0xC2, CHR 0xA0], [CHR 0xE1, CHR 0x9A, CHR 0x80],
      [CHR 0xE2, CHR 0x80, CHR 0x80], [CHR 0xE2, CHR 0x80, CHR 0x81], [CHR 0xE2, CHR 0x80, CHR 0x82],
      [CHR 0xE2, CHR 0x80, CHR 0x83], [CHR 0xE2, CHR 0x80, CHR 0x84], [CHR 0xE2, CHR 0x80, CHR 0x85],
      [CHR 0xE2, CHR 0x80, CHR 0x86], [CHR 0xE2, CHR 0x80, CHR 0x87], [CHR 0xE2, CHR 0x80, CHR 0x88],
      [CHR 0xE2, CHR 0x80, CHR 0x89], [CHR 0xE2, CHR 0x80, CHR 0x8A], [CHR 0xE2, CHR 0x80, CHR 0xA8],
      [CHR 0xE2, CHR 0x80, CHR 0xA9], [CHR 0xE2, CHR 0x80, CHR 0xAF], [CHR 0xE2, CHR 0x81, CHR 0x9F],
      [CHR 0xE3, CHR 0x80, CHR 0x80]]"

fun strip_any :: "string list \<Rightarrow> string \<Rightarrow> string" where
  "strip_any rs s =
     (case find (\<lambda>r. r \<noteq> [] \<and> prefix r s) rs of
        None \<Rightarrow> s
      | Some r \<Rightarrow> if r = [] \<or> s = [] then s else strip_any rs (drop (length r) s))"

declare strip_any.simps [simp del]

definition trim_space :: "string \<Rightarrow> string" where
  "trim_space s = rev (strip_any (map rev space_runes) (rev (strip_any space_runes s)))"

text \<open>\<open>strings.Split(s, sep)\<close> for a one-byte separator.\<close>

fun split_on :: "char \<Rightarrow> string \<Rightarrow> string list" where
  "split_on c [] = [[]]"
| "split_on c (x # xs) =
     (if x = c then [] # split_on c xs
      else (case split_on c xs of p # ps \<Rightarrow> (x # p) # ps | [] \<Rightarrow> [[x]]))"

fun contains :: "string \<Rightarrow> string \<Rightarrow> bool" where
  "contains [] t = (t = [])"
| "contains (x # xs) t = (prefix t (x # xs) \<or> contains xs t)"

lemma contains_iff: "contains s t \<longleftrightarrow> (\<exists>u v. s = u @ t @ v)"
proof (induction s)
  case Nil
  then show ?case by simp
next
  case (Cons x xs)
  show ?case
  proof
    assume "contains (x # xs) t"
    then show "\<exists>u v. x # xs = u @ t @ v"
    proof (cases "prefix t (x # xs)")
      case True
      then obtain v where "x # xs = [] @ t @ v" by (auto elim: prefixE)
      then show ?thesis by blast
    next
      case False
      with \<open>contains (x # xs) t\<close> Cons.IH obtain u v where "xs = u @ t @ v" by auto
      then have "x # xs = (x # u) @ t @ v" by simp
      then show ?thesis by blast
    qed
  next
    assume "\<exists>u v. x # xs = u @ t @ v"
    then obtain u v where uv: "x # xs = u @ t @ v" by blast
    show "contains (x # xs) t"
    proof (cases u)
      case Nil
      with uv have "prefix t (x # xs)" by simp
      then show ?thesis by simp
    next
      case (Cons y us)
      with uv have "xs = us @ t @ v" by simp
      with Cons.IH show ?thesis by auto
    qed
  qed
qed

lemma split_on_neq_Nil [simp]: "split_on c s \<noteq> []"
  by (induction s) (auto split: list.splits)

lemma split_on_absent: "c \<notin> set s \<Longrightarrow> split_on c s = [s]"
  by (induction s) auto

lemma split_on_append: "c \<notin> set s \<Longrightarrow> split_on c (s @ c # t) = s # split_on c t"
  by (induction s) auto

lemma split_on_sound: "p \<in> set (split_on c s) \<Longrightarrow> c \<notin> set p"
  by (induction s arbitrary: p) (auto split: if_splits list.splits)

lemma split_on_singleton: "split_on c s = [p] \<longleftrightarrow> c \<notin> set s \<and> p = s"
proof
  assume a: "split_on c s = [p]"
  have "c \<notin> set s \<and> p = s" using a
    by (induction s arbitrary: p) (auto split: if_splits list.splits)
  then show "c \<notin> set s \<and> p = s" .
qed (simp add: split_on_absent)

lemma split_on_pair:
  "split_on c s = [p, q] \<Longrightarrow> s = p @ c # q \<and> c \<notin> set p \<and> c \<notin> set q"
proof (induction s arbitrary: p)
  case Nil
  then show ?case by simp
next
  case (Cons x xs)
  then show ?case
    by (auto split: if_splits list.splits simp: split_on_singleton)
qed

text \<open>A string that starts and ends with a byte below 128 that is no space is left alone.\<close>

definition space_start :: "char \<Rightarrow> bool" where
  "space_start c \<longleftrightarrow> of_char c \<in> ({9, 10, 11, 12, 13, 32} :: nat set) \<or> 128 \<le> (of_char c :: nat)"

lemma strip_any_stop:
  assumes "\<And>r. r \<in> set rs \<Longrightarrow> r \<noteq> [] \<Longrightarrow> \<not> prefix r s"
  shows "strip_any rs s = s"
proof -
  have "find (\<lambda>r. r \<noteq> [] \<and> prefix r s) rs = None"
    using assms by (auto simp: find_None_iff)
  then show ?thesis by (simp add: strip_any.simps)
qed

lemma space_runes_start: "r \<in> set space_runes \<Longrightarrow> r \<noteq> [] \<and> space_start (hd r)"
  by (auto simp: space_runes_def space_start_def)

lemma space_runes_end: "r \<in> set space_runes \<Longrightarrow> r \<noteq> [] \<and> space_start (last r)"
  by (auto simp: space_runes_def space_start_def)

lemma strip_space_stop:
  assumes "s \<noteq> []" and "\<not> space_start (hd s)"
  shows "strip_any space_runes s = s" and "strip_any (map rev space_runes) s = s"
proof -
  have hd_prefix: "prefix r s \<Longrightarrow> r \<noteq> [] \<Longrightarrow> hd r = hd s" for r
    by (cases r; cases s) auto
  show "strip_any space_runes s = s"
    by (rule strip_any_stop) (use assms hd_prefix space_runes_start in metis)
  show "strip_any (map rev space_runes) s = s"
  proof (rule strip_any_stop)
    fix r assume r: "r \<in> set (map rev space_runes)" "r \<noteq> []"
    then obtain r' where "r' \<in> set space_runes" and "r = rev r'" by auto
    with space_runes_end have "space_start (hd r)" by (simp add: hd_rev)
    with r hd_prefix assms show "\<not> prefix r s" by metis
  qed
qed

lemma trim_space_id:
  assumes "s \<noteq> []" and "\<not> space_start (hd s)" and "\<not> space_start (last s)"
  shows "trim_space s = s"
proof -
  have "strip_any (map rev space_runes) (rev s) = rev s"
    using assms(1,3) strip_space_stop(2) [of "rev s"] by (simp add: hd_rev)
  then show ?thesis
    using assms(1,2) by (simp add: trim_space_def strip_space_stop(1))
qed

lemma space_start_digit: "digit_val c \<noteq> None \<Longrightarrow> \<not> space_start c"
  by (auto simp: digit_val_def space_start_def Let_def split: if_splits)

section \<open>Bytes\<close>

definition hex_digit :: "nat \<Rightarrow> char" where
  "hex_digit d = ''0123456789abcdef'' ! d"

definition hex_encode :: "bytes \<Rightarrow> string" where
  "hex_encode bs = concat (map (\<lambda>b. [hex_digit (unat b div 16), hex_digit (unat b mod 16)]) bs)"

definition put_uint16 :: "16 word \<Rightarrow> bytes" where
  "put_uint16 v = [ucast (drop_bit 8 v), ucast v]"

fun get_uint16 :: "bytes \<Rightarrow> 16 word" where
  "get_uint16 [b0, b1] = or (push_bit 8 (ucast b0)) (ucast b1)"
| "get_uint16 _ = 0"

definition put_uint32 :: "32 word \<Rightarrow> bytes" where
  "put_uint32 v = [ucast (drop_bit 24 v), ucast (drop_bit 16 v), ucast (drop_bit 8 v), ucast v]"

fun get_uint32 :: "bytes \<Rightarrow> 32 word" where
  "get_uint32 [b0, b1, b2, b3] =
     or (or (or (push_bit 24 (ucast b0)) (push_bit 16 (ucast b1))) (push_bit 8 (ucast b2))) (ucast b3)"
| "get_uint32 _ = 0"

lemma hex_encode_length [simp]: "length (hex_encode bs) = 2 * length bs"
  by (induction bs) (simp_all add: hex_encode_def)

lemma hex_digit_inj: "d < 16 \<Longrightarrow> e < 16 \<Longrightarrow> hex_digit d = hex_digit e \<longleftrightarrow> d = e"
  unfolding hex_digit_def by (rule nth_eq_iff_index_eq) simp_all

lemma hex_encode_inj: "hex_encode bs = hex_encode cs \<longleftrightarrow> bs = cs"
proof
  have half: "unat (b :: byte) div 16 < 16" for b
    using unsigned_less [of b, where ?'a = nat] by simp
  assume "hex_encode bs = hex_encode cs"
  then show "bs = cs"
  proof (induction bs arbitrary: cs)
    case Nil
    then show ?case by (cases cs) (simp_all add: hex_encode_def)
  next
    case (Cons b bs)
    from Cons.prems obtain c cs' where cs: "cs = c # cs'"
      by (cases cs) (simp_all add: hex_encode_def)
    with Cons.prems have "hex_digit (unat b div 16) = hex_digit (unat c div 16)"
      "hex_digit (unat b mod 16) = hex_digit (unat c mod 16)" "hex_encode bs = hex_encode cs'"
      by (simp_all add: hex_encode_def)
    then have "unat b div 16 = unat c div 16" "unat b mod 16 = unat c mod 16" "bs = cs'"
      using half [of b] half [of c] Cons.IH by (simp_all add: hex_digit_inj)
    then have "unat b = unat c" by (metis div_mult_mod_eq)
    with cs \<open>bs = cs'\<close> show ?case by (simp add: word_unat_eq_iff)
  qed
qed simp

lemma put_uint16_length [simp, frame_simps]: "length (put_uint16 v) = 2"
  by (simp add: put_uint16_def)

lemma put_uint32_length [simp, frame_simps]: "length (put_uint32 v) = 4"
  by (simp add: put_uint32_def)

lemma get_put_uint16 [simp]: "get_uint16 (put_uint16 v) = v"
  unfolding put_uint16_def get_uint16.simps
  by (rule bit_word_eqI) (auto simp: bit_simps)

lemma put_get_uint16: "length bs = 2 \<Longrightarrow> put_uint16 (get_uint16 bs) = bs"
proof -
  assume "length bs = 2"
  then obtain b0 b1 where bs: "bs = [b0, b1]"
    by (auto simp: numeral_2_eq_2 length_Suc_conv)
  have "ucast (drop_bit 8 (or (push_bit 8 (ucast b0)) (ucast b1) :: 16 word)) = b0"
    by (rule bit_word_eqI) (auto simp: bit_simps dest: bit_imp_le_length)
  moreover have "ucast (or (push_bit 8 (ucast b0)) (ucast b1) :: 16 word) = b1"
    by (rule bit_word_eqI) (auto simp: bit_simps)
  ultimately show ?thesis by (simp add: bs put_uint16_def)
qed

lemma get_put_uint32 [simp]: "get_uint32 (put_uint32 v) = v"
  unfolding put_uint32_def get_uint32.simps
proof (rule bit_word_eqI)
  fix n assume n: "n < LENGTH(32)"
  consider "n < 8" | "8 \<le> n" "n < 16" | "16 \<le> n" "n < 24" | "24 \<le> n" by linarith
  then show "bit (or (or (or (push_bit 24 (ucast (ucast (drop_bit 24 v) :: byte) :: 32 word))
        (push_bit 16 (ucast (ucast (drop_bit 16 v) :: byte))))
        (push_bit 8 (ucast (ucast (drop_bit 8 v) :: byte)))) (ucast (ucast v :: byte))) n = bit v n"
    by cases (use n in \<open>auto simp: bit_simps\<close>)
qed

end
