(* ===== verification/Go_Io.thy ===== *)
theory Go_Io
  imports Prelude
begin

text \<open>
  Readers, writers and connections, after Go's package \<open>io\<close>. A reader takes the size of the
  buffer and its own state; \<open>None\<close> is a call that never returns (it blocks for ever). The two
  ends of a network connection are scripts: what the peer's bytes look like once the network has
  cut them into segments, and which write calls fail. The locale \<open>byte_reader\<close> is the contract
  of a reader over a byte stream; \<open>framed_stream\<close> extends it with a decoder of frames. The
  network connection, the gnet connection and the encrypted connection all provide the first,
  the protocol decoder and the frame reader of the encryption layer the second.
\<close>

type_synonym 's reader = "nat \<Rightarrow> 's \<Rightarrow> ((bytes \<times> go_error option) \<times> 's) option"
type_synonym 's writer = "bytes \<Rightarrow> 's \<Rightarrow> (nat \<times> go_error option) \<times> 's"

section \<open>Reading a full buffer\<close>

text \<open>
  \<open>io.ReadFull\<close> calls \<open>Read\<close> with what is still missing until the buffer is full or an error
  is met; a full buffer is a success whatever the error, and an \<open>EOF\<close> after some bytes is
  \<open>ErrUnexpectedEOF\<close>. A reader that keeps returning no byte and no error makes it run for
  ever, which is the value \<open>None\<close>.
\<close>

partial_function (option) read_full_from ::
  "'s reader \<Rightarrow> nat \<Rightarrow> bytes \<Rightarrow> 's \<Rightarrow> (bytes result \<times> 's) option" where
  "read_full_from rd n got s =
     (if n \<le> length got then Some (Inr got, s)
      else (case rd (n - length got) s of
              None \<Rightarrow> None
            | Some r \<Rightarrow>
                (case snd (fst r) of
                   None \<Rightarrow> read_full_from rd n (got @ fst (fst r)) (snd r)
                 | Some er \<Rightarrow>
                     Some (if n \<le> length (got @ fst (fst r)) then Inr (got @ fst (fst r))
                           else if got @ fst (fst r) \<noteq> [] \<and> er = EOF then Inl ErrUnexpectedEOF
                           else Inl er, snd r))))"

definition read_full :: "'s reader \<Rightarrow> nat \<Rightarrow> 's \<Rightarrow> (bytes result \<times> 's) option" where
  "read_full rd n s = read_full_from rd n [] s"

text \<open>What every \<open>Read\<close> call leaves alone, \<open>io.ReadFull\<close> leaves alone.\<close>

lemma read_full_from_keeps:
  assumes "read_full_from rd n got s = Some (r, s')"
    and "\<And>m s r s'. rd m s = Some (r, s') \<Longrightarrow> f s' = f s"
  shows "f s' = f s"
proof -
  define ok where "ok rd \<longleftrightarrow> (\<forall>m s r s'. rd m s = Some (r, s') \<longrightarrow> f s' = f s)" for rd :: "'a reader"
  have "ok rd \<longrightarrow> f (snd (r, s')) = f s"
  proof (rule read_full_from.raw_induct [where P = "\<lambda>rd n got s y. ok rd \<longrightarrow> f (snd y) = f s", OF _ assms(1)])
    fix loop rd n got s y
    assume IH: "\<And>rd n got s y. loop rd n got s = Some y \<Longrightarrow> ok rd \<longrightarrow> f (snd y) = f s"
      and step: "(if n \<le> length got then Some (Inr got, s)
        else case rd (n - length got) s of None \<Rightarrow> None
          | Some r \<Rightarrow> (case snd (fst r) of
              None \<Rightarrow> loop rd n (got @ fst (fst r)) (snd r)
            | Some er \<Rightarrow> Some (if n \<le> length (got @ fst (fst r)) then Inr (got @ fst (fst r))
                else if got @ fst (fst r) \<noteq> [] \<and> er = EOF then Inl ErrUnexpectedEOF
                else Inl er, snd r))) = Some y"
    show "ok rd \<longrightarrow> f (snd y) = f s"
    proof
      assume ok: "ok rd"
      show "f (snd y) = f s"
      proof (cases "rd (n - length got) s")
        case None
        with step show ?thesis by (auto split: if_splits)
      next
        case (Some r)
        with ok have "f (snd r) = f s" unfolding ok_def by (metis prod.collapse)
        with step Some IH ok show ?thesis by (fastforce split: if_splits option.splits)
      qed
    qed
  qed
  with assms(2) show ?thesis unfolding ok_def by fastforce
qed

lemma read_full_keeps:
  "read_full rd n s = Some (r, s') \<Longrightarrow> (\<And>m s r s'. rd m s = Some (r, s') \<Longrightarrow> f s' = f s) \<Longrightarrow> f s' = f s"
  unfolding read_full_def by (rule read_full_from_keeps)

section \<open>Loops\<close>

text \<open>
  A \<open>for\<close> loop without a condition: its body is a function of the state that blocks (\<open>None\<close>),
  returns from the enclosing function (\<open>Some\<close> of the value), or goes round again. The loop may
  run for ever, which is \<open>None\<close> again.
\<close>

partial_function (option) go_loop ::
  "('x \<Rightarrow> ('r option \<times> 'x) option) \<Rightarrow> 'x \<Rightarrow> ('r \<times> 'x) option" where
  "go_loop iter st =
     (case iter st of
        None \<Rightarrow> None
      | Some y \<Rightarrow>
          (case fst y of
             Some r \<Rightarrow> Some (r, snd y)
           | None \<Rightarrow> go_loop iter (snd y)))"

lemma go_loop_return [simp]: "iter st = Some (Some r, st') \<Longrightarrow> go_loop iter st = Some (r, st')"
  by (simp add: go_loop.simps)

lemma go_loop_again: "iter st = Some (None, st1) \<Longrightarrow> go_loop iter st = go_loop iter st1"
  by (simp add: go_loop.simps [of iter st])

lemma go_loop_induct [consumes 1, case_names return again]:
  assumes "go_loop iter st = Some (r, st')"
    and "\<And>st r st'. iter st = Some (Some r, st') \<Longrightarrow> P st r st'"
    and "\<And>st st1 r st'. iter st = Some (None, st1) \<Longrightarrow> P st1 r st' \<Longrightarrow> P st r st'"
  shows "P st r st'"
proof -
  define ok where "ok it \<longleftrightarrow> (\<forall>st r st'. it st = Some (Some r, st') \<longrightarrow> P st r st')
      \<and> (\<forall>st st1 r st'. it st = Some (None, st1) \<longrightarrow> P st1 r st' \<longrightarrow> P st r st')" for it
  have "ok iter \<longrightarrow> P st (fst (r, st')) (snd (r, st'))"
  proof (rule go_loop.raw_induct [where P = "\<lambda>it st y. ok it \<longrightarrow> P st (fst y) (snd y)", OF _ assms(1)])
    fix loop it st y
    assume IH: "\<And>st it y. loop st it = Some y \<Longrightarrow> ok st \<longrightarrow> P it (fst y) (snd y)"
      and step: "(case it st of None \<Rightarrow> None
        | Some y \<Rightarrow> (case fst y of Some r \<Rightarrow> Some (r, snd y) | None \<Rightarrow> loop it (snd y))) = Some y"
    show "ok it \<longrightarrow> P st (fst y) (snd y)"
    proof
      assume "ok it"
      from step obtain z where z: "it st = Some z" by (auto split: option.splits)
      show "P st (fst y) (snd y)"
      proof (cases "fst z")
        case None
        with step z have "loop it (snd z) = Some y" by simp
        from IH [OF this] None z \<open>ok it\<close> show ?thesis
          unfolding ok_def by (metis prod.collapse)
      next
        case (Some r)
        with step z have "y = (r, snd z)" by simp
        with Some z \<open>ok it\<close> show ?thesis unfolding ok_def by (metis fst_conv snd_conv prod.collapse)
      qed
    qed
  qed
  with assms(2,3) show ?thesis unfolding ok_def by (metis fst_conv snd_conv)
qed

text \<open>A loop returns if every iteration does and those that go on bring it nearer to its end.\<close>

lemma go_loop_returns:
  fixes rank :: "'s \<Rightarrow> nat"
  assumes "\<And>st. \<exists>r st1. iter st = Some (r, st1) \<and> (r = None \<longrightarrow> rank st1 < rank st)"
  shows "\<exists>r st1. go_loop iter st = Some (r, st1)"
proof (induction "rank st" arbitrary: st rule: less_induct)
  case less
  from assms [of st] obtain r st1 where it: "iter st = Some (r, st1)" "r = None \<longrightarrow> rank st1 < rank st" by blast
  show ?case
  proof (cases r)
    case None
    with it less.hyps [of st1] obtain r2 st2 where "go_loop iter st1 = Some (r2, st2)" by auto
    with it None show ?thesis by (simp add: go_loop_again)
  next
    case (Some x)
    with it show ?thesis by simp
  qed
qed

text \<open>A map from the states of one loop to those of another that commutes with the iterations commutes with the loops.\<close>

lemma go_loop_sim_le:
  assumes "go_loop it st = Some (r, st')"
    and "\<And>st. map_option (map_prod id proj) (it st) = it' (proj st)"
  shows "go_loop it' (proj st) = Some (r, proj st')"
  using assms(1)
proof (induction rule: go_loop_induct)
  case (return st r st')
  with assms(2) [of st] show ?case by simp
next
  case (again st st1 r st')
  from again.hyps assms(2) [of st] have "it' (proj st) = Some (None, proj st1)" by simp
  with again.IH show ?case by (simp add: go_loop_again)
qed

lemma go_loop_sim_ge:
  assumes "go_loop it' st2 = Some (r, st2')" and "st2 = proj st"
    and "\<And>st. map_option (map_prod id proj) (it st) = it' (proj st)"
  shows "\<exists>st'. go_loop it st = Some (r, st') \<and> st2' = proj st'"
  using assms(1,2)
proof (induction arbitrary: st rule: go_loop_induct)
  case (return st2 r st2')
  with assms(3) [of st] show ?case by (cases "it st") auto
next
  case (again st2 st3 r st2')
  with assms(3) [of st] obtain st1 where "it st = Some (None, st1)" "st3 = proj st1"
    by (cases "it st") auto
  with again.IH [of st1] show ?case by (simp add: go_loop_again)
qed

lemma go_loop_sim:
  assumes "\<And>st. map_option (map_prod id proj) (it st) = it' (proj st)"
  shows "map_option (map_prod id proj) (go_loop it st) = go_loop it' (proj st)"
proof (cases "go_loop it st")
  case None
  have "go_loop it' (proj st) = None"
  proof (rule ccontr)
    assume "go_loop it' (proj st) \<noteq> None"
    then obtain r st2' where "go_loop it' (proj st) = Some (r, st2')" by auto
    from go_loop_sim_ge [OF this refl assms] None show False by simp
  qed
  with None show ?thesis by simp
next
  case (Some y)
  then obtain r st' where y: "go_loop it st = Some (r, st')" by (cases y) auto
  with go_loop_sim_le [OF y assms] show ?thesis by simp
qed

section \<open>Read calls\<close>

text \<open>A sequence of \<open>Read\<close> calls with the given buffer sizes, stopped by the first error.\<close>

fun read_calls :: "'s reader \<Rightarrow> nat list \<Rightarrow> 's \<Rightarrow> (bytes \<times> go_error option \<times> 's) option" where
  "read_calls rd [] s = Some ([], None, s)"
| "read_calls rd (n # ns) s =
     (case rd n s of
        None \<Rightarrow> None
      | Some ((bs, Some e), s') \<Rightarrow> Some (bs, Some e, s')
      | Some ((bs, None), s') \<Rightarrow>
          (case read_calls rd ns s' of
             None \<Rightarrow> None
           | Some (cs, e, s'') \<Rightarrow> Some (bs @ cs, e, s'')))"

section \<open>The contract of a byte stream\<close>

text \<open>
  \<open>avail\<close> is what the reader will still deliver, \<open>rank\<close> bounds the calls that return no byte, and
  \<open>fin\<close> is the error that ends the stream, if it ends. A \<open>byte_source\<close> promises only what happens while
  there is something to deliver: a call with room in its buffer returns a prefix of it. What it does
  when nothing is left is open; on a connection that stays open, it blocks.
\<close>

locale byte_source =
  fixes rd :: "nat \<Rightarrow> 's \<Rightarrow> ((bytes \<times> go_error option) \<times> 's) option"
    and inv :: "'s \<Rightarrow> bool"
    and avail :: "'s \<Rightarrow> bytes"
    and fin :: "'s \<Rightarrow> go_error"
    and rank :: "'s \<Rightarrow> nat"
  assumes rd_some:
    "inv s \<Longrightarrow> 0 < n \<Longrightarrow> avail s \<noteq> [] \<Longrightarrow>
       \<exists>bs s'. rd n s = Some ((bs, None), s') \<and> avail s = bs @ avail s' \<and> length bs \<le> n
         \<and> inv s' \<and> fin s' = fin s \<and> rank s' < rank s"
begin

lemma read_full_from_enough:
  assumes "inv s" and "length got \<le> n" and "n \<le> length got + length (avail s)"
  shows "\<exists>s'. read_full_from rd n got s = Some (Inr (got @ take (n - length got) (avail s)), s')
           \<and> avail s' = drop (n - length got) (avail s) \<and> inv s' \<and> fin s' = fin s
           \<and> rank s' \<le> rank s \<and> (length got < n \<longrightarrow> rank s' < rank s)"
  using assms
proof (induction "rank s" arbitrary: s got rule: less_induct)
  case less
  show ?case
  proof (cases "n \<le> length got")
    case True
    with less.prems show ?thesis by (simp add: read_full_from.simps)
  next
    case False
    with less.prems(3) have "0 < n - length got" "avail s \<noteq> []" by auto
    from rd_some [OF less.prems(1) this] obtain bs s' where
        rd: "rd (n - length got) s = Some ((bs, None), s')" and av: "avail s = bs @ avail s'"
      and len: "length bs \<le> n - length got" and inv': "inv s'" and fin': "fin s' = fin s"
      and rank: "rank s' < rank s"
      by blast
    from less.prems(3) av len False have "n \<le> length (got @ bs) + length (avail s')"
      and "length (got @ bs) \<le> n" by simp_all
    from less.hyps [OF rank inv' this(2,1)] obtain s'' where
      "read_full_from rd n (got @ bs) s' =
         Some (Inr ((got @ bs) @ take (n - length (got @ bs)) (avail s')), s'')"
      "avail s'' = drop (n - length (got @ bs)) (avail s')" "inv s''" "fin s'' = fin s'"
      "rank s'' \<le> rank s'"
      by blast
    with rd av len False fin' rank show ?thesis
      by (simp add: read_full_from.simps [of rd n got s])
  qed
qed

lemma read_full_enough:
  assumes "inv s" and "n \<le> length (avail s)"
  shows "\<exists>s'. read_full rd n s = Some (Inr (take n (avail s)), s')
           \<and> avail s' = drop n (avail s) \<and> inv s' \<and> fin s' = fin s
           \<and> rank s' \<le> rank s \<and> (0 < n \<longrightarrow> rank s' < rank s)"
  using read_full_from_enough [of s "[]" n] assms by (simp add: read_full_def)

end

text \<open>A \<open>byte_reader\<close> also ends: when nothing is left, a call returns the final error.\<close>

locale byte_reader =
  fixes rd :: "nat \<Rightarrow> 's \<Rightarrow> ((bytes \<times> go_error option) \<times> 's) option"
    and inv :: "'s \<Rightarrow> bool"
    and avail :: "'s \<Rightarrow> bytes"
    and fin :: "'s \<Rightarrow> go_error"
    and rank :: "'s \<Rightarrow> nat"
  assumes rd_step:
    "inv s \<Longrightarrow> 0 < n \<Longrightarrow>
       \<exists>bs e s'. rd n s = Some ((bs, e), s') \<and> avail s = bs @ avail s' \<and> length bs \<le> n
         \<and> inv s' \<and> fin s' = fin s
         \<and> (case e of None \<Rightarrow> rank s' < rank s
            | Some er \<Rightarrow> er = fin s \<and> bs = [] \<and> avail s = [])"

sublocale byte_reader \<subseteq> byte_source rd inv avail fin rank
proof unfold_locales
  fix s :: 's and n :: nat
  assume s: "inv s" "0 < n" "avail s \<noteq> []"
  from rd_step [OF s(1,2)] s(3) show "\<exists>bs s'. rd n s = Some ((bs, None), s') \<and> avail s = bs @ avail s'
      \<and> length bs \<le> n \<and> inv s' \<and> fin s' = fin s \<and> rank s' < rank s"
    by (fastforce split: option.splits)
qed

context byte_reader
begin

lemma is_byte_source: "byte_source rd inv avail fin rank"
  by unfold_locales

lemma read_full_from_short:
  assumes "inv s" and "length got + length (avail s) < n"
  shows "\<exists>s'. read_full_from rd n got s =
             Some (Inl (if got @ avail s \<noteq> [] \<and> fin s = EOF then ErrUnexpectedEOF else fin s), s')
           \<and> avail s' = [] \<and> inv s' \<and> fin s' = fin s"
  using assms
proof (induction "rank s" arbitrary: s got rule: less_induct)
  case less
  then have "0 < n - length got" by simp
  from rd_step [OF less.prems(1) this] obtain bs e s' where
      rd: "rd (n - length got) s = Some ((bs, e), s')" and av: "avail s = bs @ avail s'"
    and inv': "inv s'" and fin': "fin s' = fin s"
    and e: "case e of None \<Rightarrow> rank s' < rank s
          | Some er \<Rightarrow> er = fin s \<and> bs = [] \<and> avail s = []"
    by blast
  show ?case
  proof (cases e)
    case None
    with e have "rank s' < rank s" by simp
    moreover from less.prems(2) av have "length (got @ bs) + length (avail s') < n" by simp
    ultimately obtain s'' where
      "read_full_from rd n (got @ bs) s' =
         Some (Inl (if (got @ bs) @ avail s' \<noteq> [] \<and> fin s' = EOF then ErrUnexpectedEOF else fin s'), s'')"
      "avail s'' = []" "inv s''" "fin s'' = fin s'"
      using less.hyps [OF _ inv'] by blast
    with rd None av fin' less.prems(2) show ?thesis
      by (simp add: read_full_from.simps [of rd n got s])
  next
    case (Some er)
    with e have "er = fin s" "bs = []" "avail s = []" by simp_all
    with rd Some av fin' inv' less.prems(2) show ?thesis
      by (simp add: read_full_from.simps [of rd n got s])
  qed
qed

lemma read_full_short:
  assumes "inv s" and "length (avail s) < n"
  shows "\<exists>s'. read_full rd n s =
             Some (Inl (if avail s \<noteq> [] \<and> fin s = EOF then ErrUnexpectedEOF else fin s), s')
           \<and> avail s' = [] \<and> inv s' \<and> fin s' = fin s"
  using read_full_from_short [of s "[]" n] assms by (simp add: read_full_def)

lemma read_full_returns: "inv s \<Longrightarrow> \<exists>r s'. read_full rd n s = Some (r, s') \<and> inv s'"
  using read_full_enough [of s n] read_full_short [of s n] by (meson not_le)

lemma read_calls_prefix:
  assumes "inv s" and "\<forall>n \<in> set ns. 0 < n"
  shows "\<exists>bs e s'. read_calls rd ns s = Some (bs, e, s') \<and> avail s = bs @ avail s' \<and> inv s'
           \<and> fin s' = fin s \<and> (e \<noteq> None \<longrightarrow> e = Some (fin s) \<and> avail s' = [])"
  using assms
proof (induction ns arbitrary: s)
  case Nil
  then show ?case by simp
next
  case (Cons n ns)
  from rd_step [OF Cons.prems(1), of n] Cons.prems(2) obtain bs e s' where
      rd: "rd n s = Some ((bs, e), s')" and av: "avail s = bs @ avail s'"
    and inv': "inv s'" and fin': "fin s' = fin s"
    and e: "case e of None \<Rightarrow> rank s' < rank s
          | Some er \<Rightarrow> er = fin s \<and> bs = [] \<and> avail s = []"
    by auto
  show ?case
  proof (cases e)
    case None
    from Cons.IH [OF inv'] Cons.prems(2) obtain cs e' s'' where
      "read_calls rd ns s' = Some (cs, e', s'')" "avail s' = cs @ avail s''" "inv s''"
      "fin s'' = fin s'" "e' \<noteq> None \<longrightarrow> e' = Some (fin s') \<and> avail s'' = []"
      by auto
    with rd None av fin' show ?thesis by simp
  next
    case (Some er)
    with e rd av inv' fin' show ?thesis by simp
  qed
qed

end

text \<open>Receiving until the first error, at most \<open>k\<close> times.\<close>

fun recv_until ::
  "('s \<Rightarrow> ('m result \<times> 's) option) \<Rightarrow> nat \<Rightarrow> 's \<Rightarrow> ('m list \<times> go_error option) option" where
  "recv_until recv 0 s = Some ([], None)"
| "recv_until recv (Suc k) s =
     (case recv s of
        None \<Rightarrow> None
      | Some (Inl e, s') \<Rightarrow> Some ([], Some e)
      | Some (Inr m, s') \<Rightarrow>
          (case recv_until recv k s' of None \<Rightarrow> None | Some (ms, e) \<Rightarrow> Some (m # ms, e)))"

text \<open>
  A decoder over such a stream: one frame at the front of the stream is decoded and consumed
  exactly, and at the end of the stream the final error comes out.
\<close>

locale framed_stream = byte_reader rd inv avail fin rank
  for rd :: "nat \<Rightarrow> 's \<Rightarrow> ((bytes \<times> go_error option) \<times> 's) option"
    and inv :: "'s \<Rightarrow> bool" and avail :: "'s \<Rightarrow> bytes"
    and fin :: "'s \<Rightarrow> go_error" and rank :: "'s \<Rightarrow> nat" +
  fixes recv :: "'s \<Rightarrow> ('m result \<times> 's) option"
    and frame :: "'f \<Rightarrow> bytes"
    and val :: "'f \<Rightarrow> 'm"
    and good :: "'f \<Rightarrow> bool"
  assumes recv_frame:
    "inv s \<Longrightarrow> good f \<Longrightarrow> avail s = frame f @ rest \<Longrightarrow>
       \<exists>s'. recv s = Some (Inr (val f), s') \<and> avail s' = rest \<and> inv s' \<and> fin s' = fin s
            \<and> rank s' < rank s"
    and recv_end:
    "inv s \<Longrightarrow> avail s = [] \<Longrightarrow>
       \<exists>s'. recv s = Some (Inl (fin s), s') \<and> avail s' = [] \<and> inv s' \<and> fin s' = fin s"
begin

lemma recv_until_frames:
  assumes "inv s" and "\<forall>f \<in> set fs. good f" and "avail s = concat (map frame fs)"
  shows "recv_until recv (Suc (length fs)) s = Some (map val fs, Some (fin s))"
  using assms
proof (induction fs arbitrary: s)
  case Nil
  with recv_end [of s] show ?case by auto
next
  case (Cons f fs)
  then obtain s' where "recv s = Some (Inr (val f), s')" "avail s' = concat (map frame fs)"
    "inv s'" "fin s' = fin s"
    using recv_frame [of s f "concat (map frame fs)"] by auto
  with Cons.IH [of s'] Cons.prems show ?case by simp
qed

lemma frames_unique:
  assumes "inv s" "avail s = frame f @ r" "good f" "avail s = frame g @ q" "good g"
  shows "val f = val g \<and> r = q"
  using recv_frame [OF assms(1,3,2)] recv_frame [OF assms(1,5,4)] by auto

end

section \<open>Network connections\<close>

text \<open>
  The receiving side: the segments still to come, each as the network delivers it, and the error
  after the last one. The sending side: the bytes handed to the network so far, and one entry per
  coming \<open>Write\<close> call that says whether it fails, and then after how many bytes.
\<close>

record instream =
  segs :: "bytes list"
  in_end :: go_error

record outstream =
  sent :: bytes
  faults :: "(nat \<times> go_error) option list"

record conn =
  cin :: instream
  cout :: outstream
  closed :: bool

fun seg_read :: "nat \<Rightarrow> instream \<Rightarrow> ((bytes \<times> go_error option) \<times> instream) option" where
  "seg_read n s =
     (case segs s of
        [] \<Rightarrow> Some (([], Some (in_end s)), s)
      | b # bs \<Rightarrow>
          if n < length b then Some ((take n b, None), s\<lparr>segs := drop n b # bs\<rparr>)
          else Some ((b, None), s\<lparr>segs := bs\<rparr>))"

definition in_avail :: "instream \<Rightarrow> bytes" where
  "in_avail s = concat (segs s)"

definition in_rank :: "instream \<Rightarrow> nat" where
  "in_rank s = length (segs s) + length (concat (segs s))"

fun out_write :: "bytes \<Rightarrow> outstream \<Rightarrow> (nat \<times> go_error option) \<times> outstream" where
  "out_write p s =
     (case faults s of
        [] \<Rightarrow> ((length p, None), s\<lparr>sent := sent s @ p\<rparr>)
      | None # fs \<Rightarrow> ((length p, None), s\<lparr>sent := sent s @ p, faults := fs\<rparr>)
      | Some (k, e) # fs \<Rightarrow>
          ((min k (length p), Some e), s\<lparr>sent := sent s @ take k p, faults := fs\<rparr>))"

definition conn_read :: "nat \<Rightarrow> conn \<Rightarrow> ((bytes \<times> go_error option) \<times> conn) option" where
  "conn_read n c =
     map_option (\<lambda>(r, i). (r, c\<lparr>cin := i\<rparr>)) (seg_read n (cin c))"

definition conn_write :: "bytes \<Rightarrow> conn \<Rightarrow> (nat \<times> go_error option) \<times> conn" where
  "conn_write p c = (case out_write p (cout c) of (r, out) \<Rightarrow> (r, c\<lparr>cout := out\<rparr>))"

definition conn_close :: "conn \<Rightarrow> conn" where
  "conn_close c = c\<lparr>closed := True\<rparr>"

definition conn_avail :: "conn \<Rightarrow> bytes" where
  "conn_avail c = in_avail (cin c)"

abbreviation conn_fin :: "conn \<Rightarrow> go_error" where
  "conn_fin c \<equiv> in_end (cin c)"

abbreviation conn_rank :: "conn \<Rightarrow> nat" where
  "conn_rank c \<equiv> in_rank (cin c)"

text \<open>No write call of the script fails.\<close>

definition no_faults :: "conn \<Rightarrow> bool" where
  "no_faults c \<longleftrightarrow> (\<forall>f \<in> set (faults (cout c)). f = None)"

lemma conn_avail_cin [simp, avail_simps]: "conn_avail (c\<lparr>cin := i\<rparr>) = concat (segs i)"
  by (simp add: conn_avail_def in_avail_def)

lemma conn_avail_cout [simp, avail_simps]: "conn_avail (c\<lparr>cout := out\<rparr>) = conn_avail c"
  by (simp add: conn_avail_def)

lemma seg_read_step:
  assumes "0 < n"
  shows "\<exists>bs e s'. seg_read n s = Some ((bs, e), s') \<and> in_avail s = bs @ in_avail s'
           \<and> length bs \<le> n \<and> in_end s' = in_end s
           \<and> (case e of None \<Rightarrow> in_rank s' < in_rank s
              | Some er \<Rightarrow> er = in_end s \<and> bs = [] \<and> in_avail s = [])"
  using assms by (auto simp: in_avail_def in_rank_def split: list.splits)

interpretation seg: byte_reader seg_read "\<lambda>s. True" in_avail in_end in_rank
  by unfold_locales (use seg_read_step in blast)

interpretation net: byte_reader conn_read "\<lambda>c. True" conn_avail conn_fin conn_rank
proof unfold_locales
  fix c :: conn and n :: nat
  assume "0 < n"
  from seg_read_step [OF this, of "cin c"] obtain bs e i where
    "seg_read n (cin c) = Some ((bs, e), i)" "in_avail (cin c) = bs @ in_avail i" "length bs \<le> n"
    "in_end i = in_end (cin c)"
    "case e of None \<Rightarrow> in_rank i < in_rank (cin c)
     | Some er \<Rightarrow> er = in_end (cin c) \<and> bs = [] \<and> in_avail (cin c) = []"
    by blast
  then show "\<exists>bs e c'. conn_read n c = Some ((bs, e), c') \<and> conn_avail c = bs @ conn_avail c'
      \<and> length bs \<le> n \<and> True \<and> conn_fin c' = conn_fin c
      \<and> (case e of None \<Rightarrow> conn_rank c' < conn_rank c
         | Some er \<Rightarrow> er = conn_fin c \<and> bs = [] \<and> conn_avail c = [])"
    by (intro exI [of _ bs] exI [of _ e] exI [of _ "c\<lparr>cin := i\<rparr>"])
      (simp add: conn_read_def conn_avail_def del: seg_read.simps split: option.splits)
qed

lemma out_write_ok:
  assumes "\<forall>f \<in> set (faults s). f = None"
  shows "\<exists>s'. out_write p s = ((length p, None), s') \<and> sent s' = sent s @ p
           \<and> (\<forall>f \<in> set (faults s'). f = None)"
  using assms by (cases "faults s") auto

lemma conn_write_ok:
  assumes "no_faults c"
  shows "\<exists>c'. conn_write p c = ((length p, None), c') \<and> sent (cout c') = sent (cout c) @ p
           \<and> no_faults c' \<and> cin c' = cin c \<and> closed c' = closed c"
  using out_write_ok [of "cout c" p] assms
  by (auto simp: conn_write_def no_faults_def simp del: out_write.simps)

lemma conn_write_cin:
  "conn_write p c = (r, c') \<Longrightarrow> cin c' = cin c \<and> closed c' = closed c"
  by (auto simp: conn_write_def split: prod.splits)

lemma conn_write_sent: "conn_write p c = (r, c') \<Longrightarrow> prefix (sent (cout c)) (sent (cout c'))"
  by (auto simp: conn_write_def split: prod.splits list.splits option.splits)

lemma conn_read_cout: "conn_read n c = Some (r, c') \<Longrightarrow> cout c' = cout c \<and> closed c' = closed c"
  by (auto simp: conn_read_def simp del: seg_read.simps)

text \<open>
  The contract of a writer over a byte stream: \<open>out\<close> is what has been handed to it; a call takes a
  prefix of the buffer and says how long it was, and takes less than all of it only with an error.
  A \<open>byte_writer\<close> is one that is up, so that every call takes the whole buffer. The plain
  connection provides both, and the encrypted connection is a \<open>byte_writer\<close> on top of any other.
\<close>

locale byte_sink =
  fixes wr :: "bytes \<Rightarrow> 'd \<Rightarrow> (nat \<times> go_error option) \<times> 'd"
    and winv :: "'d \<Rightarrow> bool"
    and out :: "'d \<Rightarrow> bytes"
  assumes sink_step:
    "winv d \<Longrightarrow> \<exists>wn werr d'. wr p d = ((wn, werr), d') \<and> wn \<le> length p \<and> winv d'
       \<and> out d' = out d @ take wn p \<and> (wn < length p \<longrightarrow> werr \<noteq> None)"

locale byte_writer =
  fixes wr :: "bytes \<Rightarrow> 'd \<Rightarrow> (nat \<times> go_error option) \<times> 'd"
    and winv :: "'d \<Rightarrow> bool"
    and out :: "'d \<Rightarrow> bytes"
  assumes wr_step:
    "winv d \<Longrightarrow> \<exists>d'. wr p d = ((length p, None), d') \<and> out d' = out d @ p \<and> winv d'"

sublocale byte_writer \<subseteq> byte_sink wr winv out
  by unfold_locales (use wr_step in fastforce)

text \<open>A sequence of \<open>Write\<close> calls, stopped by the first error.\<close>

fun write_seq :: "'d writer \<Rightarrow> bytes list \<Rightarrow> 'd \<Rightarrow> go_error option \<times> 'd" where
  "write_seq wr [] d = (None, d)"
| "write_seq wr (p # ps) d =
     (case wr p d of
        ((_, Some e), d') \<Rightarrow> (Some e, d')
      | ((_, None), d') \<Rightarrow> write_seq wr ps d')"

context byte_writer
begin

lemma write_seq_ok:
  "winv d \<Longrightarrow> \<exists>d'. write_seq wr ps d = (None, d') \<and> out d' = out d @ concat ps \<and> winv d'"
proof (induction ps arbitrary: d)
  case Nil
  then show ?case by simp
next
  case (Cons p ps)
  from wr_step [OF Cons.prems, of p] obtain d1 where
    "wr p d = ((length p, None), d1)" "out d1 = out d @ p" "winv d1" by blast
  with Cons.IH [of d1] show ?case by auto
qed

end

lemma conn_write_sink:
  "\<exists>wn werr d'. conn_write p d = ((wn, werr), d') \<and> wn \<le> length p \<and> True
     \<and> sent (cout d') = sent (cout d) @ take wn p \<and> (wn < length p \<longrightarrow> werr \<noteq> None)"
  by (auto simp: conn_write_def min_def split: list.splits option.splits)

interpretation net_sink: byte_sink conn_write "\<lambda>_. True" "\<lambda>c. sent (cout c)"
  by unfold_locales (rule conn_write_sink)

interpretation net_out: byte_writer conn_write no_faults "\<lambda>c. sent (cout c)"
  by unfold_locales (use conn_write_ok in blast)

text \<open>A reader yields these bytes, cut up as the caller likes, and then the error that ends it.\<close>

definition reads_back :: "'s reader \<Rightarrow> 's \<Rightarrow> bytes \<Rightarrow> go_error \<Rightarrow> bool" where
  "reads_back rd s bs e \<longleftrightarrow>
     (\<exists>s1 s2. read_full rd (length bs) s = Some (Inr bs, s1) \<and> read_full rd 1 s1 = Some (Inl e, s2))"

end
