(* ===== verification/Protocol.thy ===== *)
theory Protocol
  imports Go_Std Go_Io
begin

text \<open>
  The wire protocol of pkg/protocol: the message types and payload structs of message.go, and the
  length-prefixed frames of codec.go. MessagePack is a third-party package and stays a parameter,
  the record \<open>msgpack\<close> of the marshalling functions the code calls; \<open>fits\<close> says of one
  message that MessagePack reads back what it wrote and that the result is no longer than
  \<open>MaxMsgSize\<close>.
\<close>

section \<open>Messages (pkg/protocol/message.go)\<close>

definition MsgTypeAuth :: byte where "MsgTypeAuth = 1"
definition MsgTypeAuthResp :: byte where "MsgTypeAuthResp = 2"
definition MsgTypeNewProxy :: byte where "MsgTypeNewProxy = 3"
definition MsgTypeNewProxyResp :: byte where "MsgTypeNewProxyResp = 4"
definition MsgTypeNewConn :: byte where "MsgTypeNewConn = 5"
definition MsgTypeNewConnResp :: byte where "MsgTypeNewConnResp = 6"
definition MsgTypePing :: byte where "MsgTypePing = 7"
definition MsgTypePong :: byte where "MsgTypePong = 8"
definition MsgTypeCloseProxy :: byte where "MsgTypeCloseProxy = 9"

lemmas msg_types =
  MsgTypeAuth_def MsgTypeAuthResp_def MsgTypeNewProxy_def MsgTypeNewProxyResp_def
  MsgTypeNewConn_def MsgTypeNewConnResp_def MsgTypePing_def MsgTypePong_def MsgTypeCloseProxy_def

record auth_request =
  auth_token :: string
  auth_ts :: int64
  auth_nonce :: string
  auth_sign :: string
  auth_version :: string

record auth_response =
  authr_ok :: bool
  authr_message :: string

record new_proxy_request =
  npq_name :: string
  npq_type :: string
  npq_remote_port :: int

record new_proxy_response =
  npr_ok :: bool
  npr_message :: string
  npr_remote_port :: int

record new_conn_request =
  ncq_proxy_name :: string
  ncq_conn_id :: string

record new_conn_response =
  ncr_ok :: bool
  ncr_conn_id :: string
  ncr_message :: string

record ping =
  ping_ts :: int64

record pong =
  pong_ts :: int64

record message =
  msg_type :: byte
  msg_payload :: bytes

datatype payload =
    PAuthRequest auth_request
  | PAuthResponse auth_response
  | PNewProxyRequest new_proxy_request
  | PNewProxyResponse new_proxy_response
  | PNewConnRequest new_conn_request
  | PNewConnResponse new_conn_response
  | PPing ping
  | PPong pong

text \<open>
  MessagePack, as the code uses it: \<open>msgpack.Marshal\<close> on the envelope and on a payload, and
  \<open>msgpack.Unmarshal\<close> into the envelope and into each struct the code decodes.
\<close>

record msgpack =
  mp_message :: "message \<Rightarrow> bytes result"
  mp_unmessage :: "bytes \<Rightarrow> message result"
  mp_payload :: "payload \<Rightarrow> bytes result"
  mp_auth_request :: "bytes \<Rightarrow> auth_request result"
  mp_auth_response :: "bytes \<Rightarrow> auth_response result"
  mp_new_proxy_request :: "bytes \<Rightarrow> new_proxy_request result"
  mp_new_proxy_response :: "bytes \<Rightarrow> new_proxy_response result"
  mp_new_conn_request :: "bytes \<Rightarrow> new_conn_request result"

definition new_message :: "msgpack \<Rightarrow> byte \<Rightarrow> payload \<Rightarrow> message result" where
  "new_message mp typ p =
     (case mp_payload mp p of
        Inl e \<Rightarrow> Inl e
      | Inr data \<Rightarrow> Inr \<lparr>msg_type = typ, msg_payload = data\<rparr>)"

text \<open>\<open>Message.Decode\<close>: the struct to decode into picks the unmarshalling function.\<close>

definition decode_payload :: "(bytes \<Rightarrow> 'a result) \<Rightarrow> message \<Rightarrow> 'a result" where
  "decode_payload unm m = unm (msg_payload m)"

section \<open>Frames (pkg/protocol/codec.go)\<close>

definition LengthSize :: nat where "LengthSize = 4"
definition MaxMsgSize :: nat where "MaxMsgSize = 1024 * 1024"

definition length_prefix :: "bytes \<Rightarrow> bytes" where
  "length_prefix data = put_uint32 (word_of_nat (length data))"

text \<open>
  \<open>Encoder.Encode\<close> hands the frame to the writer in two \<open>Write\<close> calls, the length and the
  data, and stops at the first error.
\<close>

definition encode :: "msgpack \<Rightarrow> 's writer \<Rightarrow> message \<Rightarrow> 's \<Rightarrow> go_error option \<times> 's" where
  "encode mp wr msg s =
     (case mp_message mp msg of
        Inl e \<Rightarrow> (Some e, s)
      | Inr data \<Rightarrow>
          (case wr (length_prefix data) s of
             ((_, Some e), s1) \<Rightarrow> (Some e, s1)
           | ((_, None), s1) \<Rightarrow>
               (case wr data s1 of ((_, err), s2) \<Rightarrow> (err, s2))))"

definition decode :: "msgpack \<Rightarrow> 's reader \<Rightarrow> 's \<Rightarrow> (message result \<times> 's) option" where
  "decode mp rd s =
     (case read_full rd LengthSize s of
        None \<Rightarrow> None
      | Some (Inl e, s1) \<Rightarrow> Some (Inl e, s1)
      | Some (Inr len_buf, s1) \<Rightarrow>
          let len = get_uint32 len_buf in
          if len > word_of_nat MaxMsgSize then Some (Inl ErrShortBuffer, s1)
          else
            (case read_full rd (unat len) s1 of
               None \<Rightarrow> None
             | Some (Inl e, s2) \<Rightarrow> Some (Inl e, s2)
             | Some (Inr data, s2) \<Rightarrow> Some (mp_unmessage mp data, s2)))"

definition send_message ::
  "msgpack \<Rightarrow> 's writer \<Rightarrow> byte \<Rightarrow> payload \<Rightarrow> 's \<Rightarrow> go_error option \<times> 's" where
  "send_message mp wr typ p s =
     (case new_message mp typ p of
        Inl e \<Rightarrow> (Some e, s)
      | Inr msg \<Rightarrow> encode mp wr msg s)"

definition recv_message :: "msgpack \<Rightarrow> 's reader \<Rightarrow> 's \<Rightarrow> (message result \<times> 's) option" where
  "recv_message mp rd s = decode mp rd s"

lemma recv_message_keeps:
  assumes "recv_message mp rd s = Some (r, s')" and "\<And>m s r s'. rd m s = Some (r, s') \<Longrightarrow> f s' = f s"
  shows "f s' = f s"
proof -
  note keeps = read_full_keeps [where f = f, OF _ assms(2)]
  from assms(1) show ?thesis
    by (auto simp: recv_message_def decode_def Let_def dest!: keeps split: option.splits sum.splits if_splits)
qed

section \<open>One frame\<close>

definition frame :: "bytes \<Rightarrow> bytes" where
  "frame data = length_prefix data @ data"

definition msg_data :: "msgpack \<Rightarrow> message \<Rightarrow> bytes" where
  "msg_data mp m = (case mp_message mp m of Inr data \<Rightarrow> data | Inl _ \<Rightarrow> [])"

definition msg_frame :: "msgpack \<Rightarrow> message \<Rightarrow> bytes" where
  "msg_frame mp m = frame (msg_data mp m)"

definition fits :: "msgpack \<Rightarrow> message \<Rightarrow> bool" where
  "fits mp m =
     (case mp_message mp m of
        Inl _ \<Rightarrow> False
      | Inr data \<Rightarrow> length data \<le> MaxMsgSize \<and> mp_unmessage mp data = Inr m)"

lemma length_prefix_length [simp, frame_simps]: "length (length_prefix data) = 4"
  by (simp add: length_prefix_def)

lemma frame_length [simp, frame_simps]: "length (frame data) = 4 + length data"
  by (simp add: frame_def)

lemma get_length_prefix:
  "length data < 2 ^ 32 \<Longrightarrow> unat (get_uint32 (length_prefix data)) = length data"
  by (simp add: length_prefix_def unat_of_nat)

lemma prefix_too_long:
  "length data < 2 ^ 32 \<Longrightarrow>
     word_of_nat MaxMsgSize < get_uint32 (length_prefix data) \<longleftrightarrow> MaxMsgSize < length data"
  by (simp add: word_less_nat_alt get_length_prefix MaxMsgSize_def)

text \<open>What a decoder does with the bytes at the front of any byte stream.\<close>

context byte_reader
begin

lemma decode_frame:
  assumes s: "inv s" and av: "avail s = frame data @ rest" and len: "length data \<le> MaxMsgSize"
  shows "\<exists>s'. decode mp rd s = Some (mp_unmessage mp data, s') \<and> avail s' = rest \<and> inv s'
           \<and> fin s' = fin s \<and> rank s' < rank s"
proof -
  from read_full_enough [OF s, of 4] av obtain s1 where
    r1: "read_full rd 4 s = Some (Inr (length_prefix data), s1)" and
    s1: "avail s1 = data @ rest" "inv s1" "fin s1 = fin s" "rank s1 < rank s"
    by (auto simp: frame_def)
  from read_full_enough [OF s1(2), of "length data"] s1(1) obtain s2 where
    r2: "read_full rd (length data) s1 = Some (Inr data, s2)" and
    s2: "avail s2 = rest" "inv s2" "fin s2 = fin s1" "rank s2 \<le> rank s1"
    by auto
  from len have "length data < 2 ^ 32" by (simp add: MaxMsgSize_def)
  with len r1 r2 s1 s2 show ?thesis
    by (simp add: decode_def LengthSize_def Let_def prefix_too_long get_length_prefix)
qed

lemma decode_oversized:
  assumes s: "inv s" and av: "avail s = frame data @ rest"
    and len: "MaxMsgSize < length data" "length data < 2 ^ 32"
  shows "\<exists>s'. decode mp rd s = Some (Inl ErrShortBuffer, s') \<and> avail s' = data @ rest"
proof -
  from read_full_enough [OF s, of 4] av obtain s1 where
    "read_full rd 4 s = Some (Inr (length_prefix data), s1)" "avail s1 = data @ rest"
    by (auto simp: frame_def)
  with len show ?thesis
    by (simp add: decode_def LengthSize_def Let_def prefix_too_long)
qed

lemma decode_end:
  assumes "inv s" and "avail s = []"
  shows "\<exists>s'. decode mp rd s = Some (Inl (fin s), s') \<and> avail s' = [] \<and> inv s' \<and> fin s' = fin s"
  using read_full_short [OF assms(1), of 4] assms(2) by (auto simp: decode_def LengthSize_def)

lemma decode_cut:
  assumes s: "inv s" and end_EOF: "fin s = EOF" and len: "length data \<le> MaxMsgSize"
    and cut: "frame data = avail s @ missing" "missing \<noteq> []"
  shows "\<exists>s'. decode mp rd s =
           Some (Inl (if avail s = [] \<or> length (avail s) = 4 then EOF else ErrUnexpectedEOF), s')"
proof (cases "length (avail s) < 4")
  case True
  with read_full_short [OF s, of 4] end_EOF show ?thesis
    by (auto simp: decode_def LengthSize_def)
next
  case False
  define part where "part = drop 4 (avail s)"
  from False arg_cong [OF cut(1), of "take 4"] have "length_prefix data = take 4 (avail s)"
    by (simp add: frame_def)
  then have "avail s = length_prefix data @ part" by (simp add: part_def)
  moreover from False arg_cong [OF cut(1), of "drop 4"] have "data = part @ missing"
    by (simp add: frame_def part_def)
  ultimately have part: "avail s = length_prefix data @ part" "data = part @ missing" .
  with read_full_enough [OF s, of 4] obtain s1 where
    r1: "read_full rd 4 s = Some (Inr (length_prefix data), s1)" and
    s1: "avail s1 = part" "inv s1" "fin s1 = EOF"
    using end_EOF by auto
  from part(2) cut(2) s1(1) have "length (avail s1) < length data" by simp
  from read_full_short [OF s1(2) this] s1 obtain s2 where
    r2: "read_full rd (length data) s1 =
           Some (Inl (if part \<noteq> [] then ErrUnexpectedEOF else EOF), s2)"
    by auto
  from len have "length data < 2 ^ 32" by (simp add: MaxMsgSize_def)
  with len r1 r2 part show ?thesis
    by (simp add: decode_def LengthSize_def Let_def prefix_too_long get_length_prefix)
qed

lemma decode_returns: "inv s \<Longrightarrow> \<exists>r s'. decode mp rd s = Some (r, s') \<and> inv s'"
proof -
  assume s: "inv s"
  from read_full_returns [OF s, of 4] obtain r1 s1 where
    r1: "read_full rd 4 s = Some (r1, s1)" and s1: "inv s1" by blast
  show ?thesis
  proof (cases r1)
    case (Inl e)
    with r1 s1 show ?thesis by (simp add: decode_def LengthSize_def)
  next
    case (Inr len_buf)
    from read_full_returns [OF s1] obtain r2 s2 where
      "read_full rd (unat (get_uint32 len_buf)) s1 = Some (r2, s2)" "inv s2" by blast
    with Inr r1 s1 show ?thesis
      by (cases r2) (auto simp: decode_def LengthSize_def Let_def)
  qed
qed

end

interpretation net_proto: framed_stream
  conn_read "\<lambda>c. True" conn_avail conn_fin conn_rank
  "recv_message mp conn_read" "msg_frame mp" "\<lambda>m. m" "fits mp" for mp
proof unfold_locales
  fix c :: conn and m rest
  assume "fits mp m" and "conn_avail c = msg_frame mp m @ rest"
  then show "\<exists>c'. recv_message mp conn_read c = Some (Inr m, c') \<and> conn_avail c' = rest \<and> True
      \<and> conn_fin c' = conn_fin c \<and> conn_rank c' < conn_rank c"
    using net.decode_frame [of c "msg_data mp m" rest mp]
    by (auto simp: fits_def msg_frame_def msg_data_def recv_message_def split: sum.splits)
next
  fix c :: conn
  assume "conn_avail c = []"
  then show "\<exists>c'. recv_message mp conn_read c = Some (Inl (conn_fin c), c') \<and> conn_avail c' = [] \<and> True
      \<and> conn_fin c' = conn_fin c"
    using net.decode_end [of c mp] by (simp add: recv_message_def)
qed

lemma decode_message_bytes:
  assumes "decode mp conn_read c = Some (Inr m, c')"
  shows "\<exists>data. length data \<le> MaxMsgSize \<and> mp_unmessage mp data = Inr m
          \<and> (\<exists>len_buf. length len_buf = 4 \<and> unat (get_uint32 len_buf) = length data
               \<and> conn_avail c = len_buf @ data @ conn_avail c')"
proof -
  from assms obtain len_buf c1 where r1: "read_full conn_read 4 c = Some (Inr len_buf, c1)"
    by (auto simp: decode_def LengthSize_def split: option.splits sum.splits)
  have "4 \<le> length (conn_avail c)"
    using net.read_full_short [where s = c and n = 4] r1 by fastforce
  with net.read_full_enough [where s = c and n = 4] r1 have
    c1: "len_buf = take 4 (conn_avail c)" "conn_avail c1 = drop 4 (conn_avail c)"
    "length len_buf = 4"
    by auto
  let ?n = "unat (get_uint32 len_buf)"
  from assms r1 have fit: "\<not> word_of_nat MaxMsgSize < get_uint32 len_buf"
    and r2: "\<exists>data. read_full conn_read ?n c1 = Some (Inr data, c') \<and> mp_unmessage mp data = Inr m"
    by (auto simp: decode_def LengthSize_def Let_def split: option.splits sum.splits if_splits)
  then obtain data where r2: "read_full conn_read ?n c1 = Some (Inr data, c')"
    "mp_unmessage mp data = Inr m" by blast
  have "?n \<le> length (conn_avail c1)"
    using net.read_full_short [where s = c1 and n = ?n] r2(1) by fastforce
  with net.read_full_enough [where s = c1 and n = ?n] r2(1) have
    "data = take ?n (conn_avail c1)" "conn_avail c' = drop ?n (conn_avail c1)" "length data = ?n"
    by auto
  moreover from fit have "?n \<le> MaxMsgSize"
    by (simp add: word_less_nat_alt MaxMsgSize_def)
  moreover from c1 have "conn_avail c = len_buf @ conn_avail c1" by simp
  ultimately show ?thesis using r2(2) c1(3) by (metis append_take_drop_id)
qed

section \<open>Sending\<close>

definition payload_data :: "msgpack \<Rightarrow> payload \<Rightarrow> bytes" where
  "payload_data mp p = (case mp_payload mp p of Inr data \<Rightarrow> data | Inl _ \<Rightarrow> [])"

definition msg_of :: "msgpack \<Rightarrow> byte \<times> payload \<Rightarrow> message" where
  "msg_of mp tp = \<lparr>msg_type = fst tp, msg_payload = payload_data mp (snd tp)\<rparr>"

definition sendable :: "msgpack \<Rightarrow> byte \<times> payload \<Rightarrow> bool" where
  "sendable mp tp =
     (case new_message mp (fst tp) (snd tp) of Inl _ \<Rightarrow> False | Inr m \<Rightarrow> fits mp m)"

fun send_all :: "msgpack \<Rightarrow> (byte \<times> payload) list \<Rightarrow> conn \<Rightarrow> go_error option \<times> conn" where
  "send_all mp [] c = (None, c)"
| "send_all mp (tp # tps) c =
     (case send_message mp conn_write (fst tp) (snd tp) c of
        (Some e, c') \<Rightarrow> (Some e, c')
      | (None, c') \<Rightarrow> send_all mp tps c')"

lemma encode_ok:
  assumes "no_faults c" and "mp_message mp m = Inr data"
  shows "\<exists>c'. encode mp conn_write m c = (None, c') \<and> sent (cout c') = sent (cout c) @ frame data
           \<and> no_faults c' \<and> cin c' = cin c \<and> closed c' = closed c"
proof -
  from conn_write_ok [OF assms(1), of "length_prefix data"] obtain c1 where
    w1: "conn_write (length_prefix data) c = ((length (length_prefix data), None), c1)"
    "sent (cout c1) = sent (cout c) @ length_prefix data" "no_faults c1" "cin c1 = cin c"
    "closed c1 = closed c"
    by blast
  from conn_write_ok [OF w1(3), of data] obtain c2 where
    "conn_write data c1 = ((length data, None), c2)"
    "sent (cout c2) = sent (cout c1) @ data" "no_faults c2" "cin c2 = cin c1"
    "closed c2 = closed c1"
    by blast
  with w1 assms(2) show ?thesis by (simp add: encode_def frame_def)
qed

lemma encode_cin: "encode mp conn_write m c = (e, c') \<Longrightarrow> cin c' = cin c \<and> closed c' = closed c"
  by (fastforce simp: encode_def dest: conn_write_cin split: sum.splits prod.splits option.splits)

lemma send_message_cin:
  "send_message mp conn_write t p c = (e, c') \<Longrightarrow> cin c' = cin c \<and> closed c' = closed c"
  by (auto simp: send_message_def dest: encode_cin split: sum.splits)

lemma send_message_ok:
  assumes "no_faults c" and "sendable mp (t, p)"
  shows "\<exists>c'. send_message mp conn_write t p c = (None, c')
           \<and> sent (cout c') = sent (cout c) @ msg_frame mp (msg_of mp (t, p))
           \<and> no_faults c' \<and> cin c' = cin c \<and> closed c' = closed c"
proof -
  from assms(2) obtain m where m: "new_message mp t p = Inr m" "fits mp m"
    by (auto simp: sendable_def split: sum.splits)
  then have m_eq: "m = msg_of mp (t, p)"
    by (auto simp: new_message_def msg_of_def payload_data_def split: sum.splits)
  from m(2) obtain data where "mp_message mp m = Inr data"
    by (auto simp: fits_def split: sum.splits)
  with encode_ok [OF assms(1) this] m m_eq show ?thesis
    by (auto simp: send_message_def msg_frame_def msg_data_def)
qed

lemma sendable_fits: "sendable mp tp \<Longrightarrow> fits mp (msg_of mp tp)"
  by (auto simp: sendable_def new_message_def msg_of_def payload_data_def split: sum.splits)

lemma send_all_ok:
  assumes "no_faults c" and "\<forall>tp \<in> set tps. sendable mp tp"
  shows "\<exists>c'. send_all mp tps c = (None, c')
           \<and> sent (cout c') = sent (cout c) @ concat (map (msg_frame mp) (map (msg_of mp) tps))
           \<and> no_faults c' \<and> cin c' = cin c"
  using assms
proof (induction tps arbitrary: c)
  case Nil
  then show ?case by simp
next
  case (Cons tp tps)
  from send_message_ok [OF Cons.prems(1), of mp "fst tp" "snd tp"] Cons.prems(2) obtain c1 where
    "send_message mp conn_write (fst tp) (snd tp) c = (None, c1)"
    "sent (cout c1) = sent (cout c) @ msg_frame mp (msg_of mp tp)" "no_faults c1" "cin c1 = cin c"
    by auto
  with Cons.IH [of c1] Cons.prems(2) show ?case by auto
qed

text \<open>
  The writes of one \<open>Encode\<close> call, as the connection sees them. The code holds no lock over
  them, so two goroutines sending on one connection may interleave their calls.
\<close>

definition encode_calls :: "msgpack \<Rightarrow> message \<Rightarrow> bytes list" where
  "encode_calls mp m =
     (case mp_message mp m of Inl _ \<Rightarrow> [] | Inr data \<Rightarrow> [length_prefix data, data])"

fun write_calls :: "bytes list \<Rightarrow> conn \<Rightarrow> go_error option \<times> conn" where
  "write_calls [] c = (None, c)"
| "write_calls (b # bs) c =
     (case conn_write b c of
        ((_, Some e), c') \<Rightarrow> (Some e, c')
      | ((_, None), c') \<Rightarrow> write_calls bs c')"

lemma encode_as_calls:
  "mp_message mp m = Inr data \<Longrightarrow> encode mp conn_write m c = write_calls (encode_calls mp m) c"
  by (auto simp: encode_def encode_calls_def split: prod.splits option.splits)

lemma write_calls_ok:
  "no_faults c \<Longrightarrow>
     \<exists>c'. write_calls bs c = (None, c') \<and> sent (cout c') = sent (cout c) @ concat bs \<and> no_faults c'"
proof (induction bs arbitrary: c)
  case Nil
  then show ?case by simp
next
  case (Cons b bs)
  from conn_write_ok [OF Cons.prems, of b] obtain c1 where
    "conn_write b c = ((length b, None), c1)" "sent (cout c1) = sent (cout c) @ b" "no_faults c1"
    by blast
  with Cons.IH [of c1] show ?case by auto
qed

lemma hd_length_prefix: "length data \<le> MaxMsgSize \<Longrightarrow> hd (length_prefix data) = 0"
proof -
  assume len: "length data \<le> MaxMsgSize"
  then have "drop_bit 24 (word_of_nat (length data) :: 32 word) = 0"
    by (simp add: MaxMsgSize_def word_unat_eq_iff unat_drop_bit_eq drop_bit_eq_div unat_div unat_of_nat)
  then show ?thesis by (simp add: length_prefix_def put_uint32_def)
qed

section \<open>A concrete MessagePack\<close>

text \<open>
  An instance of the parameter, for evaluating the model: strings with a one-byte length, numbers
  as decimal strings, and the message as its type followed by its payload.
\<close>

definition bytes_str :: "bytes \<Rightarrow> string" where
  "bytes_str bs = map (\<lambda>b. char_of (unat b)) bs"

definition pack_str :: "string \<Rightarrow> bytes" where
  "pack_str s = word_of_nat (length s) # str_bytes s"

fun unpack_strs :: "nat \<Rightarrow> bytes \<Rightarrow> string list" where
  "unpack_strs 0 bs = []"
| "unpack_strs (Suc k) [] = []"
| "unpack_strs (Suc k) (n # bs) = bytes_str (take (unat n) bs) # unpack_strs k (drop (unat n) bs)"

definition int_str :: "string \<Rightarrow> int" where
  "int_str s = (case parse_int s of Some i \<Rightarrow> i | None \<Rightarrow> 0)"

fun sample_payload :: "payload \<Rightarrow> bytes" where
  "sample_payload (PAuthRequest r) =
     concat (map pack_str [auth_token r, format_int (sint (auth_ts r)), auth_nonce r, auth_sign r,
       auth_version r])"
| "sample_payload (PAuthResponse r) =
     pack_str (if authr_ok r then ''1'' else ''0'') @ pack_str (authr_message r)"
| "sample_payload (PNewProxyRequest r) =
     concat (map pack_str [npq_name r, npq_type r, format_int (npq_remote_port r)])"
| "sample_payload (PNewProxyResponse r) =
     concat (map pack_str [if npr_ok r then ''1'' else ''0'', npr_message r,
       format_int (npr_remote_port r)])"
| "sample_payload (PNewConnRequest r) = pack_str (ncq_proxy_name r) @ pack_str (ncq_conn_id r)"
| "sample_payload (PNewConnResponse r) =
     concat (map pack_str [if ncr_ok r then ''1'' else ''0'', ncr_conn_id r, ncr_message r])"
| "sample_payload (PPing r) = pack_str (format_int (sint (ping_ts r)))"
| "sample_payload (PPong r) = pack_str (format_int (sint (pong_ts r)))"

definition sample_fail :: "'a result" where
  "sample_fail = Inl (ErrText ''msgpack: decode error'')"

definition sample_msgpack :: msgpack where
  "sample_msgpack =
     \<lparr>mp_message = (\<lambda>m. Inr (msg_type m # msg_payload m)),
      mp_unmessage = (\<lambda>bs. case bs of [] \<Rightarrow> Inl EOF
        | t # p \<Rightarrow> Inr \<lparr>msg_type = t, msg_payload = p\<rparr>),
      mp_payload = (\<lambda>p. Inr (sample_payload p)),
      mp_auth_request = (\<lambda>bs. case unpack_strs 5 bs of
          [tok, ts, nonce, sig, ver] \<Rightarrow>
            Inr \<lparr>auth_token = tok, auth_ts = word_of_int (int_str ts), auth_nonce = nonce,
                 auth_sign = sig, auth_version = ver\<rparr>
        | _ \<Rightarrow> sample_fail),
      mp_auth_response = (\<lambda>bs. case unpack_strs 2 bs of
          [ok, t] \<Rightarrow> Inr \<lparr>authr_ok = (ok = ''1''), authr_message = t\<rparr>
        | _ \<Rightarrow> sample_fail),
      mp_new_proxy_request = (\<lambda>bs. case unpack_strs 3 bs of
          [name, typ, port] \<Rightarrow> Inr \<lparr>npq_name = name, npq_type = typ, npq_remote_port = int_str port\<rparr>
        | _ \<Rightarrow> sample_fail),
      mp_new_proxy_response = (\<lambda>bs. case unpack_strs 3 bs of
          [ok, t, port] \<Rightarrow> Inr \<lparr>npr_ok = (ok = ''1''), npr_message = t, npr_remote_port = int_str port\<rparr>
        | _ \<Rightarrow> sample_fail),
      mp_new_conn_request = (\<lambda>bs. case unpack_strs 2 bs of
          [name, cid] \<Rightarrow> Inr \<lparr>ncq_proxy_name = name, ncq_conn_id = cid\<rparr>
        | _ \<Rightarrow> sample_fail)\<rparr>"

lemmas sample_eval =
  sample_msgpack_def sample_fail_def pack_str_def str_bytes_def bytes_str_def int_str_def
  format_int_def nat_digits.simps digit_char_def

definition idle_conn :: "bytes list \<Rightarrow> conn" where
  "idle_conn bss =
     \<lparr>cin = \<lparr>segs = bss, in_end = EOF\<rparr>, cout = \<lparr>sent = [], faults = []\<rparr>, closed = False\<rparr>"

lemma idle_conn_simps [simp]:
  "no_faults (idle_conn bss)" "sent (cout (idle_conn bss)) = []" "segs (cin (idle_conn bss)) = bss"
  "in_end (cin (idle_conn bss)) = EOF" "conn_avail (idle_conn bss) = concat bss"
  by (simp_all add: idle_conn_def no_faults_def conn_avail_def in_avail_def)

lemma bytes_str_bytes [simp]: "bytes_str (str_bytes s) = s"
  by (induction s) (simp_all add: bytes_str_def str_bytes_def unat_of_nat)

lemma unpack_pack: "length s < 256 \<Longrightarrow> unpack_strs (Suc k) (pack_str s @ bs) = s # unpack_strs k bs"
  by (simp add: pack_str_def unat_of_nat)

lemma unpack_pack_last: "length s < 256 \<Longrightarrow> unpack_strs (Suc 0) (pack_str s) = [s]"
  using unpack_pack [of s 0 "[]"] by simp

text \<open>It reads back the structs the program exchanges, as long as no string is longer than a byte can say.\<close>

lemma int64_range: "- (2 ^ 63) \<le> sint (w :: int64)" "sint (w :: int64) < 2 ^ 63"
  using sint_greater_eq [of w] sint_less [of w] by simp_all

lemma int_str_format [simp]: "- (2 ^ 63) \<le> i \<Longrightarrow> i < 2 ^ 63 \<Longrightarrow> int_str (format_int i) = i"
  by (simp only: int_str_def parse_format_int option.case)

lemma sample_auth_request:
  assumes "list_all (\<lambda>s. length s < 256) [auth_token r, auth_nonce r, auth_sign r, auth_version r]"
  shows "mp_auth_request sample_msgpack (sample_payload (PAuthRequest r)) = Inr r"
proof -
  have five: "(5 :: nat) = Suc (Suc (Suc (Suc (Suc 0))))" by simp
  from assms int64_range [of "auth_ts r"] show ?thesis
    by (simp add: five sample_msgpack_def unpack_pack unpack_pack_last format_int_length)
qed

lemma sample_auth_response:
  "length (authr_message r) < 256 \<Longrightarrow>
     mp_auth_response sample_msgpack (sample_payload (PAuthResponse r)) = Inr r"
  by (simp add: sample_msgpack_def unpack_pack unpack_pack_last numeral_2_eq_2)

lemma sample_new_proxy_request:
  assumes "length (npq_name r) < 256" and "length (npq_type r) < 256"
    and "- (2 ^ 63) \<le> npq_remote_port r" and "npq_remote_port r < 2 ^ 63"
  shows "mp_new_proxy_request sample_msgpack (sample_payload (PNewProxyRequest r)) = Inr r"
  using assms by (simp add: sample_msgpack_def unpack_pack unpack_pack_last format_int_length numeral_3_eq_3)

lemma sample_new_proxy_response:
  assumes "length (npr_message r) < 256" and "- (2 ^ 63) \<le> npr_remote_port r" and "npr_remote_port r < 2 ^ 63"
  shows "mp_new_proxy_response sample_msgpack (sample_payload (PNewProxyResponse r)) = Inr r"
  using assms by (simp add: sample_msgpack_def unpack_pack unpack_pack_last format_int_length numeral_3_eq_3)

lemma sample_new_conn_request:
  "length (ncq_proxy_name r) < 256 \<Longrightarrow> length (ncq_conn_id r) < 256 \<Longrightarrow>
     mp_new_conn_request sample_msgpack (sample_payload (PNewConnRequest r)) = Inr r"
  by (simp add: sample_msgpack_def unpack_pack unpack_pack_last numeral_2_eq_2)

lemma sample_sendable: "length (sample_payload p) < MaxMsgSize \<Longrightarrow> sendable sample_msgpack (t, p)"
  by (simp add: sendable_def new_message_def fits_def sample_msgpack_def)

section \<open>Properties\<close>

text \<open>
  C7: Any list of messages sent with \<open>SendMessage\<close> over a connection whose writes succeed is
  received by repeated \<open>RecvMessage\<close> calls exactly, in order and with the types and payloads
  sent, however the network cuts the byte stream into segments (an empty one included), and the
  call after the last message returns the error that ends the stream.
\<close>

theorem send_recv_roundtrip:
  assumes "no_faults c" and "sent (cout c) = []"
    and "\<forall>tp \<in> set tps. sendable mp tp"
    and "concat (segs (cin d)) = sent (cout (snd (send_all mp tps c)))"
  shows "fst (send_all mp tps c) = None
    \<and> recv_until (recv_message mp conn_read) (Suc (length tps)) d
        = Some (map (msg_of mp) tps, Some (in_end (cin d)))"
proof -
  from send_all_ok [OF assms(1,3)] assms(2) obtain c' where
    c': "send_all mp tps c = (None, c')"
    "sent (cout c') = concat (map (msg_frame mp) (map (msg_of mp) tps))"
    by auto
  with assms(4) have "conn_avail d = concat (map (msg_frame mp) (map (msg_of mp) tps))"
    by (simp add: conn_avail_def in_avail_def)
  moreover from assms(3) have "\<forall>m \<in> set (map (msg_of mp) tps). fits mp m"
    by (simp add: sendable_fits)
  ultimately show ?thesis
    using net_proto.recv_until_frames [of "map (msg_of mp) tps" mp d] c'(1) by simp
qed

theorem send_recv_roundtrip_witness:
  "let tps = [(MsgTypePing, PPing \<lparr>ping_ts = 7\<rparr>), (MsgTypePong, PPong \<lparr>pong_ts = 9\<rparr>)];
       c = idle_conn [];
       bs = sent (cout (snd (send_all sample_msgpack tps c)));
       d = idle_conn [take 3 bs, [], drop 3 bs]
   in recv_until (recv_message sample_msgpack conn_read) 3 d
        = Some (map (msg_of sample_msgpack) tps, Some EOF)"
proof -
  let ?tps = "[(MsgTypePing, PPing \<lparr>ping_ts = 7\<rparr>), (MsgTypePong, PPong \<lparr>pong_ts = 9\<rparr>)]"
  let ?bs = "sent (cout (snd (send_all sample_msgpack ?tps (idle_conn []))))"
  let ?d = "idle_conn [take 3 ?bs, [], drop 3 ?bs]"
  have "\<forall>tp \<in> set ?tps. sendable sample_msgpack tp"
    by (simp add: sendable_def new_message_def fits_def MaxMsgSize_def sample_eval)
  then show ?thesis
    using send_recv_roundtrip [of "idle_conn []" ?tps sample_msgpack ?d]
    by (simp add: Let_def numeral_3_eq_3 del: send_all.simps recv_until.simps)
qed

text \<open>
  A frame cut off anywhere never yields a message. On a connection that ends with \<open>EOF\<close>
  after a strict prefix of a frame, \<open>RecvMessage\<close> fails, with \<open>ErrUnexpectedEOF\<close> except at
  the two places where \<open>io.ReadFull\<close> had not yet read a byte: before the frame and right after
  its length.
\<close>

theorem truncated_frame_error:
  assumes "in_end (cin c) = EOF" and "length data \<le> MaxMsgSize"
    and "frame data = concat (segs (cin c)) @ missing" and "missing \<noteq> []"
  shows "\<exists>c'. recv_message mp conn_read c =
    Some (Inl (if length (concat (segs (cin c))) \<in> {0, 4} then EOF else ErrUnexpectedEOF), c')"
  using net.decode_cut [of c data missing mp] assms
  by (auto simp: recv_message_def conn_avail_def in_avail_def)

theorem truncated_frame_error_witness:
  "\<exists>c'. recv_message sample_msgpack conn_read (idle_conn [[0, 0], [0, 3, 65]])
      = Some (Inl ErrUnexpectedEOF, c')"
proof -
  have "frame [65, 66, 67] = [0, 0, 0, 3, 65, 66, 67]"
    by code_simp
  then show ?thesis
    using truncated_frame_error [of "idle_conn [[0, 0], [0, 3, 65]]" "[65, 66, 67]" "[66, 67]"]
    by (simp add: MaxMsgSize_def)
qed

text \<open>
  C26: On a stream that ends, \<open>RecvMessage\<close> always returns on a network connection, whatever bytes the peer sends and
  however they are segmented, and a message that it returns was unmarshalled from at most
  \<open>MaxMsgSize\<close> bytes of the stream.
\<close>

theorem recv_message_returns:
  "\<exists>r c'. recv_message mp conn_read c = Some (r, c')
     \<and> (case r of
          Inl e \<Rightarrow> True
        | Inr m \<Rightarrow>
            (\<exists>data len_buf. length data \<le> MaxMsgSize \<and> mp_unmessage mp data = Inr m
               \<and> length len_buf = LengthSize \<and> unat (get_uint32 len_buf) = length data
               \<and> conn_avail c = len_buf @ data @ conn_avail c'))"
proof -
  from net.decode_returns [where s = c and mp = mp] obtain r c' where
    dec: "decode mp conn_read c = Some (r, c')" by blast
  then show ?thesis
    using decode_message_bytes [of mp c _ c']
    by (cases r) (auto simp: recv_message_def LengthSize_def)
qed

text \<open>
  C27: \<open>Encode\<close> checks no length: a message whose data is longer than \<open>MaxMsgSize\<close> is sent
  without an error, and the receiver of it gets \<open>ErrShortBuffer\<close> with the data still unread on
  the stream, so every later message on that stream is read out of step.
\<close>

theorem oversized_message_sent_but_rejected:
  assumes "mp_message mp m = Inr data" and "MaxMsgSize < length data" and "length data < 2 ^ 32"
    and "no_faults c" and "sent (cout c) = []"
    and "concat (segs (cin d)) = sent (cout (snd (encode mp conn_write m c)))"
  shows "fst (encode mp conn_write m c) = None
    \<and> (\<exists>d'. recv_message mp conn_read d = Some (Inl ErrShortBuffer, d') \<and> conn_avail d' = data)"
proof -
  from encode_ok [OF assms(4,1)] assms(5) obtain c' where
    c': "encode mp conn_write m c = (None, c')" "sent (cout c') = frame data"
    by auto
  with assms(6) have "conn_avail d = frame data @ []"
    by (simp add: conn_avail_def in_avail_def)
  with net.decode_oversized [of d data "[]" mp] assms(2,3) c'(1) show ?thesis
    by (auto simp: recv_message_def)
qed

theorem oversized_message_sent_but_rejected_witness:
  "let m = \<lparr>msg_type = 1, msg_payload = replicate 1048576 0\<rparr>;
       bs = sent (cout (snd (encode sample_msgpack conn_write m (idle_conn []))))
   in \<exists>d'. recv_message sample_msgpack conn_read (idle_conn [bs]) = Some (Inl ErrShortBuffer, d')"
proof -
  let ?m = "\<lparr>msg_type = 1, msg_payload = replicate 1048576 0\<rparr>"
  have "mp_message sample_msgpack ?m = Inr (1 # replicate 1048576 0)"
    by (simp add: sample_msgpack_def)
  then show ?thesis
    using oversized_message_sent_but_rejected
      [of sample_msgpack ?m "1 # replicate 1048576 0" "idle_conn []"
        "idle_conn [sent (cout (snd (encode sample_msgpack conn_write ?m (idle_conn []))))]"]
    by (auto simp: Let_def MaxMsgSize_def)
qed

text \<open>
  C28: Two goroutines that send on one connection can interleave the two writes of their frames, and
  then the receiver unmarshals bytes that are neither message: for any two messages whose data
  does not start with a zero byte (MessagePack maps never do) there is an interleaving after which
  the first \<open>RecvMessage\<close> hands MessagePack data that differs from what either goroutine sent.
\<close>

theorem interleaved_sends_corrupt:
  assumes "mp_message mp m1 = Inr d1" and "d1 \<noteq> []" and "hd d1 \<noteq> 0" and "length d1 \<le> MaxMsgSize"
    and "mp_message mp m2 = Inr d2" and "d2 \<noteq> []" and "hd d2 \<noteq> 0" and "length d2 \<le> MaxMsgSize"
    and "no_faults c" and "sent (cout c) = []"
  shows "\<exists>ws \<in> shuffles (encode_calls mp m1) (encode_calls mp m2).
    \<forall>d. concat (segs (cin d)) = sent (cout (snd (write_calls ws c))) \<longrightarrow>
      (\<exists>bad d'. bad \<noteq> d1 \<and> bad \<noteq> d2
         \<and> recv_message mp conn_read d = Some (mp_unmessage mp bad, d'))"
proof
  let ?ws = "[length_prefix d1, length_prefix d2, d1, d2]"
  let ?all = "length_prefix d2 @ d1 @ d2"
  let ?bad = "take (length d1) ?all"
  have calls: "encode_calls mp m1 = [length_prefix d1, d1]" "encode_calls mp m2 = [length_prefix d2, d2]"
    using assms(1,5) by (simp_all add: encode_calls_def)
  show "?ws \<in> shuffles (encode_calls mp m1) (encode_calls mp m2)"
    by (simp add: calls Cons_in_shuffles_iff)
  have "hd ?bad = hd (length_prefix d2)"
    using assms(2) by (cases d1; cases "length_prefix d2") (auto simp: length_prefix_def put_uint32_def)
  with hd_length_prefix [OF assms(8)] assms(3,7) have bad: "?bad \<noteq> d1" "?bad \<noteq> d2" by auto
  from write_calls_ok [OF assms(9), of ?ws] assms(10) obtain c' where
    c': "write_calls ?ws c = (None, c')" "sent (cout c') = length_prefix d1 @ ?all" by auto
  have "\<exists>bad d'. bad \<noteq> d1 \<and> bad \<noteq> d2 \<and> recv_message mp conn_read d = Some (mp_unmessage mp bad, d')"
    if d: "concat (segs (cin d)) = sent (cout (snd (write_calls ?ws c)))" for d
  proof -
    have "length ?bad = length d1" by simp
    then have "frame ?bad = length_prefix d1 @ ?bad"
      by (simp only: frame_def length_prefix_def)
    moreover from d c' have "conn_avail d = length_prefix d1 @ ?bad @ drop (length d1) ?all"
      by (simp only: conn_avail_def in_avail_def snd_conv append_take_drop_id)
    ultimately have "conn_avail d = frame ?bad @ drop (length d1) ?all" by simp
    with net.decode_frame [of d ?bad _ mp] assms(4) bad show ?thesis
      by (auto simp: recv_message_def simp del: take_append)
  qed
  then show "\<forall>d. concat (segs (cin d)) = sent (cout (snd (write_calls ?ws c))) \<longrightarrow>
      (\<exists>bad d'. bad \<noteq> d1 \<and> bad \<noteq> d2
         \<and> recv_message mp conn_read d = Some (mp_unmessage mp bad, d'))"
    by blast
qed

theorem interleaved_sends_corrupt_witness:
  "\<exists>ws \<in> shuffles (encode_calls sample_msgpack \<lparr>msg_type = 5, msg_payload = [65, 66]\<rparr>)
              (encode_calls sample_msgpack \<lparr>msg_type = 8, msg_payload = [67]\<rparr>).
     \<exists>bad d'. bad \<noteq> [5, 65, 66] \<and> bad \<noteq> [8, 67]
       \<and> recv_message sample_msgpack conn_read
           (idle_conn [sent (cout (snd (write_calls ws (idle_conn []))))])
         = Some (mp_unmessage sample_msgpack bad, d')"
proof -
  let ?m1 = "\<lparr>msg_type = 5, msg_payload = [65, 66]\<rparr>" and ?m2 = "\<lparr>msg_type = 8, msg_payload = [67]\<rparr>"
  have "mp_message sample_msgpack ?m1 = Inr [5, 65, 66]" "mp_message sample_msgpack ?m2 = Inr [8, 67]"
    by (simp_all add: sample_msgpack_def)
  then obtain ws where
    "ws \<in> shuffles (encode_calls sample_msgpack ?m1) (encode_calls sample_msgpack ?m2)" and
    ws: "\<forall>d. concat (segs (cin d)) = sent (cout (snd (write_calls ws (idle_conn [])))) \<longrightarrow>
      (\<exists>bad d'. bad \<noteq> [5, 65, 66] \<and> bad \<noteq> [8, 67]
         \<and> recv_message sample_msgpack conn_read d = Some (mp_unmessage sample_msgpack bad, d'))"
    using interleaved_sends_corrupt [of sample_msgpack ?m1 "[5, 65, 66]" ?m2 "[8, 67]" "idle_conn []"]
    by (auto simp: MaxMsgSize_def)
  moreover from ws have "\<exists>bad d'. bad \<noteq> [5, 65, 66] \<and> bad \<noteq> [8, 67]
       \<and> recv_message sample_msgpack conn_read
           (idle_conn [sent (cout (snd (write_calls ws (idle_conn []))))])
         = Some (mp_unmessage sample_msgpack bad, d')"
    by simp
  ultimately show ?thesis by blast
qed

end
