(* ===== verification/Config.thy ===== *)
theory Config
  imports Go_Std
begin

text \<open>
  pkg/config: port ranges and their expansion into single-port proxies, and the defaults and the
  validation that \<open>LoadServerConfig\<close> and \<open>LoadClientConfig\<close> apply after reading the file.
  \<open>os.ReadFile\<close> and the YAML decoder are parameters. A Go \<open>int\<close> is an \<open>int\<close> here: every
  number comes from \<open>strconv.Atoi\<close> or is checked to lie in 1 to 65535 before it is used in
  arithmetic.
\<close>

section \<open>Configuration structs\<close>

record proxy_config =
  pc_name :: string
  pc_type :: string
  pc_local_addr :: string
  pc_local_port :: string
  pc_remote_port :: string

record server_config =
  sc_bind_addr :: string
  sc_dashboard_addr :: string
  sc_transport :: string
  sc_crypto :: string
  sc_tls_cert_file :: string
  sc_tls_key_file :: string
  sc_chacha20_psk :: string
  sc_quic_cert_file :: string
  sc_quic_key_file :: string
  sc_auth_tokens :: "string list"
  sc_mtmux_enabled :: bool
  sc_mtmux_tunnels :: int

record client_config =
  cc_server_addr :: string
  cc_transport :: string
  cc_crypto :: string
  cc_token :: string
  cc_tls_ca_cert :: string
  cc_tls_skip_verify :: bool
  cc_chacha20_psk :: string
  cc_quic_skip_verify :: bool
  cc_mtmux_enabled :: bool
  cc_mtmux_tunnels :: int
  cc_proxies :: "proxy_config list"

section \<open>Port ranges\<close>

record port_range =
  pr_start :: int
  pr_end :: int

definition parse_port_range :: "string \<Rightarrow> port_range result" where
  "parse_port_range s0 =
     (let s = trim_space s0 in
      if s = [] then Inl (ErrText ''empty port string'')
      else
        (case split_on CHR ''-'' s of
           [p] \<Rightarrow>
             (case parse_int p of
                None \<Rightarrow> Inl (ErrText (''invalid port: '' @ s))
              | Some port \<Rightarrow>
                  if port < 1 \<or> port > 65535 then
                    Inl (ErrText (''port out of range: '' @ format_int port))
                  else Inr \<lparr>pr_start = port, pr_end = port\<rparr>)
         | [p, q] \<Rightarrow>
             (case parse_int p of
                None \<Rightarrow> Inl (ErrText (''invalid start port: '' @ p))
              | Some a \<Rightarrow>
                  (case parse_int q of
                     None \<Rightarrow> Inl (ErrText (''invalid end port: '' @ q))
                   | Some b \<Rightarrow>
                       if a < 1 \<or> a > 65535 \<or> b < 1 \<or> b > 65535 then
                         Inl (ErrText (''port out of range: '' @ s))
                       else if a > b then Inl (ErrText (''start port > end port: '' @ s))
                       else Inr \<lparr>pr_start = a, pr_end = b\<rparr>))
         | _ \<Rightarrow> Inl (ErrText (''invalid port format: '' @ s))))"

definition count :: "port_range \<Rightarrow> int" where
  "count r = pr_end r - pr_start r + 1"

function ports_from :: "int \<Rightarrow> int \<Rightarrow> int list" where
  "ports_from p e = (if p \<le> e then p # ports_from (p + 1) e else [])"
  by pat_completeness auto
termination
  by (relation "measure (\<lambda>(p, e). nat (e + 1 - p))") auto

declare ports_from.simps [simp del]

text \<open>\<open>make([]int, 0, r.Count())\<close> panics on a negative capacity, which a range built by hand can have.\<close>

definition ports :: "port_range \<Rightarrow> int list outcome" where
  "ports r =
     (if count r < 0 then Panic ''makeslice: cap out of range''
      else Done (ports_from (pr_start r) (pr_end r)))"

section \<open>Expansion\<close>

record expanded_proxy =
  ep_name :: string
  ep_type :: string
  ep_local_addr :: string
  ep_local_port :: int
  ep_remote_port :: int

definition expand :: "proxy_config \<Rightarrow> expanded_proxy list result outcome" where
  "expand p =
     (case parse_port_range (pc_local_port p) of
        Inl e \<Rightarrow> Done (Inl (ErrText (''proxy '' @ pc_name p @ '': invalid local_port: '' @ error_text e)))
      | Inr local_range \<Rightarrow>
     (case parse_port_range (pc_remote_port p) of
        Inl e \<Rightarrow> Done (Inl (ErrText (''proxy '' @ pc_name p @ '': invalid remote_port: '' @ error_text e)))
      | Inr remote_range \<Rightarrow>
          if count local_range \<noteq> count remote_range then
            Done (Inl (ErrText (''proxy '' @ pc_name p
              @ '': local_port and remote_port range count mismatch ('' @ format_int (count local_range)
              @ '' vs '' @ format_int (count remote_range) @ '')'')))
          else
            (case ports local_range of
               Panic m \<Rightarrow> Panic m
             | Done local_ports \<Rightarrow>
            (case ports remote_range of
               Panic m \<Rightarrow> Panic m
             | Done remote_ports \<Rightarrow>
                 Done (Inr (map (\<lambda>i.
                   \<lparr>ep_name = (if length local_ports > 1
                               then pc_name p @ ''_'' @ format_int (int i) else pc_name p),
                    ep_type = pc_type p,
                    ep_local_addr = pc_local_addr p,
                    ep_local_port = local_ports ! i,
                    ep_remote_port = remote_ports ! i\<rparr>) [0..<length local_ports]))))))"

definition get_local_address :: "expanded_proxy \<Rightarrow> string" where
  "get_local_address e = ep_local_addr e @ '':'' @ format_int (ep_local_port e)"

section \<open>Loading\<close>

definition finish_server_config :: "server_config \<Rightarrow> server_config result" where
  "finish_server_config cfg0 =
     (let cfg1 = (if sc_transport cfg0 = [] then cfg0\<lparr>sc_transport := ''net''\<rparr> else cfg0);
          cfg2 = (if sc_crypto cfg1 = [] then cfg1\<lparr>sc_crypto := ''tls''\<rparr> else cfg1)
      in if sc_mtmux_enabled cfg2 then
           (let cfg3 = (if sc_mtmux_tunnels cfg2 \<le> 0 then cfg2\<lparr>sc_mtmux_tunnels := 8\<rparr> else cfg2)
            in if sc_mtmux_tunnels cfg3 > 32 then
                 Inl (ErrText (''mtmux.tunnels cannot exceed 32 (got ''
                   @ format_int (sc_mtmux_tunnels cfg3) @ '')''))
               else if sc_transport cfg3 = ''quic'' then
                 Inl (ErrText ''mtmux cannot be used with transport=quic (QUIC has built-in multiplexing)'')
               else Inr cfg3)
         else Inr cfg2)"

definition load_server_config ::
  "(string \<Rightarrow> bytes result) \<Rightarrow> (bytes \<Rightarrow> server_config result) \<Rightarrow> string \<Rightarrow> server_config result" where
  "load_server_config read_file unmarshal path =
     (case read_file path of
        Inl e \<Rightarrow> Inl e
      | Inr data \<Rightarrow> (case unmarshal data of Inl e \<Rightarrow> Inl e | Inr cfg \<Rightarrow> finish_server_config cfg))"

definition finish_client_config :: "client_config \<Rightarrow> client_config result" where
  "finish_client_config cfg0 =
     (let cfg1 = (if cc_transport cfg0 = [] then cfg0\<lparr>cc_transport := ''net''\<rparr> else cfg0);
          cfg2 = (if cc_crypto cfg1 = [] then cfg1\<lparr>cc_crypto := ''tls''\<rparr> else cfg1)
      in if cc_mtmux_enabled cfg2 then
           (let cfg3 = (if cc_mtmux_tunnels cfg2 \<le> 0 then cfg2\<lparr>cc_mtmux_tunnels := 8\<rparr> else cfg2)
            in if cc_mtmux_tunnels cfg3 > 32 then
                 Inl (ErrText (''mtmux.tunnels cannot exceed 32 (got ''
                   @ format_int (cc_mtmux_tunnels cfg3) @ '')''))
               else if cc_transport cfg3 = ''quic'' then
                 Inl (ErrText ''mtmux cannot be used with transport=quic (QUIC has built-in multiplexing)'')
               else Inr cfg3)
         else Inr cfg2)"

definition load_client_config ::
  "(string \<Rightarrow> bytes result) \<Rightarrow> (bytes \<Rightarrow> client_config result) \<Rightarrow> string \<Rightarrow> client_config result" where
  "load_client_config read_file unmarshal path =
     (case read_file path of
        Inl e \<Rightarrow> Inl e
      | Inr data \<Rightarrow> (case unmarshal data of Inl e \<Rightarrow> Inl e | Inr cfg \<Rightarrow> finish_client_config cfg))"

section \<open>Lemmas\<close>

lemma ports_from_upto: "ports_from p e = [p..e]"
  by (induction p e rule: ports_from.induct) (simp add: ports_from.simps upto.simps)

text \<open>A well-formed range, the invariant of every range the parser returns.\<close>

definition valid_range :: "port_range \<Rightarrow> bool" where
  "valid_range r \<longleftrightarrow> 1 \<le> pr_start r \<and> pr_start r \<le> pr_end r \<and> pr_end r \<le> 65535"

text \<open>The accepted spellings, as a relation between a string and the range it denotes.\<close>

inductive denotes :: "string \<Rightarrow> port_range \<Rightarrow> bool" where
  single: "CHR ''-'' \<notin> set t \<Longrightarrow> parse_int t = Some a \<Longrightarrow> 1 \<le> a \<Longrightarrow> a \<le> 65535 \<Longrightarrow>
    denotes t \<lparr>pr_start = a, pr_end = a\<rparr>"
| pair: "CHR ''-'' \<notin> set p \<Longrightarrow> CHR ''-'' \<notin> set q \<Longrightarrow> parse_int p = Some a \<Longrightarrow> parse_int q = Some b \<Longrightarrow>
    1 \<le> a \<Longrightarrow> a \<le> b \<Longrightarrow> b \<le> 65535 \<Longrightarrow>
    denotes (p @ ''-'' @ q) \<lparr>pr_start = a, pr_end = b\<rparr>"

lemma denotes_valid: "denotes t r \<Longrightarrow> valid_range r"
  by (induction rule: denotes.induct) (simp_all add: valid_range_def)

lemma parse_port_range_denotes:
  assumes "parse_port_range s = Inr r"
  shows "denotes (trim_space s) r"
proof -
  let ?t = "trim_space s"
  from assms consider p where "split_on CHR ''-'' ?t = [p]" | p q where "split_on CHR ''-'' ?t = [p, q]"
    by (auto simp: parse_port_range_def Let_def split: if_splits list.splits)
  then show ?thesis
  proof cases
    case (1 p)
    then have "CHR ''-'' \<notin> set ?t" "p = ?t" by (simp_all add: split_on_singleton)
    with assms 1 show ?thesis
      by (auto simp: parse_port_range_def Let_def intro: denotes.single split: if_splits option.splits)
  next
    case (2 p q)
    from split_on_pair [OF 2] have t: "?t = p @ ''-'' @ q" "CHR ''-'' \<notin> set p" "CHR ''-'' \<notin> set q"
      by simp_all
    from assms 2 obtain a b where "parse_int p = Some a" "parse_int q = Some b" "1 \<le> a" "a \<le> b"
      "b \<le> 65535" "r = \<lparr>pr_start = a, pr_end = b\<rparr>"
      by (auto simp: parse_port_range_def Let_def split: if_splits option.splits)
    with t denotes.pair [of p q a b] show ?thesis by simp
  qed
qed

lemma denotes_parse_port_range:
  assumes "denotes (trim_space s) r"
  shows "parse_port_range s = Inr r"
proof -
  let ?t = "trim_space s"
  from assms consider
      a where "CHR ''-'' \<notin> set ?t" "parse_int ?t = Some a" "1 \<le> a" "a \<le> 65535"
        "r = \<lparr>pr_start = a, pr_end = a\<rparr>"
    | p q a b where "?t = p @ CHR ''-'' # q" "CHR ''-'' \<notin> set p" "CHR ''-'' \<notin> set q"
        "parse_int p = Some a" "parse_int q = Some b" "1 \<le> a" "a \<le> b" "b \<le> 65535"
        "r = \<lparr>pr_start = a, pr_end = b\<rparr>"
    by (auto elim!: denotes.cases)
  then show ?thesis
  proof cases
    case 1
    then have "split_on CHR ''-'' ?t = [?t]" "?t \<noteq> []"
      by (auto simp: split_on_absent parse_int_def)
    with 1 show ?thesis by (simp add: parse_port_range_def Let_def)
  next
    case 2
    then have "split_on CHR ''-'' ?t = [p, q]" "?t \<noteq> []"
      by (simp_all add: split_on_append split_on_absent)
    with 2(4-9) show ?thesis by (simp add: parse_port_range_def Let_def)
  qed
qed

lemma parse_port_range_valid: "parse_port_range s = Inr r \<Longrightarrow> valid_range r"
  by (blast dest: parse_port_range_denotes denotes_valid)

lemma ports_valid: "valid_range r \<Longrightarrow> ports r = Done [pr_start r..pr_end r]"
  by (simp add: ports_def count_def valid_range_def ports_from_upto)

lemma count_valid: "valid_range r \<Longrightarrow> count r = int (length [pr_start r..pr_end r])"
  by (simp add: count_def valid_range_def)

lemma same_count:
  "valid_range l \<Longrightarrow> valid_range r \<Longrightarrow> count l = count r \<Longrightarrow>
     length [pr_start l..pr_end l] = length [pr_start r..pr_end r]"
  by (metis count_valid of_nat_eq_iff)

lemma format_digits_ok:
  assumes "0 \<le> i"
  shows "CHR ''-'' \<notin> set (format_int i)" and "\<not> space_start (hd (format_int i))"
    and "\<not> space_start (last (format_int i))"
proof -
  have dig: "digit_val c \<noteq> None" if "c \<in> set (format_int i)" for c
    using that assms nat_digits_all [of c "nat i"] by (simp add: format_int_def)
  then show "CHR ''-'' \<notin> set (format_int i)" by force
  show "\<not> space_start (hd (format_int i))" "\<not> space_start (last (format_int i))"
    by (simp_all add: dig space_start_digit)
qed

lemma parse_format_port: "1 \<le> i \<Longrightarrow> i \<le> 65535 \<Longrightarrow> parse_int (format_int i) = Some i"
  by (simp add: parse_format_int)

lemma expand_done:
  assumes "parse_port_range (pc_local_port p) = Inr l" and "parse_port_range (pc_remote_port p) = Inr r"
    and "count l = count r"
  shows "\<exists>eps. expand p = Done (Inr eps) \<and> int (length eps) = count l
    \<and> (\<forall>i < length eps.
         ep_local_port (eps ! i) = pr_start l + int i \<and> ep_remote_port (eps ! i) = pr_start r + int i
         \<and> ep_type (eps ! i) = pc_type p \<and> ep_local_addr (eps ! i) = pc_local_addr p
         \<and> ep_name (eps ! i) =
             (if length eps > 1 then pc_name p @ ''_'' @ format_int (int i) else pc_name p))"
proof -
  note valid = assms(1,2) [THEN parse_port_range_valid]
  note len = same_count [OF valid assms(3)]
  have nth: "[a..b] ! i = a + int i" if "i < length [a..b]" for a b i
    using that by (simp add: nth_upto)
  show ?thesis
    using assms valid len nth [of _ "pr_start l" "pr_end l"] nth [of _ "pr_start r" "pr_end r"]
    by (simp add: expand_def ports_valid count_valid del: length_upto)
qed

lemma expand_Inr:
  assumes "expand p = Done (Inr eps)"
  shows "\<exists>l r. parse_port_range (pc_local_port p) = Inr l \<and> parse_port_range (pc_remote_port p) = Inr r
           \<and> count l = count r"
  using assms by (auto simp: expand_def split: sum.splits outcome.splits if_splits)

lemma expand_failed:
  assumes "\<not> (\<exists>l r. parse_port_range (pc_local_port p) = Inr l
    \<and> parse_port_range (pc_remote_port p) = Inr r \<and> count l = count r)"
  shows "\<exists>why. expand p = Done (Inl (ErrText (''proxy '' @ pc_name p @ '': '' @ why)))"
proof (cases "parse_port_range (pc_local_port p)")
  case (Inl e)
  then have "expand p = Done (Inl (ErrText
      (''proxy '' @ pc_name p @ '': '' @ ''invalid local_port: '' @ error_text e)))"
    by (simp add: expand_def)
  then show ?thesis by blast
next
  case l: (Inr l)
  show ?thesis
  proof (cases "parse_port_range (pc_remote_port p)")
    case (Inl e)
    with l have "expand p = Done (Inl (ErrText
        (''proxy '' @ pc_name p @ '': '' @ ''invalid remote_port: '' @ error_text e)))"
      by (simp add: expand_def)
    then show ?thesis by blast
  next
    case (Inr r)
    with l assms have "expand p = Done (Inl (ErrText (''proxy '' @ pc_name p @ '': ''
        @ ''local_port and remote_port range count mismatch ('' @ format_int (count l)
        @ '' vs '' @ format_int (count r) @ '')'')))"
      by (simp add: expand_def)
    then show ?thesis by blast
  qed
qed

lemma finish_server_config_ok:
  assumes "finish_server_config s0 = Inr s"
  shows "sc_transport s \<noteq> [] \<and> sc_crypto s \<noteq> []
    \<and> (sc_mtmux_enabled s \<longrightarrow>
         1 \<le> sc_mtmux_tunnels s \<and> sc_mtmux_tunnels s \<le> 32 \<and> sc_transport s \<noteq> ''quic'')"
proof -
  define d1 where "d1 = (if sc_transport s0 = [] then s0\<lparr>sc_transport := ''net''\<rparr> else s0)"
  define d2 where "d2 = (if sc_crypto d1 = [] then d1\<lparr>sc_crypto := ''tls''\<rparr> else d1)"
  define d3 where "d3 = (if sc_mtmux_tunnels d2 \<le> 0 then d2\<lparr>sc_mtmux_tunnels := 8\<rparr> else d2)"
  have d2: "sc_transport d2 \<noteq> []" "sc_crypto d2 \<noteq> []"
    by (simp_all add: d1_def d2_def)
  have d3: "sc_transport d3 = sc_transport d2" "sc_crypto d3 = sc_crypto d2" "1 \<le> sc_mtmux_tunnels d3"
    "sc_mtmux_enabled d3 = sc_mtmux_enabled d2"
    by (simp_all add: d3_def)
  from assms consider "\<not> sc_mtmux_enabled d2" "s = d2"
    | "\<not> sc_mtmux_tunnels d3 > 32" "sc_transport d3 \<noteq> ''quic''" "s = d3"
    unfolding finish_server_config_def Let_def d1_def [symmetric] d2_def [symmetric] d3_def [symmetric]
    by (simp only: split: if_splits; simp)
  then show ?thesis by cases (use d2 d3 in simp_all)
qed

lemma finish_server_config_stable:
  "sc_transport s \<noteq> [] \<and> sc_crypto s \<noteq> []
    \<and> (sc_mtmux_enabled s \<longrightarrow>
         1 \<le> sc_mtmux_tunnels s \<and> sc_mtmux_tunnels s \<le> 32 \<and> sc_transport s \<noteq> ''quic'')
   \<Longrightarrow> finish_server_config s = Inr s"
  by (auto simp: finish_server_config_def)

lemma finish_client_config_ok:
  assumes "finish_client_config c0 = Inr c"
  shows "cc_transport c \<noteq> [] \<and> cc_crypto c \<noteq> []
    \<and> (cc_mtmux_enabled c \<longrightarrow>
         1 \<le> cc_mtmux_tunnels c \<and> cc_mtmux_tunnels c \<le> 32 \<and> cc_transport c \<noteq> ''quic'')"
proof -
  define d1 where "d1 = (if cc_transport c0 = [] then c0\<lparr>cc_transport := ''net''\<rparr> else c0)"
  define d2 where "d2 = (if cc_crypto d1 = [] then d1\<lparr>cc_crypto := ''tls''\<rparr> else d1)"
  define d3 where "d3 = (if cc_mtmux_tunnels d2 \<le> 0 then d2\<lparr>cc_mtmux_tunnels := 8\<rparr> else d2)"
  have d2: "cc_transport d2 \<noteq> []" "cc_crypto d2 \<noteq> []"
    by (simp_all add: d1_def d2_def)
  have d3: "cc_transport d3 = cc_transport d2" "cc_crypto d3 = cc_crypto d2" "1 \<le> cc_mtmux_tunnels d3"
    "cc_mtmux_enabled d3 = cc_mtmux_enabled d2"
    by (simp_all add: d3_def)
  from assms consider "\<not> cc_mtmux_enabled d2" "c = d2"
    | "\<not> cc_mtmux_tunnels d3 > 32" "cc_transport d3 \<noteq> ''quic''" "c = d3"
    unfolding finish_client_config_def Let_def d1_def [symmetric] d2_def [symmetric] d3_def [symmetric]
    by (simp only: split: if_splits; simp)
  then show ?thesis by cases (use d2 d3 in simp_all)
qed

lemma finish_client_config_stable:
  "cc_transport c \<noteq> [] \<and> cc_crypto c \<noteq> []
    \<and> (cc_mtmux_enabled c \<longrightarrow>
         1 \<le> cc_mtmux_tunnels c \<and> cc_mtmux_tunnels c \<le> 32 \<and> cc_transport c \<noteq> ''quic'')
   \<Longrightarrow> finish_client_config c = Inr c"
  by (auto simp: finish_client_config_def)

lemma expanded_names_inj:
  "n @ ''_'' @ format_int (int i) = n @ ''_'' @ format_int (int j) \<longleftrightarrow> i = j"
  by (simp add: format_int_inj)

section \<open>Properties\<close>

text \<open>
  C25: \<open>ParsePortRange\<close> accepts exactly the strings that, trimmed, are one decimal number or two
  separated by a single dash (spelt as \<open>strconv.Atoi\<close> accepts them, so also with a plus sign), each within
  1 to 65535 and the first not above the second, and it returns exactly the range written (a valid one, so \<open>Count\<close> is positive and \<open>Ports\<close> lists
  the ports from the first to the last).
\<close>

theorem parse_port_range_iff:
  "(parse_port_range s = Inr r \<longleftrightarrow> denotes (trim_space s) r)
   \<and> (\<not> denotes (trim_space s) r \<or>
        (valid_range r \<and> ports r = Done [pr_start r..pr_end r]
          \<and> count r = int (length [pr_start r..pr_end r])))"
  using parse_port_range_denotes denotes_parse_port_range
    denotes_valid [of "trim_space s" r] ports_valid [of r] count_valid [of r]
  by blast

theorem parse_port_range_iff_witness:
  "denotes (trim_space '' 8000-8010 '') \<lparr>pr_start = 8000, pr_end = 8010\<rparr>
   \<and> ports \<lparr>pr_start = 8000, pr_end = 8010\<rparr> = Done [8000..8010]"
proof -
  have "parse_port_range '' 8000-8010 '' = Inr \<lparr>pr_start = 8000, pr_end = 8010\<rparr>"
    by code_simp
  then show ?thesis
    using parse_port_range_iff [of "'' 8000-8010 ''" "\<lparr>pr_start = 8000, pr_end = 8010\<rparr>"]
    by (simp only: port_range.simps simp_thms)
qed

text \<open>
  Printing and parsing are inverse: every port and every range of ports, written in decimal
  as the configuration writes them, is read back as itself.
\<close>

theorem parse_printed_range:
  assumes "1 \<le> a" and "a \<le> b" and "b \<le> 65535"
  shows "parse_port_range (format_int a) = Inr \<lparr>pr_start = a, pr_end = a\<rparr>
    \<and> parse_port_range (format_int a @ ''-'' @ format_int b) = Inr \<lparr>pr_start = a, pr_end = b\<rparr>"
proof
  let ?s = "format_int a @ ''-'' @ format_int b"
  from assms have pos: "0 \<le> a" "0 \<le> b" by simp_all
  have "trim_space (format_int a) = format_int a"
    using pos by (simp add: trim_space_id format_digits_ok)
  moreover have "denotes (format_int a) \<lparr>pr_start = a, pr_end = a\<rparr>"
    using assms pos by (intro denotes.single) (simp_all add: format_digits_ok parse_format_port)
  ultimately show "parse_port_range (format_int a) = Inr \<lparr>pr_start = a, pr_end = a\<rparr>"
    by (simp add: denotes_parse_port_range)
  have "trim_space ?s = ?s"
    using pos by (intro trim_space_id) (simp_all add: format_digits_ok)
  moreover have "denotes ?s \<lparr>pr_start = a, pr_end = b\<rparr>"
    using assms pos by (intro denotes.pair) (simp_all add: format_digits_ok parse_format_port)
  ultimately show "parse_port_range ?s = Inr \<lparr>pr_start = a, pr_end = b\<rparr>"
    by (simp add: denotes_parse_port_range)
qed

theorem parse_printed_range_witness:
  "parse_port_range (format_int 6000 @ ''-'' @ format_int 6010)
     = Inr \<lparr>pr_start = 6000, pr_end = 6010\<rparr>"
  using parse_printed_range [of 6000 6010] by simp

text \<open>
  C24: A successful \<open>Expand\<close> pairs the ports of the two ranges in order: it returns one proxy per
  port, the i-th from local port start+i to remote port start+i with the type and address of the
  configuration, under pairwise different names and remote ports.
\<close>

theorem expand_pairs_ports:
  assumes "expand p = Done (Inr eps)"
  shows "\<exists>l r. parse_port_range (pc_local_port p) = Inr l \<and> parse_port_range (pc_remote_port p) = Inr r
    \<and> map ep_local_port eps = [pr_start l..pr_end l]
    \<and> map ep_remote_port eps = [pr_start r..pr_end r]
    \<and> distinct (map ep_name eps) \<and> eps \<noteq> []
    \<and> (length eps = 1 \<longrightarrow> ep_name (hd eps) = pc_name p)"
proof -
  from expand_Inr [OF assms] obtain l r where
    lr: "parse_port_range (pc_local_port p) = Inr l" "parse_port_range (pc_remote_port p) = Inr r"
    "count l = count r" by blast
  note valid = lr(1,2) [THEN parse_port_range_valid]
  from expand_done [OF lr] assms have len: "int (length eps) = count l"
    and nth: "\<And>i. i < length eps \<Longrightarrow> ep_local_port (eps ! i) = pr_start l + int i
         \<and> ep_remote_port (eps ! i) = pr_start r + int i
         \<and> ep_name (eps ! i) =
             (if length eps > 1 then pc_name p @ ''_'' @ format_int (int i) else pc_name p)"
    by auto
  from len count_valid [OF valid(1)] same_count [OF valid lr(3)]
  have "length eps = length [pr_start l..pr_end l]" "length eps = length [pr_start r..pr_end r]"
    by (simp_all only: of_nat_eq_iff)
  with nth have "map ep_local_port eps = [pr_start l..pr_end l]"
    "map ep_remote_port eps = [pr_start r..pr_end r]"
    by (auto intro!: nth_equalityI simp: nth_upto)
  moreover have "distinct (map ep_name eps)"
    using nth by (auto simp: distinct_conv_nth format_int_inj)
  moreover from len valid(1) have "eps \<noteq> []"
    by (auto simp: count_def valid_range_def)
  moreover have "length eps = 1 \<longrightarrow> ep_name (hd eps) = pc_name p"
    using nth [of 0] by (auto simp: hd_conv_nth \<open>eps \<noteq> []\<close>)
  ultimately show ?thesis using lr(1,2) by blast
qed

theorem expand_pairs_ports_witness:
  "\<exists>eps. expand \<lparr>pc_name = ''web'', pc_type = ''tcp'', pc_local_addr = ''127.0.0.1'',
                 pc_local_port = ''8000-8002'', pc_remote_port = ''6000-6002''\<rparr> = Done (Inr eps)
     \<and> map ep_local_port eps = [8000..8002] \<and> distinct (map ep_name eps)"
proof -
  let ?p = "\<lparr>pc_name = ''web'', pc_type = ''tcp'', pc_local_addr = ''127.0.0.1'',
             pc_local_port = ''8000-8002'', pc_remote_port = ''6000-6002''\<rparr>"
  have l: "parse_port_range (pc_local_port ?p) = Inr \<lparr>pr_start = 8000, pr_end = 8002\<rparr>"
    and r: "parse_port_range (pc_remote_port ?p) = Inr \<lparr>pr_start = 6000, pr_end = 6002\<rparr>"
    by code_simp+
  from expand_done [OF l r] obtain eps where eps: "expand ?p = Done (Inr eps)"
    by (auto simp: count_def)
  from expand_pairs_ports [OF eps] obtain l' where
    "parse_port_range (pc_local_port ?p) = Inr l'"
    "map ep_local_port eps = [pr_start l'..pr_end l']" "distinct (map ep_name eps)"
    by blast
  with l have "map ep_local_port eps = [8000..8002] \<and> distinct (map ep_name eps)"
    by (simp only: sum.inject port_range.simps simp_thms)
  with eps show ?thesis by blast
qed

text \<open>
  \<open>Expand\<close> never panics and fails exactly when a range does not parse or the two ranges have
  different lengths; the error names the proxy.
\<close>

theorem expand_total:
  "(\<exists>eps. expand p = Done (Inr eps)) \<noteq>
     (\<exists>why. expand p = Done (Inl (ErrText (''proxy '' @ pc_name p @ '': '' @ why))))
   \<and> ((\<exists>eps. expand p = Done (Inr eps)) \<longleftrightarrow>
         (\<exists>l r. parse_port_range (pc_local_port p) = Inr l \<and> parse_port_range (pc_remote_port p) = Inr r
            \<and> count l = count r))"
proof (cases "\<exists>l r. parse_port_range (pc_local_port p) = Inr l \<and> parse_port_range (pc_remote_port p) = Inr r
            \<and> count l = count r")
  case True
  then obtain eps where "expand p = Done (Inr eps)" using expand_done by blast
  with True show ?thesis by simp
next
  case False
  with expand_failed obtain why where
    "expand p = Done (Inl (ErrText (''proxy '' @ pc_name p @ '': '' @ why)))" by blast
  with False show ?thesis by simp
qed

text \<open>
  A configuration that loads has a transport and a crypto layer, and when the multi-tunnel
  mode is on, between 1 and 32 tunnels over a transport other than QUIC; loading is stable, a
  loaded configuration passes the same checks unchanged.
\<close>

theorem loaded_configs_valid:
  assumes "load_server_config read_file unmarshal_s path = Inr s"
    and "load_client_config read_file unmarshal_c path' = Inr c"
  shows "sc_transport s \<noteq> [] \<and> sc_crypto s \<noteq> []
    \<and> (sc_mtmux_enabled s \<longrightarrow> 1 \<le> sc_mtmux_tunnels s \<and> sc_mtmux_tunnels s \<le> 32 \<and> sc_transport s \<noteq> ''quic'')
    \<and> finish_server_config s = Inr s
    \<and> cc_transport c \<noteq> [] \<and> cc_crypto c \<noteq> []
    \<and> (cc_mtmux_enabled c \<longrightarrow> 1 \<le> cc_mtmux_tunnels c \<and> cc_mtmux_tunnels c \<le> 32 \<and> cc_transport c \<noteq> ''quic'')
    \<and> finish_client_config c = Inr c"
proof -
  from assms obtain s0 c0 where "finish_server_config s0 = Inr s" "finish_client_config c0 = Inr c"
    by (auto simp: load_server_config_def load_client_config_def split: sum.splits)
  then show ?thesis
    using finish_server_config_ok finish_server_config_stable
      finish_client_config_ok finish_client_config_stable by blast
qed

theorem loaded_configs_valid_witness:
  "\<exists>s c. load_server_config (\<lambda>_. Inr []) (\<lambda>_. Inr
       \<lparr>sc_bind_addr = ''0.0.0.0:7000'', sc_dashboard_addr = [], sc_transport = [], sc_crypto = [],
        sc_tls_cert_file = [], sc_tls_key_file = [], sc_chacha20_psk = [], sc_quic_cert_file = [],
        sc_quic_key_file = [], sc_auth_tokens = [''secret-token''], sc_mtmux_enabled = True,
        sc_mtmux_tunnels = 0\<rparr>) ''server.yaml'' = Inr s \<and> sc_mtmux_tunnels s \<le> 32
   \<and> load_client_config (\<lambda>_. Inr []) (\<lambda>_. Inr
       \<lparr>cc_server_addr = ''127.0.0.1:7000'', cc_transport = ''quic'', cc_crypto = ''none'',
        cc_token = ''secret-token'', cc_tls_ca_cert = [], cc_tls_skip_verify = False,
        cc_chacha20_psk = [], cc_quic_skip_verify = True, cc_mtmux_enabled = False,
        cc_mtmux_tunnels = 99, cc_proxies = []\<rparr>) ''client.yaml'' = Inr c \<and> cc_crypto c \<noteq> []"
proof -
  let ?s = "\<lparr>sc_bind_addr = ''0.0.0.0:7000'', sc_dashboard_addr = [], sc_transport = [], sc_crypto = [],
        sc_tls_cert_file = [], sc_tls_key_file = [], sc_chacha20_psk = [], sc_quic_cert_file = [],
        sc_quic_key_file = [], sc_auth_tokens = [''secret-token''], sc_mtmux_enabled = True,
        sc_mtmux_tunnels = 0\<rparr>"
  let ?c = "\<lparr>cc_server_addr = ''127.0.0.1:7000'', cc_transport = ''quic'', cc_crypto = ''none'',
        cc_token = ''secret-token'', cc_tls_ca_cert = [], cc_tls_skip_verify = False,
        cc_chacha20_psk = [], cc_quic_skip_verify = True, cc_mtmux_enabled = False,
        cc_mtmux_tunnels = 99, cc_proxies = []\<rparr>"
  have s: "load_server_config (\<lambda>_. Inr []) (\<lambda>_. Inr ?s) ''server.yaml''
      = Inr (?s\<lparr>sc_transport := ''net'', sc_crypto := ''tls'', sc_mtmux_tunnels := 8\<rparr>)"
    and c: "load_client_config (\<lambda>_. Inr []) (\<lambda>_. Inr ?c) ''client.yaml'' = Inr ?c"
    by (simp_all add: load_server_config_def finish_server_config_def load_client_config_def
        finish_client_config_def)
  from s c loaded_configs_valid [OF s c] show ?thesis by simp
qed

end
