(* ===== verification/Auth.thy ===== *)
theory Auth
  imports Go_Std
begin

text \<open>
  pkg/auth: token authentication with a time window and a nonce cache. A clock reading
  (\<open>time.Now()\<close>) is a number of nanoseconds since the epoch and an argument; \<open>Verify\<close> reads
  the clock twice, once for the window and once when it records the nonce. The MAC
  (HMAC-SHA256) is the parameter \<open>hm\<close>, a function of key and data. The \<open>int64\<close> arithmetic of
  the window check is on 64-bit words, because its wrap-around can be reached.
\<close>

section \<open>Nonce cache\<close>

definition second :: int where "second = 1000000000"

definition NonceExpiry :: int where "NonceExpiry = 5 * 60 * second"
definition MaxTimeDiff :: int where "MaxTimeDiff = 5 * 60 * second"

definition unix :: "int \<Rightarrow> int64" where
  "unix now = word_of_int (now div second)"

record nonce_cache =
  nc_cache :: "(string \<times> int) list"
  nc_expiry :: int

definition new_nonce_cache :: "int \<Rightarrow> nonce_cache" where
  "new_nonce_cache expiry = \<lparr>nc_cache = [], nc_expiry = expiry\<rparr>"

definition nc_add :: "string \<Rightarrow> int \<Rightarrow> nonce_cache \<Rightarrow> nonce_cache" where
  "nc_add nonce now nc = nc\<lparr>nc_cache := AList.update nonce now (nc_cache nc)\<rparr>"

definition nc_exists :: "string \<Rightarrow> nonce_cache \<Rightarrow> bool" where
  "nc_exists nonce nc \<longleftrightarrow> map_of (nc_cache nc) nonce \<noteq> None"

text \<open>One tick of the cleanup goroutine: the loop over the map deletes the expired entries.\<close>

fun sweep_loop :: "int \<Rightarrow> int \<Rightarrow> (string \<times> int) list \<Rightarrow> (string \<times> int) list \<Rightarrow> (string \<times> int) list" where
  "sweep_loop now expiry [] cache = cache"
| "sweep_loop now expiry ((nonce, t) # rest) cache =
     sweep_loop now expiry rest (if now - t > expiry then AList.delete nonce cache else cache)"

definition nc_sweep :: "int \<Rightarrow> nonce_cache \<Rightarrow> nonce_cache" where
  "nc_sweep now nc = nc\<lparr>nc_cache := sweep_loop now (nc_expiry nc) (nc_cache nc) (nc_cache nc)\<rparr>"

definition nc_wf :: "nonce_cache \<Rightarrow> bool" where
  "nc_wf nc \<longleftrightarrow> distinct (map fst (nc_cache nc))"

text \<open>
  The contract the authenticator relies on: a nonce is there once added, other operations leave it
  alone, and only a sweep more than \<open>expiry\<close> later drops it.
\<close>

locale nonce_store =
  fixes wf :: "'s \<Rightarrow> bool"
    and seen :: "'s \<Rightarrow> string \<Rightarrow> int option"
    and expiry :: "'s \<Rightarrow> int"
    and ex :: "string \<Rightarrow> 's \<Rightarrow> bool"
    and add :: "string \<Rightarrow> int \<Rightarrow> 's \<Rightarrow> 's"
    and sweep :: "int \<Rightarrow> 's \<Rightarrow> 's"
  assumes ex_iff: "ex n s \<longleftrightarrow> seen s n \<noteq> None"
    and seen_add: "seen (add n t s) = (seen s)(n \<mapsto> t)"
    and seen_sweep: "wf s \<Longrightarrow> seen (sweep t s) n =
           (case seen s n of None \<Rightarrow> None | Some u \<Rightarrow> if t - u > expiry s then None else Some u)"
    and wf_add: "wf s \<Longrightarrow> wf (add n t s)" and wf_sweep: "wf s \<Longrightarrow> wf (sweep t s)"
    and expiry_add: "expiry (add n t s) = expiry s" and expiry_sweep: "expiry (sweep t s) = expiry s"
begin

text \<open>A nonce recorded at or after time \<open>u\<close>.\<close>

definition holds_since :: "string \<Rightarrow> int \<Rightarrow> 's \<Rightarrow> bool" where
  "holds_since n u s \<longleftrightarrow> (\<exists>v \<ge> u. seen s n = Some v)"

lemma holds_since_ex: "holds_since n u s \<Longrightarrow> ex n s"
  by (auto simp: holds_since_def ex_iff)

lemma holds_since_add_same: "u \<le> t \<Longrightarrow> holds_since n u (add n t s)"
  by (simp add: holds_since_def seen_add)

lemma holds_since_add: "holds_since n u s \<Longrightarrow> u \<le> t \<Longrightarrow> holds_since n u (add m t s)"
  by (auto simp: holds_since_def seen_add)

lemma holds_since_sweep:
  "wf s \<Longrightarrow> holds_since n u s \<Longrightarrow> t \<le> u + expiry s \<Longrightarrow> holds_since n u (sweep t s)"
  by (auto simp: holds_since_def seen_sweep)

lemma sweep_forgets: "wf s \<Longrightarrow> seen s n = Some u \<Longrightarrow> u + expiry s < t \<Longrightarrow> \<not> ex n (sweep t s)"
  by (simp add: ex_iff seen_sweep)

end

lemma sweep_loop_lookup:
  "map_of (sweep_loop now e entries cache) n =
     (if \<exists>t. (n, t) \<in> set entries \<and> now - t > e then None else map_of cache n)"
  by (induction now e entries cache rule: sweep_loop.induct) auto

lemma sweep_loop_distinct:
  "distinct (map fst cache) \<Longrightarrow> distinct (map fst (sweep_loop now e entries cache))"
  by (induction now e entries cache rule: sweep_loop.induct) auto

interpretation cache: nonce_store nc_wf "\<lambda>nc. map_of (nc_cache nc)" nc_expiry nc_exists nc_add nc_sweep
proof unfold_locales
  fix s t n
  assume wf: "nc_wf s"
  then have "(n, v) \<in> set (nc_cache s) \<longleftrightarrow> map_of (nc_cache s) n = Some v" for v
    by (simp add: nc_wf_def map_of_eq_Some_iff)
  then show "map_of (nc_cache (nc_sweep t s)) n =
      (case map_of (nc_cache s) n of None \<Rightarrow> None
       | Some u \<Rightarrow> if t - u > nc_expiry s then None else Some u)"
    by (auto simp: nc_sweep_def sweep_loop_lookup split: option.splits)
qed (simp_all add: nc_exists_def nc_add_def nc_sweep_def nc_wf_def sweep_loop_distinct
      distinct_update)

section \<open>Authenticator\<close>

record authenticator =
  au_tokens :: "string \<rightharpoonup> bool"
  au_cache :: nonce_cache

definition new_authenticator :: "string list \<Rightarrow> authenticator" where
  "new_authenticator tokens =
     \<lparr>au_tokens = fold (\<lambda>t m. m(t \<mapsto> True)) tokens Map.empty,
      au_cache = new_nonce_cache NonceExpiry\<rparr>"

definition abs64 :: "int64 \<Rightarrow> int64" where
  "abs64 x = (if x <s 0 then - x else x)"

definition sign :: "(bytes \<Rightarrow> bytes \<Rightarrow> bytes) \<Rightarrow> string \<Rightarrow> string \<Rightarrow> string \<Rightarrow> string" where
  "sign hm token timestamp nonce =
     (let data = token @ timestamp @ nonce in hex_encode (hm (str_bytes token) (str_bytes data)))"

definition generate_nonce :: "bytes \<Rightarrow> string" where
  "generate_nonce rnd = hex_encode (take 16 rnd)"

text \<open>
  \<open>Verify\<close> holds only the read lock of the authenticator, which other calls can hold at the
  same time, and the nonce cache is locked separately for \<open>Exists\<close> and for \<open>Add\<close>. So the
  call is two atomic parts: the checks up to \<open>Exists\<close>, and the recording of the nonce with the
  comparison of the signature.
\<close>

definition verify_check :: "int \<Rightarrow> authenticator \<Rightarrow> string \<Rightarrow> string \<Rightarrow> string \<Rightarrow> bool" where
  "verify_check now a token timestamp nonce =
     (if au_tokens a token \<noteq> Some True then False
      else
        (case parse_int timestamp of
           None \<Rightarrow> False
         | Some ts \<Rightarrow>
             if word_of_int (MaxTimeDiff div second) <s abs64 (unix now - word_of_int ts) then False
             else if nc_exists nonce (au_cache a) then False
             else True))"

definition verify_commit ::
  "(bytes \<Rightarrow> bytes \<Rightarrow> bytes) \<Rightarrow> int \<Rightarrow> authenticator \<Rightarrow> string \<Rightarrow> string \<Rightarrow> string \<Rightarrow> string
     \<Rightarrow> bool \<times> authenticator" where
  "verify_commit hm now a token timestamp nonce sg =
     (let a' = a\<lparr>au_cache := nc_add nonce now (au_cache a)\<rparr>;
          expected_sign = sign hm token timestamp nonce
      in (str_bytes sg = str_bytes expected_sign, a'))"

definition verify ::
  "(bytes \<Rightarrow> bytes \<Rightarrow> bytes) \<Rightarrow> int \<times> int \<Rightarrow> authenticator \<Rightarrow> string \<Rightarrow> string \<Rightarrow> string \<Rightarrow> string
     \<Rightarrow> bool \<times> authenticator" where
  "verify hm now a token timestamp nonce sg =
     (if verify_check (fst now) a token timestamp nonce
      then verify_commit hm (snd now) a token timestamp nonce sg
      else (False, a))"

section \<open>The window check\<close>

lemma sint_small: "- (2 ^ 63) \<le> i \<Longrightarrow> i < 2 ^ 63 \<Longrightarrow> sint (word_of_int i :: int64) = i"
  by (simp add: sint_sbintrunc' signed_take_bit_int_eq_self)

lemma word_wrap64: "(word_of_int d :: int64) = word_of_int (d - 2 ^ 64)"
  by (simp add: word_of_int_eq_iff take_bit_eq_mod)

lemma abs64_small:
  assumes "- (2 ^ 63) < d" and "d < 2 ^ 63"
  shows "sint (abs64 (word_of_int d)) = \<bar>d\<bar>"
proof -
  have "sint (- word_of_int d :: int64) = - d"
    using assms sint_small [of "- d"] by (simp only: wi_hom_neg)
  with assms show ?thesis by (auto simp: abs64_def word_sless_alt sint_small)
qed

lemma abs64_min: "sint (abs64 (word_of_int (- (2 ^ 63)))) = - (2 ^ 63)"
  by (simp add: abs64_def)

text \<open>
  The check of the time window on machine integers: within five minutes, or off by exactly
  \<open>2 ^ 63\<close> seconds, where the difference is the one number whose negation overflows.
\<close>

definition valid_clock :: "int \<Rightarrow> bool" where
  "valid_clock now \<longleftrightarrow> 0 \<le> now \<and> now < 2 ^ 63"

definition in_window :: "int \<Rightarrow> int \<Rightarrow> bool" where
  "in_window now ts \<longleftrightarrow> \<bar>now div second - ts\<bar> \<le> 300 \<or> ts = now div second - 2 ^ 63"

lemma window_check:
  assumes "valid_clock now" and "- (2 ^ 63) \<le> ts" and "ts < 2 ^ 63"
  shows "\<not> (word_of_int (MaxTimeDiff div second) <s abs64 (unix now - word_of_int ts))
           \<longleftrightarrow> in_window now ts"
proof -
  let ?u = "now div second"
  let ?d = "?u - ts"
  have diff: "unix now - word_of_int ts = word_of_int ?d"
    by (simp add: unix_def)
  have max: "MaxTimeDiff div second = 300"
    by (simp add: MaxTimeDiff_def second_def)
  from assms(1) have u: "0 \<le> ?u" "?u < 2 ^ 63 - 301"
    by (auto simp: valid_clock_def second_def)
  consider "?d < 2 ^ 63" | "?d = 2 ^ 63" | "2 ^ 63 < ?d" by linarith
  then show ?thesis
  proof cases
    case 1
    moreover from u assms(3) have "- (2 ^ 63) < ?d" by simp
    ultimately have "sint (abs64 (unix now - word_of_int ts)) = \<bar>?d\<bar>"
      by (simp only: diff abs64_small)
    with 1 show ?thesis
      by (simp only: word_sless_alt max in_window_def) (simp, linarith)
  next
    case 2
    then have "unix now - word_of_int ts = word_of_int (- (2 ^ 63))"
      using diff word_wrap64 [of ?d] by (simp add: 2 del: of_int_diff)
    with 2 show ?thesis
      by (simp only: word_sless_alt max abs64_min in_window_def) simp
  next
    case 3
    with u assms(2) have lo: "- (2 ^ 63) < ?d - 2 ^ 64" and hi: "?d - 2 ^ 64 < - 300" by simp_all
    then have "sint (abs64 (unix now - word_of_int ts)) = \<bar>?d - 2 ^ 64\<bar>"
      using abs64_small [of "?d - 2 ^ 64"] by (simp only: diff word_wrap64 [of ?d])
    with 3 hi show ?thesis
      by (simp only: word_sless_alt max in_window_def) simp
  qed
qed

section \<open>What \<open>Verify\<close> accepts\<close>

lemma verify_check_iff:
  assumes "valid_clock now"
  shows "verify_check now a token timestamp nonce \<longleftrightarrow>
    au_tokens a token = Some True \<and> \<not> nc_exists nonce (au_cache a)
    \<and> (\<exists>ts. parse_int timestamp = Some ts \<and> in_window now ts)"
  using window_check [OF assms] parse_int_range [of timestamp]
  by (auto simp: verify_check_def split: option.splits)

lemma new_authenticator_token:
  "au_tokens (new_authenticator tokens) t = Some True \<longleftrightarrow> t \<in> set tokens"
proof -
  have "fold (\<lambda>t m. m(t \<mapsto> True)) tokens m t = Some True \<longleftrightarrow> t \<in> set tokens \<or> m t = Some True"
    for m :: "string \<rightharpoonup> bool"
    by (induction tokens arbitrary: m) auto
  then show ?thesis by (simp add: new_authenticator_def)
qed

section \<open>Runs of the authenticator\<close>

text \<open>
  What happens to an authenticator over time: \<open>Verify\<close> calls of any clients and ticks of the
  cleanup goroutine, each with its clock readings.
\<close>

datatype auth_event =
    EVerify "int \<times> int" string string string string
  | ESweep int

fun auth_step :: "(bytes \<Rightarrow> bytes \<Rightarrow> bytes) \<Rightarrow> authenticator \<Rightarrow> auth_event \<Rightarrow> authenticator" where
  "auth_step hm a (EVerify now token timestamp nonce sg) =
     snd (verify hm now a token timestamp nonce sg)"
| "auth_step hm a (ESweep now) = a\<lparr>au_cache := nc_sweep now (au_cache a)\<rparr>"

definition auth_run :: "(bytes \<Rightarrow> bytes \<Rightarrow> bytes) \<Rightarrow> authenticator \<Rightarrow> auth_event list \<Rightarrow> authenticator" where
  "auth_run hm a es = foldl (auth_step hm) a es"

fun event_times :: "auth_event \<Rightarrow> int set" where
  "event_times (EVerify now _ _ _ _) = {fst now, snd now}"
| "event_times (ESweep now) = {now}"

definition auth_wf :: "authenticator \<Rightarrow> bool" where
  "auth_wf a \<longleftrightarrow> nc_wf (au_cache a) \<and> nc_expiry (au_cache a) = NonceExpiry"

lemma auth_wf_new: "auth_wf (new_authenticator tokens)"
  by (simp add: auth_wf_def new_authenticator_def new_nonce_cache_def nc_wf_def)

lemma verify_commit_cache:
  "au_cache (snd (verify_commit hm now a token ts nonce sg)) = nc_add nonce now (au_cache a)"
  by (simp add: verify_commit_def Let_def)

lemma verify_commit_wf: "auth_wf a \<Longrightarrow> auth_wf (snd (verify_commit hm now a token ts nonce sg))"
  by (simp add: auth_wf_def verify_commit_cache cache.wf_add cache.expiry_add)

lemma auth_step_wf: "auth_wf a \<Longrightarrow> auth_wf (auth_step hm a e)"
proof (cases e)
  case (EVerify now token ts m sg)
  moreover assume "auth_wf a"
  ultimately show ?thesis by (simp add: verify_def verify_commit_wf)
next
  case (ESweep now)
  moreover assume "auth_wf a"
  ultimately show ?thesis by (simp add: auth_wf_def cache.wf_sweep cache.expiry_sweep)
qed

lemma auth_step_tokens [simp]: "au_tokens (auth_step hm a e) = au_tokens a"
  by (cases e) (simp_all add: verify_def verify_commit_def Let_def)

lemma auth_step_holds:
  assumes "auth_wf a" and "cache.holds_since nonce u (au_cache a)"
    and "\<forall>t \<in> event_times e. u \<le> t \<and> t \<le> u + NonceExpiry"
  shows "cache.holds_since nonce u (au_cache (auth_step hm a e))"
proof (cases e)
  case (EVerify now token ts m sg)
  with assms show ?thesis
    by (simp add: verify_def verify_commit_cache cache.holds_since_add)
next
  case (ESweep now)
  with assms show ?thesis
    by (simp add: auth_wf_def cache.holds_since_sweep)
qed

lemma auth_run_holds:
  assumes "auth_wf a" and "cache.holds_since nonce u (au_cache a)"
    and "\<forall>e \<in> set es. \<forall>t \<in> event_times e. u \<le> t \<and> t \<le> u + NonceExpiry"
  shows "cache.holds_since nonce u (au_cache (auth_run hm a es))"
  using assms
proof (induction es arbitrary: a)
  case Nil
  then show ?case by (simp add: auth_run_def)
next
  case (Cons e es)
  then show ?case
    using auth_step_holds [of a nonce u e hm] auth_step_wf [of a hm e]
    by (simp add: auth_run_def)
qed

lemma window_passed:
  assumes "valid_clock now" and "valid_clock later" and "now + NonceExpiry \<le> later"
    and "in_window now ts" and "ts < now div second"
  shows "\<not> in_window later ts"
proof -
  from assms(3) have "now div second + 300 \<le> later div second"
    using zdiv_mono1 [of "now + NonceExpiry" later second]
    by (simp add: NonceExpiry_def second_def)
  moreover from assms(1,2) have "now div second < 2 ^ 62" "later div second < 2 ^ 62"
    "0 \<le> now div second" "0 \<le> later div second"
    by (auto simp: valid_clock_def second_def)
  ultimately show ?thesis
    using assms(4,5) by (auto simp: in_window_def)
qed

section \<open>Concurrent calls\<close>

text \<open>
  Goroutines inside \<open>Verify\<close> with the same clock reading and one request each: a goroutine has
  not checked yet, has passed the checks, or has its answer.
\<close>

record verify_req =
  vq_token :: string
  vq_timestamp :: string
  vq_nonce :: string
  vq_sign :: string

datatype verify_pc = VStart | VChecked | VDone bool

inductive verify_step ::
  "(bytes \<Rightarrow> bytes \<Rightarrow> bytes) \<Rightarrow> int \<Rightarrow> (nat \<Rightarrow> verify_req)
     \<Rightarrow> authenticator \<times> (nat \<Rightarrow> verify_pc) \<Rightarrow> authenticator \<times> (nat \<Rightarrow> verify_pc) \<Rightarrow> bool"
  for hm now req where
  check: "pc i = VStart \<Longrightarrow>
     ok = verify_check now a (vq_token (req i)) (vq_timestamp (req i)) (vq_nonce (req i)) \<Longrightarrow>
     verify_step hm now req (a, pc) (a, pc(i := (if ok then VChecked else VDone False)))"
| commit: "pc i = VChecked \<Longrightarrow>
     verify_commit hm now a (vq_token (req i)) (vq_timestamp (req i)) (vq_nonce (req i)) (vq_sign (req i))
       = (ok, a') \<Longrightarrow>
     verify_step hm now req (a, pc) (a', pc(i := VDone ok))"

lemma verify_as_steps:
  assumes "pc i = VStart"
  shows "\<exists>pc'. (verify_step hm now req)\<^sup>*\<^sup>* (a, pc)
      (snd (verify hm (now, now) a (vq_token (req i)) (vq_timestamp (req i)) (vq_nonce (req i))
              (vq_sign (req i))), pc')
    \<and> pc' i = VDone (fst (verify hm (now, now) a (vq_token (req i)) (vq_timestamp (req i))
              (vq_nonce (req i)) (vq_sign (req i))))"
proof (cases "verify_check now a (vq_token (req i)) (vq_timestamp (req i)) (vq_nonce (req i))")
  case True
  let ?c = "verify_commit hm now a (vq_token (req i)) (vq_timestamp (req i)) (vq_nonce (req i))
              (vq_sign (req i))"
  have 1: "verify_step hm now req (a, pc) (a, pc(i := VChecked))"
    using verify_step.check [where pc = pc and i = i and ok = True and a = a] assms True by simp
  have "verify_step hm now req (a, pc(i := VChecked)) (snd ?c, (pc(i := VChecked))(i := VDone (fst ?c)))"
    by (rule verify_step.commit) simp_all
  with 1 True show ?thesis
    by (intro exI [of _ "(pc(i := VChecked))(i := VDone (fst ?c))"])
      (auto simp: verify_def intro: rtranclp.rtrancl_into_rtrancl)
next
  case False
  then have "verify_step hm now req (a, pc) (a, pc(i := VDone False))"
    using verify_step.check [where pc = pc and i = i and ok = False and a = a] assms by simp
  with False show ?thesis
    by (intro exI [of _ "pc(i := VDone False)"]) (auto simp: verify_def)
qed

section \<open>Properties\<close>

text \<open>
  C13: \<open>Verify\<close> returns true exactly for a configured token, a decimal timestamp in the window, a
  nonce not in the cache and the right signature; and it records the nonce as soon as the checks
  before the signature pass, so a wrong signature uses the nonce up. The window is five minutes
  either way, and, because the \<open>int64\<close> difference overflows in \<open>abs\<close>, also the one timestamp
  that lies exactly \<open>2 ^ 63\<close> seconds in the past.
\<close>

theorem verify_accepts_iff:
  assumes "valid_clock (fst now)"
  shows "(fst (verify hm now a token timestamp nonce sg) \<longleftrightarrow>
      au_tokens a token = Some True
      \<and> (\<exists>ts. parse_int timestamp = Some ts
           \<and> (\<bar>fst now div second - ts\<bar> \<le> 300 \<or> ts = fst now div second - 2 ^ 63))
      \<and> \<not> nc_exists nonce (au_cache a)
      \<and> sg = sign hm token timestamp nonce)
    \<and> au_cache (snd (verify hm now a token timestamp nonce sg)) =
        (if au_tokens a token = Some True
            \<and> (\<exists>ts. parse_int timestamp = Some ts
                 \<and> (\<bar>fst now div second - ts\<bar> \<le> 300 \<or> ts = fst now div second - 2 ^ 63))
            \<and> \<not> nc_exists nonce (au_cache a)
         then nc_add nonce (snd now) (au_cache a) else au_cache a)"
  using verify_check_iff [OF assms, of a token timestamp nonce]
  by (auto simp: verify_def verify_commit_def Let_def str_bytes_inj in_window_def)

theorem verify_accepts_iff_witness:
  "let hm = (\<lambda>k d. take 2 d); a = new_authenticator [''secret-token'']
   in fst (verify hm (5000 * second, 5000 * second) a ''secret-token'' ''5200'' ''n1''
             (sign hm ''secret-token'' ''5200'' ''n1''))"
proof -
  let ?hm = "\<lambda>k d. take 2 d" and ?a = "new_authenticator [''secret-token'']"
  have "valid_clock (fst (5000 * second, 5000 * second))" "5000 * second div second = 5000"
    by (simp_all add: valid_clock_def second_def)
  moreover have "parse_int ''5200'' = Some 5200"
    by code_simp
  moreover have "\<not> nc_exists ''n1'' (au_cache ?a)" "au_tokens ?a ''secret-token'' = Some True"
    by (simp_all add: new_authenticator_def new_nonce_cache_def nc_exists_def)
  ultimately show ?thesis
    using verify_accepts_iff [of "(5000 * second, 5000 * second)" ?hm ?a "''secret-token''" "''5200''"
        "''n1''" "sign ?hm ''secret-token'' ''5200'' ''n1''"]
    by (simp add: Let_def)
qed

text \<open>
  C14: No replay of a request whose timestamp is older than the server's clock: once such a request
  was accepted, every later \<open>Verify\<close> with the same timestamp and nonce is refused, whatever
  token and signature it carries and whatever verifications and cleanup ticks happened in between.
  While the nonce may not be dropped it is found in the cache; afterwards the timestamp has left
  the window.
\<close>

theorem replay_of_past_request_refused:
  assumes "auth_wf a" and "valid_clock (fst now)" and "valid_clock (fst later)"
    and "fst now \<le> snd now" and "snd now \<le> fst later"
    and "fst (verify hm now a token timestamp nonce sg)"
    and "\<forall>e \<in> set es. \<forall>t \<in> event_times e. snd now \<le> t \<and> t \<le> fst later"
    and "parse_int timestamp = Some ts" and "ts < fst now div second"
  shows "\<not> fst (verify hm later
      (auth_run hm (snd (verify hm now a token timestamp nonce sg)) es) token' timestamp nonce sg')"
proof
  let ?a1 = "snd (verify hm now a token timestamp nonce sg)"
  let ?a2 = "auth_run hm ?a1 es"
  assume "fst (verify hm later ?a2 token' timestamp nonce sg')"
  then have "verify_check (fst later) ?a2 token' timestamp nonce"
    by (simp add: verify_def split: if_splits)
  with assms(8) have unseen: "\<not> nc_exists nonce (au_cache ?a2)" and win: "in_window (fst later) ts"
    by (simp_all add: verify_check_iff [OF assms(3)])
  from assms(6) have chk: "verify_check (fst now) a token timestamp nonce"
    by (simp add: verify_def split: if_splits)
  with assms(8) have win0: "in_window (fst now) ts"
    by (simp add: verify_check_iff [OF assms(2)])
  show False
  proof (cases "fst later \<le> snd now + NonceExpiry")
    case True
    have "cache.holds_since nonce (snd now) (au_cache ?a1)" "auth_wf ?a1"
      using chk assms(1)
      by (simp_all add: verify_def verify_commit_cache cache.holds_since_add_same verify_commit_wf)
    moreover have "\<forall>e \<in> set es. \<forall>t \<in> event_times e. snd now \<le> t \<and> t \<le> snd now + NonceExpiry"
      using assms(7) True by force
    ultimately have "cache.holds_since nonce (snd now) (au_cache ?a2)"
      by (intro auth_run_holds) simp_all
    with unseen show False by (blast dest: cache.holds_since_ex)
  next
    case False
    with assms(4) have "fst now + NonceExpiry \<le> fst later" by simp
    from window_passed [OF assms(2,3) this win0 assms(9)] win show False by simp
  qed
qed

theorem replay_of_past_request_refused_witness:
  "let hm = (\<lambda>k d. take 2 d); a = new_authenticator [''secret-token''];
       sg = sign hm ''secret-token'' ''4999'' ''n1''; now = (5000 * second, 5000 * second)
   in \<not> fst (verify hm (5301 * second, 5301 * second)
        (auth_run hm (snd (verify hm now a ''secret-token'' ''4999'' ''n1'' sg)) [ESweep (5301 * second)])
        ''secret-token'' ''4999'' ''n1'' sg)"
proof -
  let ?hm = "\<lambda>k d. take 2 d" and ?a = "new_authenticator [''secret-token'']"
  let ?now = "(5000 * second, 5000 * second)" and ?sg = "sign (\<lambda>k d. take 2 d) ''secret-token'' ''4999'' ''n1''"
  have clocks: "valid_clock (fst ?now)" "valid_clock (5301 * second)" "fst ?now div second = 5000"
    by (simp_all add: valid_clock_def second_def)
  have ts: "parse_int ''4999'' = Some 4999" by code_simp
  have "verify_check (fst ?now) ?a ''secret-token'' ''4999'' ''n1''"
    using clocks ts
    by (simp add: verify_check_iff in_window_def new_authenticator_def new_nonce_cache_def nc_exists_def)
  then have "fst (verify ?hm ?now ?a ''secret-token'' ''4999'' ''n1'' ?sg)"
    by (simp add: verify_def verify_commit_def Let_def)
  from replay_of_past_request_refused
    [OF auth_wf_new clocks(1) _ _ _ this, of "(5301 * second, 5301 * second)" "[ESweep (5301 * second)]" 4999]
  show ?thesis
    using clocks ts by (simp add: Let_def second_def)
qed

text \<open>
  C29: The replay protection fails for a client whose clock is ahead of the server's: a request
  with a timestamp after the server's clock is accepted, and after a cleanup tick later than the
  nonce's expiry the very same request is accepted again, as long as the timestamp is still in the
  window (which the five-minute expiry does not cover).
\<close>

theorem replay_of_future_request_accepted:
  assumes "auth_wf a" and "valid_clock (fst now)" and "valid_clock (fst later)"
    and "fst (verify hm now a token timestamp nonce sg)"
    and "parse_int timestamp = Some ts" and "fst now div second < ts"
    and "snd now + NonceExpiry < tick" and "tick \<le> fst later" and "fst now \<le> tick"
    and "fst later div second \<le> ts + 300"
  shows "fst (verify hm later
      (auth_step hm (snd (verify hm now a token timestamp nonce sg)) (ESweep tick)) token timestamp nonce sg)"
proof -
  let ?a1 = "snd (verify hm now a token timestamp nonce sg)"
  let ?a2 = "auth_step hm ?a1 (ESweep tick)"
  from assms(4) have chk: "verify_check (fst now) a token timestamp nonce"
    and sg: "str_bytes sg = str_bytes (sign hm token timestamp nonce)"
    by (simp_all add: verify_def verify_commit_def Let_def split: if_splits)
  have v: "verify hm now a token timestamp nonce sg =
      verify_commit hm (snd now) a token timestamp nonce sg"
    using chk by (simp add: verify_def)
  have a1: "au_cache ?a1 = nc_add nonce (snd now) (au_cache a)" "auth_wf ?a1"
    "au_tokens ?a1 = au_tokens a"
    using assms(1) by (simp_all only: v verify_commit_cache verify_commit_wf)
      (simp add: verify_commit_def Let_def)
  have "\<not> nc_exists nonce (au_cache ?a2)"
    using cache.sweep_forgets [of "au_cache ?a1" nonce "snd now" tick] a1 assms(7)
    by (simp add: auth_wf_def cache.seen_add)
  moreover have "in_window (fst later) ts"
  proof -
    from assms(8,9) have "fst now \<le> fst later" by simp
    then have "fst now div second \<le> fst later div second"
      by (rule zdiv_mono1) (simp add: second_def)
    moreover from chk assms(5,6) have "ts \<le> fst now div second + 300"
      by (auto simp: verify_check_iff [OF assms(2)] in_window_def)
    ultimately show ?thesis using assms(10) by (simp add: in_window_def)
  qed
  ultimately have "verify_check (fst later) ?a2 token timestamp nonce"
    using chk a1(3) assms(5) by (simp add: verify_check_iff [OF assms(2)] verify_check_iff [OF assms(3)])
  with sg show ?thesis by (simp add: verify_def verify_commit_def Let_def)
qed

theorem replay_of_future_request_accepted_witness:
  "let hm = (\<lambda>k d. take 2 d); a = new_authenticator [''secret-token''];
       sg = sign hm ''secret-token'' ''5120'' ''n1''; now = (5000 * second, 5000 * second)
   in fst (verify hm now a ''secret-token'' ''5120'' ''n1'' sg)
    \<and> fst (verify hm (5360 * second, 5360 * second)
        (auth_step hm (snd (verify hm now a ''secret-token'' ''5120'' ''n1'' sg)) (ESweep (5340 * second)))
        ''secret-token'' ''5120'' ''n1'' sg)"
proof -
  let ?hm = "\<lambda>k d. take 2 d" and ?a = "new_authenticator [''secret-token'']"
  let ?now = "(5000 * second, 5000 * second)" and ?sg = "sign (\<lambda>k d. take 2 d) ''secret-token'' ''5120'' ''n1''"
  let ?later = "(5360 * second, 5360 * second)"
  have clocks: "valid_clock (fst ?now)" "valid_clock (fst ?later)" "fst ?now div second = 5000"
    "fst ?later div second = 5360"
    by (simp_all add: valid_clock_def second_def)
  have ts: "parse_int ''5120'' = Some 5120" by code_simp
  have "verify_check (fst ?now) ?a ''secret-token'' ''5120'' ''n1''"
    using clocks ts
    by (simp add: verify_check_iff in_window_def new_authenticator_def new_nonce_cache_def nc_exists_def)
  then have first: "fst (verify ?hm ?now ?a ''secret-token'' ''5120'' ''n1'' ?sg)"
    by (simp add: verify_def verify_commit_def Let_def)
  have "fst (verify ?hm ?later
      (auth_step ?hm (snd (verify ?hm ?now ?a ''secret-token'' ''5120'' ''n1'' ?sg)) (ESweep (5340 * second)))
        ''secret-token'' ''5120'' ''n1'' ?sg)"
    by (rule replay_of_future_request_accepted [OF auth_wf_new clocks(1,2) first ts])
      (simp_all add: second_def NonceExpiry_def)
  with first show ?thesis by (simp only: Let_def)
qed

text \<open>
  C30: Two concurrent \<open>Verify\<close> calls with the same nonce can both succeed: whenever \<open>Verify\<close>
  would accept a request, two goroutines carrying it can be interleaved (both test the cache before
  either records the nonce) so that both return true.
\<close>

theorem concurrent_replay_accepted:
  assumes "fst (verify hm (now, now) a (vq_token r) (vq_timestamp r) (vq_nonce r) (vq_sign r))"
  shows "\<exists>a' pc'. (verify_step hm now (\<lambda>_. r))\<^sup>*\<^sup>* (a, \<lambda>_. VStart) (a', pc')
    \<and> pc' 0 = VDone True \<and> pc' 1 = VDone True"
proof -
  let ?step = "verify_step hm now (\<lambda>_. r)"
  from assms have chk: "verify_check now a (vq_token r) (vq_timestamp r) (vq_nonce r)"
    and sg: "str_bytes (vq_sign r) = str_bytes (sign hm (vq_token r) (vq_timestamp r) (vq_nonce r))"
    by (simp_all add: verify_def verify_commit_def Let_def split: if_splits)
  let ?pc1 = "(\<lambda>_. VStart)(0 := VChecked)" and ?a1 = "a\<lparr>au_cache := nc_add (vq_nonce r) now (au_cache a)\<rparr>"
  let ?pc2 = "?pc1(1 := VChecked)"
  have s1: "?step (a, \<lambda>_. VStart) (a, ?pc1)"
    using verify_step.check [of "\<lambda>_. VStart" 0 True now a "\<lambda>_. r" hm] chk by simp
  have s2: "?step (a, ?pc1) (a, ?pc2)"
    using verify_step.check [of ?pc1 1 True now a "\<lambda>_. r" hm] chk by simp
  have s3: "?step (a, ?pc2) (?a1, ?pc2(0 := VDone True))"
    by (rule verify_step.commit) (simp_all add: verify_commit_def Let_def sg)
  have s4: "?step (?a1, ?pc2(0 := VDone True))
      (?a1\<lparr>au_cache := nc_add (vq_nonce r) now (au_cache ?a1)\<rparr>, ?pc2(0 := VDone True, 1 := VDone True))"
    by (rule verify_step.commit) (simp_all add: verify_commit_def Let_def sg)
  from s1 s2 s3 s4 have "?step\<^sup>*\<^sup>* (a, \<lambda>_. VStart)
      (?a1\<lparr>au_cache := nc_add (vq_nonce r) now (au_cache ?a1)\<rparr>, ?pc2(0 := VDone True, 1 := VDone True))"
    by (meson rtranclp.rtrancl_refl rtranclp.rtrancl_into_rtrancl)
  then show ?thesis by (intro exI conjI) (assumption, simp_all)
qed

theorem concurrent_replay_accepted_witness:
  "let hm = (\<lambda>k d. take 2 d); a = new_authenticator [''secret-token''];
       r = \<lparr>vq_token = ''secret-token'', vq_timestamp = ''5000'', vq_nonce = ''n1'',
            vq_sign = sign hm ''secret-token'' ''5000'' ''n1''\<rparr>
   in \<exists>a' pc'. (verify_step hm (5000 * second) (\<lambda>_. r))\<^sup>*\<^sup>* (a, \<lambda>_. VStart) (a', pc')
        \<and> pc' 0 = VDone True \<and> pc' 1 = VDone True"
proof -
  let ?hm = "\<lambda>k d. take 2 d" and ?a = "new_authenticator [''secret-token'']"
  let ?r = "\<lparr>vq_token = ''secret-token'', vq_timestamp = ''5000'', vq_nonce = ''n1'',
            vq_sign = sign ?hm ''secret-token'' ''5000'' ''n1''\<rparr>"
  have clock: "valid_clock (5000 * second)" "5000 * second div second = 5000"
    by (simp_all add: valid_clock_def second_def)
  have ts: "parse_int ''5000'' = Some 5000" by code_simp
  have "verify_check (5000 * second) ?a ''secret-token'' ''5000'' ''n1''"
    using clock ts
    by (simp add: verify_check_iff in_window_def new_authenticator_def new_nonce_cache_def nc_exists_def)
  then have "fst (verify ?hm (5000 * second, 5000 * second) ?a (vq_token ?r) (vq_timestamp ?r)
      (vq_nonce ?r) (vq_sign ?r))"
    by (simp add: verify_def verify_commit_def Let_def)
  from concurrent_replay_accepted [OF this] show ?thesis by (simp only: Let_def)
qed

text \<open>
  C31: A signature binds the timestamp and the nonce: if the MAC does not collide on the two inputs,
  two requests of one token with Unix timestamps of ten digits (the years 2001 to 2286) and the same
  signature have the same timestamp and the same nonce. The number of digits matters, because the
  three parts are signed without separators: moving characters from the nonce to the timestamp
  leaves the signature unchanged.
\<close>

theorem signature_binds_request:
  assumes "hm (str_bytes token) (str_bytes (token @ format_int ts @ nonce))
       = hm (str_bytes token) (str_bytes (token @ format_int ts' @ nonce'))
     \<Longrightarrow> token @ format_int ts @ nonce = token @ format_int ts' @ nonce'"
    and "10 ^ 9 \<le> ts" and "ts < 10 ^ 10" and "10 ^ 9 \<le> ts'" and "ts' < 10 ^ 10"
  shows "(sign hm token (format_int ts) nonce = sign hm token (format_int ts') nonce'
            \<longleftrightarrow> ts = ts' \<and> nonce = nonce')
    \<and> sign hm token (stamp @ digits) nonce = sign hm token stamp (digits @ nonce)"
proof -
  have len: "length (format_int i) = 10" if "10 ^ 9 \<le> i" "i < 10 ^ 10" for i
    using that nat_digits_length [of 9 "nat i"] by (simp add: format_int_def nat_less_iff le_nat_iff)
  have "ts = ts' \<and> nonce = nonce'" if "sign hm token (format_int ts) nonce = sign hm token (format_int ts') nonce'"
  proof -
    from that assms(1) have "format_int ts @ nonce = format_int ts' @ nonce'"
      by (simp add: sign_def Let_def hex_encode_inj)
    with len [OF assms(2,3)] len [OF assms(4,5)] show ?thesis
      by (simp add: format_int_inj)
  qed
  moreover have "sign hm token (stamp @ digits) nonce = sign hm token stamp (digits @ nonce)"
    by (simp add: sign_def Let_def)
  ultimately show ?thesis by blast
qed

theorem signature_binds_request_witness:
  "sign (\<lambda>k d. k @ d) ''secret-token'' (format_int 1700000000) ''n1''
     \<noteq> sign (\<lambda>k d. k @ d) ''secret-token'' (format_int 1700000001) ''n1''"
  using signature_binds_request
    [of "\<lambda>k d. k @ d" "''secret-token''" 1700000000 "''n1''" 1700000001 "''n1''" "''17''" "''00''"]
  by (simp add: str_bytes_inj flip: str_bytes_append)

end
