(* ===== verification/Stats.thy ===== *)
theory Stats
  imports Go_Io
begin

text \<open>
  pkg/stats: the process-wide counters. Each is an \<open>int64\<close> changed by an atomic add, so a 64-bit
  word that wraps; the global variable is the state every operation takes and returns. The
  formatting of the uptime (\<open>time.Duration.String\<close>) is a parameter.
\<close>

record stats =
  ActiveClients :: int64
  ActiveProxies :: int64
  ActiveConns :: int64
  TotalConns :: int64
  BytesIn :: int64
  BytesOut :: int64
  StartTime :: int
  Uptime :: string

definition initial_stats :: "int \<Rightarrow> stats" where
  "initial_stats now =
     \<lparr>ActiveClients = 0, ActiveProxies = 0, ActiveConns = 0, TotalConns = 0, BytesIn = 0, BytesOut = 0,
      StartTime = now, Uptime = []\<rparr>"

definition AddBytesIn :: "int64 \<Rightarrow> stats \<Rightarrow> stats" where
  "AddBytesIn n st = st\<lparr>BytesIn := BytesIn st + n\<rparr>"

definition AddBytesOut :: "int64 \<Rightarrow> stats \<Rightarrow> stats" where
  "AddBytesOut n st = st\<lparr>BytesOut := BytesOut st + n\<rparr>"

definition IncActiveClients :: "stats \<Rightarrow> stats" where
  "IncActiveClients st = st\<lparr>ActiveClients := ActiveClients st + 1\<rparr>"

definition DecActiveClients :: "stats \<Rightarrow> stats" where
  "DecActiveClients st = st\<lparr>ActiveClients := ActiveClients st + - 1\<rparr>"

definition IncActiveProxies :: "stats \<Rightarrow> stats" where
  "IncActiveProxies st = st\<lparr>ActiveProxies := ActiveProxies st + 1\<rparr>"

definition DecActiveProxies :: "stats \<Rightarrow> stats" where
  "DecActiveProxies st = st\<lparr>ActiveProxies := ActiveProxies st + - 1\<rparr>"

definition IncActiveConns :: "stats \<Rightarrow> stats" where
  "IncActiveConns st =
     (let st1 = st\<lparr>ActiveConns := ActiveConns st + 1\<rparr> in st1\<lparr>TotalConns := TotalConns st1 + 1\<rparr>)"

definition DecActiveConns :: "stats \<Rightarrow> stats" where
  "DecActiveConns st = st\<lparr>ActiveConns := ActiveConns st + - 1\<rparr>"

definition Get :: "(int \<Rightarrow> string) \<Rightarrow> int \<Rightarrow> stats \<Rightarrow> stats" where
  "Get duration_string now st =
     (let s = \<lparr>ActiveClients = ActiveClients st, ActiveProxies = ActiveProxies st,
               ActiveConns = ActiveConns st, TotalConns = TotalConns st, BytesIn = BytesIn st,
               BytesOut = BytesOut st, StartTime = StartTime st, Uptime = []\<rparr>
      in s\<lparr>Uptime := duration_string (now - StartTime st)\<rparr>)"

text \<open>The counting wrappers pass the call through and add the bytes it moved.\<close>

definition counting_read :: "'s reader \<Rightarrow> ('s \<times> stats) reader" where
  "counting_read rd n s =
     (case rd n (fst s) of
        None \<Rightarrow> None
      | Some ((bs, err), r) \<Rightarrow>
          Some ((bs, err), r, if length bs > 0 then AddBytesIn (word_of_nat (length bs)) (snd s) else snd s))"

definition counting_write :: "'d writer \<Rightarrow> ('d \<times> stats) writer" where
  "counting_write wr p s =
     (case wr p (fst s) of
        ((n, err), w) \<Rightarrow>
          ((n, err), w, if n > 0 then AddBytesOut (word_of_nat n) (snd s) else snd s))"

lemmas stats_defs =
  AddBytesIn_def AddBytesOut_def IncActiveClients_def DecActiveClients_def IncActiveProxies_def
  DecActiveProxies_def IncActiveConns_def DecActiveConns_def

lemma stats_cancel [simp]:
  "DecActiveClients (IncActiveClients st) = st" "DecActiveProxies (IncActiveProxies st) = st"
  by (simp_all add: stats_defs)

lemma AddBytesIn_0 [simp]: "AddBytesIn 0 st = st"
  by (simp add: AddBytesIn_def)

lemma AddBytesOut_0 [simp]: "AddBytesOut 0 st = st"
  by (simp add: AddBytesOut_def)

lemma AddBytesIn_add: "AddBytesIn a (AddBytesIn b st) = AddBytesIn (b + a) st"
  by (simp add: AddBytesIn_def add.assoc)

lemma AddBytesOut_add: "AddBytesOut a (AddBytesOut b st) = AddBytesOut (b + a) st"
  by (simp add: AddBytesOut_def add.assoc)

lemma AddBytes_commute: "AddBytesOut a (AddBytesIn b st) = AddBytesIn b (AddBytesOut a st)"
  by (simp add: AddBytesIn_def AddBytesOut_def)

text \<open>A reader behind the counter is still a byte stream, and the counter holds what was read.\<close>

context byte_reader
begin

lemma counting_step:
  assumes "inv (fst s)" and "0 < n"
  shows "\<exists>bs e s'. counting_read rd n s = Some ((bs, e), s') \<and> avail (fst s) = bs @ avail (fst s')
           \<and> length bs \<le> n \<and> inv (fst s') \<and> fin (fst s') = fin (fst s)
           \<and> (case e of None \<Rightarrow> rank (fst s') < rank (fst s)
              | Some er \<Rightarrow> er = fin (fst s) \<and> bs = [] \<and> avail (fst s) = [])"
proof -
  from rd_step [OF assms] obtain bs e r where "rd n (fst s) = Some ((bs, e), r)"
    "avail (fst s) = bs @ avail r" "length bs \<le> n" "inv r" "fin r = fin (fst s)"
    "case e of None \<Rightarrow> rank r < rank (fst s) | Some er \<Rightarrow> er = fin (fst s) \<and> bs = [] \<and> avail (fst s) = []"
    by blast
  then show ?thesis by (simp add: counting_read_def split: option.splits)
qed

end

interpretation counted: byte_reader "counting_read conn_read" "\<lambda>s. True" "\<lambda>s. conn_avail (fst s)"
  "\<lambda>s. conn_fin (fst s)" "\<lambda>s. conn_rank (fst s)"
  by unfold_locales (rule net.counting_step [OF TrueI])

end
