(* ===== verification/Pool.thy ===== *)
theory Pool
  imports Go_Io
begin

text \<open>
  pkg/pool: the buffer pool, the TCP and socket options, and the connection pool. The option
  setters of the operating system are parameters that return an error or not; what is modelled is
  which options are set, in which order, and which failures the code ignores.
\<close>

section \<open>Buffer pool (buffer.go)\<close>

text \<open>
  A \<open>sync.Pool\<close> hands out any of the buffers put into it, or a fresh one: \<open>choice\<close> is its
  decision.
\<close>

record buffer_pool =
  bp_items :: "bytes list"
  bp_size :: nat

definition new_buffer_pool :: "nat \<Rightarrow> buffer_pool" where
  "new_buffer_pool sz = \<lparr>bp_items = [], bp_size = sz\<rparr>"

definition pool_get :: "nat option \<Rightarrow> buffer_pool \<Rightarrow> bytes \<times> buffer_pool" where
  "pool_get choice p =
     (case choice of
        None \<Rightarrow> (replicate (bp_size p) 0, p)
      | Some i \<Rightarrow>
          if i < length (bp_items p) then
            (bp_items p ! i, p\<lparr>bp_items := take i (bp_items p) @ drop (Suc i) (bp_items p)\<rparr>)
          else (replicate (bp_size p) 0, p))"

definition pool_put :: "bytes option \<Rightarrow> buffer_pool \<Rightarrow> buffer_pool" where
  "pool_put buf p =
     (case buf of
        None \<Rightarrow> p
      | Some b \<Rightarrow> if length b = bp_size p then p\<lparr>bp_items := b # bp_items p\<rparr> else p)"

definition DefaultBufferPool :: buffer_pool where
  "DefaultBufferPool = new_buffer_pool (512 * 1024)"

definition pool_wf :: "buffer_pool \<Rightarrow> bool" where
  "pool_wf p \<longleftrightarrow> 0 < bp_size p \<and> (\<forall>b \<in> set (bp_items p). length b = bp_size p)"

lemma pool_wf_default: "pool_wf DefaultBufferPool"
  by (simp add: pool_wf_def DefaultBufferPool_def new_buffer_pool_def)

lemma pool_get_wf:
  assumes "pool_wf p" and "pool_get choice p = (b, p')"
  shows "length b = bp_size p \<and> pool_wf p' \<and> bp_size p' = bp_size p"
proof (cases choice)
  case None
  with assms show ?thesis by (auto simp: pool_get_def)
next
  case (Some i)
  show ?thesis
  proof (cases "i < length (bp_items p)")
    case True
    have "set (take i (bp_items p) @ drop (Suc i) (bp_items p)) \<subseteq> set (bp_items p)"
      using set_take_subset [of i "bp_items p"] set_drop_subset [of "Suc i" "bp_items p"] by auto
    with assms(1) have "\<forall>x \<in> set (take i (bp_items p) @ drop (Suc i) (bp_items p)). length x = bp_size p"
      unfolding pool_wf_def by blast
    moreover from True have "bp_items p ! i \<in> set (bp_items p)" by simp
    ultimately show ?thesis using assms Some True by (auto simp: pool_get_def pool_wf_def)
  next
    case False
    with assms Some show ?thesis by (auto simp: pool_get_def)
  qed
qed

lemma pool_put_wf: "pool_wf p \<Longrightarrow> pool_wf (pool_put buf p) \<and> bp_size (pool_put buf p) = bp_size p"
  by (auto simp: pool_put_def pool_wf_def split: option.splits)

section \<open>TCP options (tcp.go, tcp_linux.go, tcp_windows.go)\<close>

datatype tcp_option =
    ReadBuffer nat
  | WriteBuffer nat
  | NoDelay bool
  | KeepAlive bool
  | KeepAlivePeriod nat
  | SoReuseAddr
  | SoReusePort

text \<open>
  \<open>OptimizeTCPConn\<close> on a connection that is a \<open>*net.TCPConn\<close> or is not; \<open>set\<close> tries an option
  and says whether it failed. The result is the error and the options tried, in order.
\<close>

definition optimize_tcp_conn :: "(tcp_option \<Rightarrow> go_error option) \<Rightarrow> bool \<Rightarrow> go_error option \<times> tcp_option list" where
  "optimize_tcp_conn set_opt is_tcp =
     (if \<not> is_tcp then (None, [])
      else
        (let tried = [ReadBuffer (2 * 1024 * 1024), WriteBuffer (2 * 1024 * 1024), NoDelay True] in
         case set_opt (KeepAlive True) of
           Some err \<Rightarrow> (Some err, tried @ [KeepAlive True])
         | None \<Rightarrow>
             (case set_opt (KeepAlivePeriod 15) of
                Some err \<Rightarrow> (Some err, tried @ [KeepAlive True, KeepAlivePeriod 15])
              | None \<Rightarrow> (None, tried @ [KeepAlive True, KeepAlivePeriod 15]))))"

text \<open>
  \<open>SetReuseAddr\<close>: \<open>ctl\<close> is the error of \<open>RawConn.Control\<close> itself, which when it fails has not
  run the function; otherwise the socket option's own error is returned.
\<close>

definition set_reuse_addr_linux ::
  "go_error option \<Rightarrow> (tcp_option \<Rightarrow> go_error option) \<Rightarrow> go_error option \<times> tcp_option list" where
  "set_reuse_addr_linux ctl set_opt =
     (let (sock_err, tried) =
        (if ctl \<noteq> None then (None, [])
         else
           (case set_opt SoReuseAddr of
              Some e \<Rightarrow> (Some e, [SoReuseAddr])
            | None \<Rightarrow> (set_opt SoReusePort, [SoReuseAddr, SoReusePort])))
      in (if ctl \<noteq> None then ctl else sock_err, tried))"

definition set_reuse_addr_windows ::
  "go_error option \<Rightarrow> (tcp_option \<Rightarrow> go_error option) \<Rightarrow> go_error option \<times> tcp_option list" where
  "set_reuse_addr_windows ctl set_opt =
     (let (sock_err, tried) = (if ctl \<noteq> None then (None, []) else (set_opt SoReuseAddr, [SoReuseAddr]))
      in (if ctl \<noteq> None then ctl else sock_err, tried))"

section \<open>Connection pool (conn.go)\<close>

text \<open>
  A pooled connection as the pool can see it: the bytes that have arrived and not been read,
  whether the peer has closed, and whether it was closed here. Connections are objects, so the pool
  holds references into a store.
\<close>

record pconn =
  pending :: bytes
  peer_closed :: bool
  pc_closed :: bool

record conn_pool =
  cp_conns :: "nat list"
  cp_max :: nat
  cp_closed :: bool
  cp_store :: "nat \<Rightarrow> pconn"

definition new_conn_pool :: "nat \<Rightarrow> (nat \<Rightarrow> pconn) \<Rightarrow> conn_pool" where
  "new_conn_pool max_size store =
     \<lparr>cp_conns = [], cp_max = max_size, cp_closed = False, cp_store = store\<rparr>"

definition close_conn :: "nat \<Rightarrow> conn_pool \<Rightarrow> conn_pool" where
  "close_conn c p = p\<lparr>cp_store := (cp_store p)(c := (cp_store p c)\<lparr>pc_closed := True\<rparr>)\<rparr>"

text \<open>
  \<open>isAlive\<close> reads one byte with a deadline of a millisecond: a byte that is there is consumed,
  a closed peer gives \<open>EOF\<close>, a connection closed here an error, and silence a timeout.
\<close>

definition is_alive :: "nat \<Rightarrow> conn_pool \<Rightarrow> bool \<times> conn_pool" where
  "is_alive c p =
     (let k = cp_store p c in
      if pc_closed k then (False, p)
      else
        (case pending k of
           b # bs \<Rightarrow> (True, p\<lparr>cp_store := (cp_store p)(c := k\<lparr>pending := bs\<rparr>)\<rparr>)
         | [] \<Rightarrow> if peer_closed k then (False, p) else (True, p)))"

text \<open>
  \<open>Get\<close> and \<open>Put\<close> look at \<open>closed\<close> under the lock and work on the channel after releasing it, so
  each is two steps and another goroutine may run in between. Receiving from a closed channel
  gives a nil connection, sending to one panics.
\<close>

definition cp_check :: "conn_pool \<Rightarrow> bool" where
  "cp_check p = cp_closed p"

definition cp_get_take ::
  "(conn_pool \<Rightarrow> nat result \<times> conn_pool) \<Rightarrow> conn_pool \<Rightarrow> (nat result \<times> conn_pool) outcome" where
  "cp_get_take factory p =
     (case cp_conns p of
        c # cs \<Rightarrow>
          (case is_alive c (p\<lparr>cp_conns := cs\<rparr>) of
             (True, p1) \<Rightarrow> Done (Inr c, p1)
           | (False, p1) \<Rightarrow> Done (factory (close_conn c p1)))
      | [] \<Rightarrow>
          if cp_closed p then Panic ''invalid memory address or nil pointer dereference''
          else Done (factory p))"

definition cp_get ::
  "(conn_pool \<Rightarrow> nat result \<times> conn_pool) \<Rightarrow> conn_pool \<Rightarrow> (nat result \<times> conn_pool) outcome" where
  "cp_get factory p =
     (if cp_check p then Done (Inl (ErrText ''pool closed''), p) else cp_get_take factory p)"

definition cp_put_send :: "nat \<Rightarrow> conn_pool \<Rightarrow> conn_pool outcome" where
  "cp_put_send c p =
     (if cp_closed p then Panic ''send on closed channel''
      else if length (cp_conns p) < cp_max p then Done (p\<lparr>cp_conns := cp_conns p @ [c]\<rparr>)
      else Done (close_conn c p))"

definition cp_put :: "nat option \<Rightarrow> conn_pool \<Rightarrow> conn_pool outcome" where
  "cp_put conn p =
     (case conn of
        None \<Rightarrow> Done p
      | Some c \<Rightarrow> if cp_check p then Done (close_conn c p) else cp_put_send c p)"

definition cp_close :: "conn_pool \<Rightarrow> conn_pool" where
  "cp_close p =
     (if cp_closed p then p
      else (fold close_conn (cp_conns p) (p\<lparr>cp_closed := True\<rparr>))\<lparr>cp_conns := []\<rparr>)"

definition cp_size :: "conn_pool \<Rightarrow> nat" where
  "cp_size p = length (cp_conns p)"

text \<open>A sequence of uses from one goroutine; the result lists the connections handed out.\<close>

datatype pool_op = PoolGet | PoolPut nat | PoolClose

fun pool_run ::
  "(conn_pool \<Rightarrow> nat result \<times> conn_pool) \<Rightarrow> pool_op list \<Rightarrow> conn_pool \<Rightarrow> (nat list \<times> conn_pool) outcome" where
  "pool_run factory [] p = Done ([], p)"
| "pool_run factory (PoolGet # ops) p =
     (case cp_get factory p of
        Panic m \<Rightarrow> Panic m
      | Done (r, p1) \<Rightarrow>
          (case pool_run factory ops p1 of
             Panic m \<Rightarrow> Panic m
           | Done (hs, p2) \<Rightarrow> Done (case r of Inl _ \<Rightarrow> (hs, p2) | Inr c \<Rightarrow> (c # hs, p2))))"
| "pool_run factory (PoolPut c # ops) p =
     (case cp_put (Some c) p of
        Panic m \<Rightarrow> Panic m
      | Done p1 \<Rightarrow> pool_run factory ops p1)"
| "pool_run factory (PoolClose # ops) p = pool_run factory ops (cp_close p)"

definition cp_ok :: "conn_pool \<Rightarrow> bool" where
  "cp_ok p \<longleftrightarrow> length (cp_conns p) \<le> cp_max p \<and> (if cp_closed p then cp_conns p = [] else True)"

text \<open>A factory only dials: it leaves the pool and the connections that exist alone.\<close>

definition dials :: "(conn_pool \<Rightarrow> nat result \<times> conn_pool) \<Rightarrow> bool" where
  "dials factory \<longleftrightarrow>
     (\<forall>p. cp_conns (snd (factory p)) = cp_conns p \<and> cp_max (snd (factory p)) = cp_max p
        \<and> cp_closed (snd (factory p)) = cp_closed p
        \<and> (\<forall>c. pc_closed (cp_store p c) \<longrightarrow> pc_closed (cp_store (snd (factory p)) c)))"

text \<open>Where a connection given to the pool can be afterwards.\<close>

definition accounted :: "nat list \<Rightarrow> conn_pool \<Rightarrow> nat \<Rightarrow> bool" where
  "accounted handed p c \<longleftrightarrow> c \<in> set handed \<or> c \<in> set (cp_conns p) \<or> pc_closed (cp_store p c)"

lemma close_conn_simps [simp]:
  "cp_conns (close_conn c p) = cp_conns p" "cp_max (close_conn c p) = cp_max p"
  "cp_closed (close_conn c p) = cp_closed p"
  "cp_store (close_conn c p) d = (if d = c then (cp_store p c)\<lparr>pc_closed := True\<rparr> else cp_store p d)"
  by (simp_all add: close_conn_def)

lemma fold_close_simps [simp]:
  "cp_conns (fold close_conn cs p) = cp_conns p" "cp_max (fold close_conn cs p) = cp_max p"
  "cp_closed (fold close_conn cs p) = cp_closed p"
  by (induction cs arbitrary: p) simp_all

lemma fold_close_closed:
  "pc_closed (cp_store (fold close_conn cs p) c) \<longleftrightarrow> c \<in> set cs \<or> pc_closed (cp_store p c)"
  by (induction cs arbitrary: p) auto

lemma is_alive_frame:
  assumes "is_alive c p = (a, p')"
  shows "cp_conns p' = cp_conns p" "cp_max p' = cp_max p" "cp_closed p' = cp_closed p"
    "pc_closed (cp_store p' d) = pc_closed (cp_store p d)"
  using assms by (auto simp: is_alive_def Let_def split: if_splits list.splits)

text \<open>What one operation promises: the invariant, and no connection lost.\<close>

lemma cp_put_step:
  assumes "cp_ok p" and "cp_put (Some c) p = Done p'"
  shows "cp_ok p' \<and> accounted [] p' c
    \<and> (\<forall>d. accounted [] p d \<longrightarrow> accounted [] p' d)"
  using assms
  by (auto simp: cp_put_def cp_put_send_def cp_check_def cp_ok_def accounted_def split: if_splits)

lemma cp_put_returns: "\<exists>p'. cp_put c p = Done p'"
  by (simp add: cp_put_def cp_put_send_def cp_check_def split: option.splits)

lemma cp_close_step:
  assumes "cp_ok p"
  shows "cp_ok (cp_close p) \<and> (\<forall>d. accounted [] p d \<longrightarrow> accounted [] (cp_close p) d)"
  using assms by (auto simp: cp_close_def cp_ok_def accounted_def fold_close_closed)

lemma cp_get_step:
  assumes "cp_ok p" and "dials factory" and "cp_get factory p = Done (r, p')"
  shows "cp_ok p' \<and>
    (\<forall>d. accounted [] p d \<longrightarrow> accounted (case r of Inl _ \<Rightarrow> [] | Inr c \<Rightarrow> [c]) p' d)"
proof (cases "cp_closed p \<or> cp_conns p = []")
  case True
  then consider "cp_closed p" | "\<not> cp_closed p" "cp_conns p = []" by blast
  then show ?thesis
  proof cases
    case 1
    with assms show ?thesis by (auto simp: cp_get_def cp_check_def)
  next
    case 2
    with assms(3) have "factory p = (r, p')"
      by (simp add: cp_get_def cp_check_def cp_get_take_def)
    moreover have "cp_conns (snd (factory p)) = cp_conns p" "cp_max (snd (factory p)) = cp_max p"
      "cp_closed (snd (factory p)) = cp_closed p"
      "\<forall>c. pc_closed (cp_store p c) \<longrightarrow> pc_closed (cp_store (snd (factory p)) c)"
      using assms(2) by (auto simp: dials_def)
    ultimately show ?thesis using 2 by (auto simp: cp_ok_def accounted_def)
  qed
next
  case False
  then obtain c cs where open': "\<not> cp_closed p" and conns: "cp_conns p = c # cs"
    by (cases "cp_conns p") auto
  obtain a p1 where alive: "is_alive c (p\<lparr>cp_conns := cs\<rparr>) = (a, p1)" by fastforce
  note frame = is_alive_frame [OF alive]
  show ?thesis
  proof (cases a)
    case True
    with assms(3) open' conns alive have "r = Inr c" "p' = p1"
      by (auto simp: cp_get_def cp_check_def cp_get_take_def)
    with frame assms(1) open' conns show ?thesis by (auto simp: cp_ok_def accounted_def)
  next
    case dead: False
    define q where "q = close_conn c p1"
    from assms(3) open' conns alive dead have fac: "factory q = (r, p')"
      by (auto simp: cp_get_def cp_check_def cp_get_take_def q_def)
    have "cp_conns (snd (factory q)) = cp_conns q" "cp_max (snd (factory q)) = cp_max q"
      "cp_closed (snd (factory q)) = cp_closed q"
      "\<forall>d. pc_closed (cp_store q d) \<longrightarrow> pc_closed (cp_store (snd (factory q)) d)"
      using assms(2) by (auto simp: dials_def)
    with fac frame assms(1) open' conns show ?thesis
      by (auto simp: cp_ok_def accounted_def q_def)
  qed
qed

lemma cp_get_returns:
  assumes "dials factory"
  shows "\<exists>r p'. cp_get factory p = Done (r, p')"
  by (cases "cp_conns p"; cases "is_alive (hd (cp_conns p)) (p\<lparr>cp_conns := tl (cp_conns p)\<rparr>)")
    (auto simp: cp_get_def cp_check_def cp_get_take_def split: bool.splits prod.splits
      intro: surj_pair)

text \<open>
  C32: No sequence of Get, Put and Close panics or loses a connection: at the end the pool holds at
  most its capacity, a closed pool holds nothing, and every connection ever put, or held at the
  start, has been handed out again, is still in the pool, or is closed.
\<close>
theorem conn_pool_accounts:
  assumes "cp_ok p" and "dials factory"
  shows "\<exists>handed p'. pool_run factory ops p = Done (handed, p') \<and> cp_ok p'
    \<and> (\<forall>c. (accounted [] p c \<or> PoolPut c \<in> set ops) \<longrightarrow> accounted handed p' c)"
  using assms(1)
proof (induction ops arbitrary: p)
  case Nil
  then show ?case by (auto simp: accounted_def)
next
  case (Cons oper ops)
  show ?case
  proof (cases oper)
    case PoolGet
    from cp_get_returns [OF assms(2)] obtain r p1 where get: "cp_get factory p = Done (r, p1)" by blast
    from cp_get_step [OF Cons.prems assms(2) get] have "cp_ok p1"
      and keep: "\<forall>d. accounted [] p d \<longrightarrow> accounted (case r of Inl _ \<Rightarrow> [] | Inr c \<Rightarrow> [c]) p1 d" by auto
    from Cons.IH [OF this(1)] obtain hs p2 where
      "pool_run factory ops p1 = Done (hs, p2)" "cp_ok p2"
      and rest: "\<forall>c. (accounted [] p1 c \<or> PoolPut c \<in> set ops) \<longrightarrow> accounted hs p2 c" by blast
    with PoolGet get keep show ?thesis
      by (cases r) (auto simp: accounted_def)
  next
    case (PoolPut c)
    from cp_put_returns obtain p1 where put: "cp_put (Some c) p = Done p1" by blast
    from cp_put_step [OF Cons.prems put] Cons.IH [of p1] PoolPut put show ?thesis by force
  next
    case PoolClose
    from cp_close_step [OF Cons.prems] Cons.IH [of "cp_close p"] PoolClose show ?thesis by force
  qed
qed

text \<open>The witnesses use a pool of capacity one over connections that are open and silent.\<close>

definition idle_pconn :: pconn where
  "idle_pconn = \<lparr>pending = [], peer_closed = False, pc_closed = False\<rparr>"

definition no_factory :: "conn_pool \<Rightarrow> nat result \<times> conn_pool" where
  "no_factory p = (Inl (ErrText ''dial''), p)"

theorem conn_pool_accounts_witness:
  "\<exists>handed p'. pool_run no_factory [PoolPut 1, PoolPut 2, PoolGet, PoolClose]
      (new_conn_pool 1 (\<lambda>_. idle_pconn)) = Done (handed, p') \<and> cp_ok p' \<and> accounted handed p' 1
      \<and> accounted handed p' 2"
proof -
  have "cp_ok (new_conn_pool 1 (\<lambda>_. idle_pconn))" "dials no_factory"
    by (simp_all add: cp_ok_def new_conn_pool_def dials_def no_factory_def)
  from conn_pool_accounts [OF this, of "[PoolPut 1, PoolPut 2, PoolGet, PoolClose]"]
  show ?thesis by auto
qed

text \<open>
  The check for a closed pool and the channel operation that follows it are not atomic: when
  Close runs between the two, Put panics on the closed channel for every connection, and Get takes
  a nil connection out of it and panics.
\<close>
theorem conn_pool_close_race:
  "cp_check (new_conn_pool n store) = False
   \<and> cp_put_send c (cp_close (new_conn_pool n store)) = Panic ''send on closed channel''
   \<and> cp_get_take factory (cp_close (new_conn_pool n store))
       = Panic ''invalid memory address or nil pointer dereference''"
  by (simp add: cp_check_def new_conn_pool_def cp_put_send_def cp_close_def cp_get_take_def)

text \<open>
  The liveness check reads a byte and drops it: a connection put into an empty pool comes back
  from Get without the first byte the peer sent in between, and so does not deliver the peer's
  stream.
\<close>
theorem conn_pool_get_eats_byte:
  assumes "cp_store p c = \<lparr>pending = b # rest, peer_closed = pc, pc_closed = False\<rparr>"
    and "cp_conns p = []" and "\<not> cp_closed p" and "0 < cp_max p"
  shows "\<exists>p1 p2. cp_put (Some c) p = Done p1 \<and> cp_get factory p1 = Done (Inr c, p2)
    \<and> pending (cp_store p2 c) = rest"
  using assms
  by (simp add: cp_put_def cp_put_send_def cp_check_def cp_get_def cp_get_take_def is_alive_def Let_def)

theorem conn_pool_get_eats_byte_witness:
  "\<exists>p1 p2. cp_put (Some 7) (new_conn_pool 1 (\<lambda>_. idle_pconn\<lparr>pending := [1, 2]\<rparr>)) = Done p1
    \<and> cp_get no_factory p1 = Done (Inr 7, p2) \<and> pending (cp_store p2 7) = [2]"
  by (rule conn_pool_get_eats_byte [where b = 1 and pc = False])
    (simp_all add: new_conn_pool_def idle_pconn_def)

end
