(* ===== verification/Forward.thy ===== *)
theory Forward
  imports Go_Io Go_Std Stats Pool
begin

text \<open>
  internal/server/handler.go and internal/client/handler.go: the forwarding of bytes between two
  connections. The two files are the same but for the statistics the server keeps, so each has its
  own definitions and the server's are shown to refine the client's. One iteration of the loop of
  \<open>copyBuffer\<close> is a function, the loop is a partial function of it (a source that never
  ends keeps it running), and \<open>Join\<close> is a step relation of the two goroutines it starts. Log
  lines are kept as values, so that what is logged, and what is taken for a normal close, is part of
  the model.
\<close>

section \<open>Closed connections\<close>

definition is_closed_conn_error :: "go_error option \<Rightarrow> bool" where
  "is_closed_conn_error err =
     (case err of
        None \<Rightarrow> False
      | Some e \<Rightarrow>
          contains (error_text e) ''use of closed network connection''
          \<or> contains (error_text e) ''connection reset by peer''
          \<or> contains (error_text e) ''broken pipe'')"

section \<open>The copy loop\<close>

datatype copy_log = LogWriteError int64 go_error | LogShortWrite nat nat | LogReadError int64 go_error

record ('s, 'd) copy_state =
  copy_src :: 's
  copy_dst :: 'd
  copy_buf :: bytes
  copy_total :: int64
  copy_logs :: "copy_log list"

definition add_log :: "bool \<Rightarrow> copy_log \<Rightarrow> ('s, 'd) copy_state \<Rightarrow> ('s, 'd) copy_state" where
  "add_log b l st = (if b then st\<lparr>copy_logs := copy_logs st @ [l]\<rparr> else st)"

text \<open>
  The three parts of an iteration: the read, the write of what was read, and the test of the
  read's error. A part that returns from the function gives \<open>Some\<close> of the returned error.
\<close>

definition copy_read ::
  "'s reader \<Rightarrow> ('s, 'd) copy_state \<Rightarrow> ((nat \<times> go_error option) \<times> ('s, 'd) copy_state) option" where
  "copy_read rd st =
     (case rd (length (copy_buf st)) (copy_src st) of
        None \<Rightarrow> None
      | Some ((bs, err), s1) \<Rightarrow>
          Some ((length bs, err),
            st\<lparr>copy_src := s1, copy_buf := bs @ drop (length bs) (copy_buf st)\<rparr>))"

definition copy_check_write ::
  "nat \<Rightarrow> nat \<Rightarrow> go_error option \<Rightarrow> ('s, 'd) copy_state \<Rightarrow> go_error option option \<times> ('s, 'd) copy_state" where
  "copy_check_write n wn werr st =
     (case werr of
        Some e \<Rightarrow>
          (Some (Some e), add_log (\<not> is_closed_conn_error werr) (LogWriteError (copy_total st) e) st)
      | None \<Rightarrow>
          if wn \<noteq> n then (Some (Some ErrShortWrite), add_log True (LogShortWrite wn n) st)
          else (None, st))"

definition copy_check_read ::
  "go_error option \<Rightarrow> ('s, 'd) copy_state \<Rightarrow> go_error option option \<times> ('s, 'd) copy_state" where
  "copy_check_read err st =
     (case err of
        None \<Rightarrow> (None, st)
      | Some e \<Rightarrow>
          if e = EOF then (Some None, st)
          else (Some (Some e), add_log (\<not> is_closed_conn_error err) (LogReadError (copy_total st) e) st))"

definition client_copy_write ::
  "'d writer \<Rightarrow> nat \<Rightarrow> ('s, 'd) copy_state \<Rightarrow> go_error option option \<times> ('s, 'd) copy_state" where
  "client_copy_write wr n st =
     (case wr (take n (copy_buf st)) (copy_dst st) of
        ((wn, werr), d1) \<Rightarrow>
          (let st1 = st\<lparr>copy_dst := d1\<rparr>;
               st2 = (if wn > 0 then st1\<lparr>copy_total := copy_total st1 + word_of_nat wn\<rparr> else st1)
           in copy_check_write n wn werr st2))"

definition client_copy_iter ::
  "'s reader \<Rightarrow> 'd writer \<Rightarrow> ('s, 'd) copy_state
   \<Rightarrow> (go_error option option \<times> ('s, 'd) copy_state) option" where
  "client_copy_iter rd wr st =
     (case copy_read rd st of
        None \<Rightarrow> None
      | Some ((n, err), st1) \<Rightarrow>
          Some (case (if n > 0 then client_copy_write wr n st1 else (None, st1)) of
                  (Some r, st2) \<Rightarrow> (Some r, st2)
                | (None, st2) \<Rightarrow> copy_check_read err st2))"

text \<open>The server's iteration counts the bytes on the way.\<close>

definition server_copy_write ::
  "'d writer \<Rightarrow> nat \<Rightarrow> ('s, 'd) copy_state \<times> stats
   \<Rightarrow> go_error option option \<times> ('s, 'd) copy_state \<times> stats" where
  "server_copy_write wr n x =
     (case x of (st, g) \<Rightarrow>
        let g1 = AddBytesIn (word_of_nat n) g in
        (case wr (take n (copy_buf st)) (copy_dst st) of
           ((wn, werr), d1) \<Rightarrow>
             (let st1 = st\<lparr>copy_dst := d1\<rparr>;
                  (st2, g2) =
                    (if wn > 0 then
                       (st1\<lparr>copy_total := copy_total st1 + word_of_nat wn\<rparr>, AddBytesOut (word_of_nat wn) g1)
                     else (st1, g1));
                  (r, st3) = copy_check_write n wn werr st2
              in (r, st3, g2))))"

definition server_copy_iter ::
  "'s reader \<Rightarrow> 'd writer \<Rightarrow> ('s, 'd) copy_state \<times> stats
   \<Rightarrow> (go_error option option \<times> ('s, 'd) copy_state \<times> stats) option" where
  "server_copy_iter rd wr x =
     (case copy_read rd (fst x) of
        None \<Rightarrow> None
      | Some ((n, err), st1) \<Rightarrow>
          Some (case (if n > 0 then server_copy_write wr n (st1, snd x) else (None, st1, snd x)) of
                  (Some r, st2, g2) \<Rightarrow> (Some r, st2, g2)
                | (None, st2, g2) \<Rightarrow> (case copy_check_read err st2 of (r, st3) \<Rightarrow> (r, st3, g2))))"

definition copy_start :: "'d \<Rightarrow> 's \<Rightarrow> bytes \<Rightarrow> ('s, 'd) copy_state" where
  "copy_start dst src buf =
     \<lparr>copy_src = src, copy_dst = dst, copy_buf = buf, copy_total = 0, copy_logs = []\<rparr>"

text \<open>\<open>copyBuffer\<close>: a buffer is taken from the pool and put back when the loop returns.\<close>

definition client_copy_buffer ::
  "'s reader \<Rightarrow> 'd writer \<Rightarrow> nat option \<Rightarrow> 'd \<Rightarrow> 's \<Rightarrow> buffer_pool
   \<Rightarrow> (((int64 \<times> go_error option) \<times> ('s, 'd) copy_state) \<times> buffer_pool) option" where
  "client_copy_buffer rd wr choice dst src p =
     (case pool_get choice p of (buf, p1) \<Rightarrow>
        (case go_loop (client_copy_iter rd wr) (copy_start dst src buf) of
           None \<Rightarrow> None
         | Some (err, st) \<Rightarrow> Some (((copy_total st, err), st), pool_put (Some (copy_buf st)) p1)))"

definition server_copy_buffer ::
  "'s reader \<Rightarrow> 'd writer \<Rightarrow> nat option \<Rightarrow> 'd \<Rightarrow> 's \<Rightarrow> buffer_pool \<Rightarrow> stats
   \<Rightarrow> (((int64 \<times> go_error option) \<times> ('s, 'd) copy_state) \<times> buffer_pool \<times> stats) option" where
  "server_copy_buffer rd wr choice dst src p g =
     (case pool_get choice p of (buf, p1) \<Rightarrow>
        (case go_loop (server_copy_iter rd wr) (copy_start dst src buf, g) of
           None \<Rightarrow> None
         | Some (err, st, g1) \<Rightarrow>
             Some (((copy_total st, err), st), pool_put (Some (copy_buf st)) p1, g1)))"

section \<open>Reasoning about the loop\<close>

lemmas copy_parts = copy_check_write_def copy_check_read_def client_copy_write_def server_copy_write_def
  add_log_def Let_def

lemma server_copy_iter_refines:
  "map_option (map_prod id fst) (server_copy_iter rd wr x) = client_copy_iter rd wr (fst x)"
  by (cases x)
    (auto simp: server_copy_iter_def client_copy_iter_def copy_parts split: option.splits prod.splits)

text \<open>
  The server's copyBuffer does exactly what the client's does: same bytes read and written,
  same total, same error, same log, same buffer put back, and it returns when the client's does; the
  statistics are all it adds.
\<close>
theorem server_copy_refines_client:
  "map_option (map_prod id fst) (server_copy_buffer rd wr choice dst src p g)
   = client_copy_buffer rd wr choice dst src p"
proof -
  obtain buf p1 where get: "pool_get choice p = (buf, p1)" by fastforce
  have "map_option (map_prod id fst) (go_loop (server_copy_iter rd wr) (copy_start dst src buf, g))
      = go_loop (client_copy_iter rd wr) (copy_start dst src buf)"
    using go_loop_sim [of fst "server_copy_iter rd wr", OF server_copy_iter_refines] by simp
  from this [symmetric] get show ?thesis
    by (cases "go_loop (server_copy_iter rd wr) (copy_start dst src buf, g)")
      (auto simp: server_copy_buffer_def client_copy_buffer_def)
qed

section \<open>What is forwarded\<close>

text \<open>
  Any source that is a byte stream and any sink: the loop always returns, and what it has handed to
  the sink is the first \<open>k\<close> bytes of the source, which is what it says and counts.
\<close>

locale copy_ends = r: byte_reader rd inv avail fin rank + w: byte_sink wr winv out
  for rd :: "nat \<Rightarrow> 's \<Rightarrow> ((bytes \<times> go_error option) \<times> 's) option"
    and inv :: "'s \<Rightarrow> bool" and avail :: "'s \<Rightarrow> bytes"
    and fin :: "'s \<Rightarrow> go_error" and rank :: "'s \<Rightarrow> nat"
    and wr :: "bytes \<Rightarrow> 'd \<Rightarrow> (nat \<times> go_error option) \<times> 'd"
    and winv :: "'d \<Rightarrow> bool" and out :: "'d \<Rightarrow> bytes"
begin

lemma copy_iter_cases:
  assumes "inv (copy_src st)" and "winv (copy_dst st)" and "copy_buf st \<noteq> []"
  obtains
    (ended) r st' where "server_copy_iter rd wr (st, g) = Some (Some r, st', g)"
      "avail (copy_src st) = []" "r = (if fin (copy_src st) = EOF then None else Some (fin (copy_src st)))"
      "copy_dst st' = copy_dst st" "copy_total st' = copy_total st"
      "length (copy_buf st') = length (copy_buf st)" "avail (copy_src st') = []"
  | (moved) bs st' where
      "server_copy_iter rd wr (st, g) =
         Some (None, st', AddBytesOut (word_of_nat (length bs)) (AddBytesIn (word_of_nat (length bs)) g))"
      "avail (copy_src st) = bs @ avail (copy_src st')" "inv (copy_src st')" "winv (copy_dst st')"
      "fin (copy_src st') = fin (copy_src st)" "rank (copy_src st') < rank (copy_src st)"
      "out (copy_dst st') = out (copy_dst st) @ bs"
      "copy_total st' = copy_total st + word_of_nat (length bs)"
      "length (copy_buf st') = length (copy_buf st)"
  | (failed) bs wn e st' where
      "server_copy_iter rd wr (st, g) =
         Some (Some (Some e), st', AddBytesOut (word_of_nat wn) (AddBytesIn (word_of_nat (length bs)) g))"
      "\<exists>rest. avail (copy_src st) = bs @ rest" "wn \<le> length bs"
      "out (copy_dst st') = out (copy_dst st) @ take wn bs"
      "copy_total st' = copy_total st + word_of_nat wn"
      "length (copy_buf st') = length (copy_buf st)"
      "\<exists>p d. winv d \<and> snd (fst (wr p d)) = Some e"
proof -
  from assms(3) have "0 < length (copy_buf st)" by simp
  from r.rd_step [OF assms(1) this] obtain bs e s' where
      rd: "rd (length (copy_buf st)) (copy_src st) = Some ((bs, e), s')"
    and av: "avail (copy_src st) = bs @ avail s'" and len: "length bs \<le> length (copy_buf st)"
    and inv': "inv s'" and fin': "fin s' = fin (copy_src st)"
    and e: "case e of None \<Rightarrow> rank s' < rank (copy_src st)
          | Some er \<Rightarrow> er = fin (copy_src st) \<and> bs = [] \<and> avail (copy_src st) = []"
    by blast
  define st1 where "st1 = st\<lparr>copy_src := s', copy_buf := bs @ drop (length bs) (copy_buf st)\<rparr>"
  have read: "copy_read rd st = Some ((length bs, e), st1)"
    by (simp add: copy_read_def rd st1_def)
  show thesis
  proof (cases e)
    case (Some er)
    with e have er: "er = fin (copy_src st)" "bs = []" "avail (copy_src st) = []" by simp_all
    show thesis
      by (rule ended [of "if er = EOF then None else Some er" "snd (copy_check_read (Some er) st1)"])
        (use er av read in \<open>auto simp: server_copy_iter_def copy_parts st1_def Some\<close>)
  next
    case None
    with e have rank: "rank s' < rank (copy_src st)" by simp
    show thesis
    proof (cases "bs = []")
      case True
      show thesis
        by (rule moved [of st1 "[]"])
          (use True None read rank inv' fin' assms(2) av in \<open>auto simp: server_copy_iter_def copy_parts st1_def\<close>)
    next
      case False
      from w.sink_step [OF assms(2), of bs] obtain wn werr d' where
          wr: "wr bs (copy_dst st) = ((wn, werr), d')" and wn: "wn \<le> length bs" and winv': "winv d'"
        and out': "out d' = out (copy_dst st) @ take wn bs" and short: "wn < length bs \<longrightarrow> werr \<noteq> None"
        by blast
      have take: "take (length bs) (copy_buf st1) = bs" by (simp add: st1_def)
      define st2 where "st2 = st1\<lparr>copy_dst := d', copy_total := copy_total st1 + word_of_nat wn\<rparr>"
      have st2: "(if wn > 0 then (st1\<lparr>copy_dst := d', copy_total := copy_total st1 + word_of_nat wn\<rparr>, AddBytesOut (word_of_nat wn) x)
            else (st1\<lparr>copy_dst := d'\<rparr>, x)) = (st2, AddBytesOut (word_of_nat wn) x)" for x
        by (simp add: st2_def)
      have dst1: "copy_dst st1 = copy_dst st" by (simp add: st1_def)
      show thesis
      proof (cases werr)
        case (Some er)
        have "\<exists>p d. winv d \<and> snd (fst (wr p d)) = Some er"
          using assms(2) wr Some by (intro exI [of _ bs] exI [of _ "copy_dst st"]) simp
        then show thesis
          by (intro failed [of er "snd (copy_check_write (length bs) wn werr st2)" wn bs])
            (use False read take wr wn out' av len in
              \<open>simp_all add: server_copy_iter_def server_copy_write_def st2 dst1 Some copy_check_write_def
                add_log_def Let_def, simp_all add: st2_def st1_def\<close>)
      next
        case ok: None
        with short wn have "wn = length bs" by simp
        with ok False read take wr wn out' av len None show thesis
          by (intro moved [of st2 bs])
            (simp_all add: server_copy_iter_def server_copy_write_def st2 dst1 copy_check_write_def
                copy_check_read_def add_log_def Let_def,
              simp_all add: st2_def st1_def inv' fin' rank winv')
      qed
    qed
  qed
qed

lemma copy_loop_sink:
  assumes "inv (copy_src st)" and "winv (copy_dst st)" and "copy_buf st \<noteq> []"
  shows "\<exists>r st' k m. go_loop (server_copy_iter rd wr) (st, g) =
        Some (r, st', AddBytesOut (word_of_nat k) (AddBytesIn (word_of_nat m) g))
      \<and> k \<le> m \<and> m \<le> length (avail (copy_src st))
      \<and> out (copy_dst st') = out (copy_dst st) @ take k (avail (copy_src st))
      \<and> copy_total st' = copy_total st + word_of_nat k
      \<and> length (copy_buf st') = length (copy_buf st)
      \<and> (r = None \<longrightarrow> k = length (avail (copy_src st)) \<and> fin (copy_src st) = EOF)
      \<and> ((r = (if fin (copy_src st) = EOF then None else Some (fin (copy_src st)))
            \<and> k = length (avail (copy_src st)) \<and> m = k \<and> avail (copy_src st') = [])
         \<or> (\<exists>p d. winv d \<and> snd (fst (wr p d)) \<noteq> None))"
  using assms
proof (induction "rank (copy_src st)" arbitrary: st g rule: less_induct)
  case less
  show ?case
  proof (cases rule: copy_iter_cases [OF less.prems, of g, case_names ended moved failed])
    case (ended r st')
    then show ?thesis by (intro exI [of _ r] exI [of _ st'] exI [of _ "0::nat"]) auto
  next
    case (failed bs wn e st')
    then obtain rest where "avail (copy_src st) = bs @ rest" by auto
    moreover from failed(7) have "\<exists>p d. winv d \<and> snd (fst (wr p d)) \<noteq> None" by force
    ultimately show ?thesis using failed
      by (intro exI [of _ "Some e"] exI [of _ st'] exI [of _ wn] exI [of _ "length bs"] conjI disjI2)
        simp_all
  next
    case (moved bs st1)
    define g1 where "g1 = AddBytesOut (word_of_nat (length bs)) (AddBytesIn (word_of_nat (length bs)) g)"
    from moved less.prems have "copy_buf st1 \<noteq> []" by auto
    from less.hyps [OF moved(6,3,4) this, of g1] obtain r st' k m where
        loop: "go_loop (server_copy_iter rd wr) (st1, g1) =
          Some (r, st', AddBytesOut (word_of_nat k) (AddBytesIn (word_of_nat m) g1))"
      and IH: "k \<le> m" "m \<le> length (avail (copy_src st1))"
        "out (copy_dst st') = out (copy_dst st1) @ take k (avail (copy_src st1))"
        "copy_total st' = copy_total st1 + word_of_nat k" "length (copy_buf st') = length (copy_buf st1)"
        "r = None \<longrightarrow> k = length (avail (copy_src st1)) \<and> fin (copy_src st1) = EOF"
        "(r = (if fin (copy_src st1) = EOF then None else Some (fin (copy_src st1)))
            \<and> k = length (avail (copy_src st1)) \<and> m = k \<and> avail (copy_src st') = [])
         \<or> (\<exists>p d. winv d \<and> snd (fst (wr p d)) \<noteq> None)"
      by blast
    have g: "AddBytesOut (word_of_nat k) (AddBytesIn (word_of_nat m) g1) =
        AddBytesOut (word_of_nat (length bs + k)) (AddBytesIn (word_of_nat (length bs + m)) g)"
      by (simp add: g1_def AddBytesIn_def AddBytesOut_def add.assoc)
    have again: "go_loop (server_copy_iter rd wr) (st, g) = go_loop (server_copy_iter rd wr) (st1, g1)"
      by (rule go_loop_again) (simp add: moved(1) g1_def)
    have all: "r = None \<longrightarrow> length bs + k = length (avail (copy_src st)) \<and> fin (copy_src st) = EOF"
      "(r = (if fin (copy_src st) = EOF then None else Some (fin (copy_src st)))
            \<and> length bs + k = length (avail (copy_src st)) \<and> length bs + m = length bs + k
            \<and> avail (copy_src st') = [])
         \<or> (\<exists>p d. winv d \<and> snd (fst (wr p d)) \<noteq> None)"
      using IH(6,7) moved(2,5) by auto
    show ?thesis
      by (rule exI [of _ r], rule exI [of _ st'], rule exI [of _ "length bs + k"],
          rule exI [of _ "length bs + m"], intro conjI all)
        (use loop IH(1-5) moved(2,7,8,9) g again in \<open>simp_all add: add.assoc\<close>)
  qed
qed

end

interpretation copy_net: copy_ends conn_read "\<lambda>_. True" conn_avail conn_fin conn_rank conn_write
  "\<lambda>_. True" "\<lambda>c. sent (cout c)"
  by unfold_locales

interpretation copy_up: copy_ends conn_read "\<lambda>_. True" conn_avail conn_fin conn_rank conn_write
  no_faults "\<lambda>c. sent (cout c)"
  by unfold_locales

lemma copy_buffer_pool:
  assumes "pool_wf p" and "pool_get choice p = (buf, p1)"
  shows "buf \<noteq> []" and "pool_wf (pool_put (Some (copy_buf st)) p1)"
proof -
  from pool_get_wf [OF assms] have wf: "length buf = bp_size p" "pool_wf p1" by simp_all
  with assms(1) show "buf \<noteq> []" by (auto simp: pool_wf_def)
  show "pool_wf (pool_put (Some (copy_buf st)) p1)" using pool_put_wf [OF wf(2)] by simp
qed

lemma no_faults_write: "no_faults d \<Longrightarrow> snd (fst (conn_write b d)) = None"
  using conn_write_ok [of d b] by auto

lemma copy_start_simps [simp]:
  "copy_src (copy_start d s b) = s" "copy_dst (copy_start d s b) = d" "copy_buf (copy_start d s b) = b"
  "copy_total (copy_start d s b) = 0" "copy_logs (copy_start d s b) = []"
  by (simp_all add: copy_start_def)

text \<open>
  C9: Whatever the segments in which the source, a stream that ends, delivers its bytes and whatever buffer the pool hands
  out, the server's copyBuffer returns, has written exactly the bytes of the source, in order, to
  a destination whose writes do not fail, returns their number and nil at the end of the stream
  (the error of the source otherwise), counts them once in and once out, and gives the pool back a
  buffer of its size.
\<close>
theorem copy_forwards_all:
  assumes "pool_wf p" and "no_faults dst"
  shows "\<exists>st p1.
    server_copy_buffer conn_read conn_write choice dst src p g =
      Some (((word_of_nat (length (conn_avail src)),
              if conn_fin src = EOF then None else Some (conn_fin src)), st), p1,
            AddBytesOut (word_of_nat (length (conn_avail src)))
              (AddBytesIn (word_of_nat (length (conn_avail src))) g))
    \<and> sent (cout (copy_dst st)) = sent (cout dst) @ conn_avail src
    \<and> conn_avail (copy_src st) = [] \<and> pool_wf p1"
proof -
  obtain buf p0 where get: "pool_get choice p = (buf, p0)" by fastforce
  note buf = copy_buffer_pool [OF assms(1) get]
  from copy_up.copy_loop_sink [of "copy_start dst src buf" g, unfolded copy_start_simps add_0_left,
      OF TrueI assms(2) buf(1)]
  obtain r st k m where
    loop: "go_loop (server_copy_iter conn_read conn_write) (copy_start dst src buf, g) =
        Some (r, st, AddBytesOut (word_of_nat k) (AddBytesIn (word_of_nat m) g))"
      "sent (cout (copy_dst st)) = sent (cout dst) @ take k (conn_avail src)"
      "copy_total st = word_of_nat k" "length (copy_buf st) = length buf"
    and "(r = (if conn_fin src = EOF then None else Some (conn_fin src))
        \<and> k = length (conn_avail src) \<and> m = k \<and> conn_avail (copy_src st) = [])
      \<or> (\<exists>p d. no_faults d \<and> snd (fst (conn_write p d)) \<noteq> None)"
    by blast
  then have "r = (if conn_fin src = EOF then None else Some (conn_fin src))"
    "k = length (conn_avail src)" "m = k" "conn_avail (copy_src st) = []"
    using no_faults_write by auto
  with loop get buf(2) [of st] show ?thesis by (auto simp: server_copy_buffer_def)
qed

text \<open>
  C33: When writes fail or are cut short, copyBuffer still returns, and what the destination got is
  exactly the first bytes of the source: the number of them is the total it returns and what the
  statistics count as sent; a nil error means that all of the source was forwarded and it ended
  with EOF.
\<close>
theorem copy_prefix_on_fault:
  assumes "pool_wf p"
  shows "\<exists>k m err st p1.
    server_copy_buffer conn_read conn_write choice dst src p g =
      Some (((word_of_nat k, err), st), p1, AddBytesOut (word_of_nat k) (AddBytesIn (word_of_nat m) g))
    \<and> k \<le> m \<and> m \<le> length (conn_avail src)
    \<and> sent (cout (copy_dst st)) = sent (cout dst) @ take k (conn_avail src)
    \<and> (if err = None then k = length (conn_avail src) \<and> conn_fin src = EOF else True) \<and> pool_wf p1"
proof -
  obtain buf p0 where get: "pool_get choice p = (buf, p0)" by fastforce
  note buf = copy_buffer_pool [OF assms(1) get]
  from copy_net.copy_loop_sink [of "copy_start dst src buf" g, unfolded copy_start_simps add_0_left,
      OF TrueI TrueI buf(1)]
  obtain r st k m where
    "go_loop (server_copy_iter conn_read conn_write) (copy_start dst src buf, g) =
        Some (r, st, AddBytesOut (word_of_nat k) (AddBytesIn (word_of_nat m) g))"
    "k \<le> m" "m \<le> length (conn_avail src)"
    "sent (cout (copy_dst st)) = sent (cout dst) @ take k (conn_avail src)"
    "copy_total st = word_of_nat k" "length (copy_buf st) = length buf"
    "r = None \<longrightarrow> k = length (conn_avail src) \<and> conn_fin src = EOF"
    by blast
  with get buf(2) [of st] show ?thesis
    by (intro exI [of _ k] exI [of _ m] exI [of _ r] exI [of _ st]
        exI [of _ "pool_put (Some (copy_buf st)) p0"]) (simp add: server_copy_buffer_def)
qed

definition fwd_src :: conn where
  "fwd_src = \<lparr>cin = \<lparr>segs = [[1, 2], [3]], in_end = EOF\<rparr>, cout = \<lparr>sent = [], faults = []\<rparr>, closed = False\<rparr>"

definition fwd_dst :: "(nat \<times> go_error) option list \<Rightarrow> conn" where
  "fwd_dst fs = \<lparr>cin = \<lparr>segs = [], in_end = EOF\<rparr>, cout = \<lparr>sent = [], faults = fs\<rparr>, closed = False\<rparr>"

theorem copy_forwards_all_witness:
  "\<exists>st p1. server_copy_buffer conn_read conn_write None (fwd_dst []) fwd_src DefaultBufferPool
      (initial_stats 0) =
      Some (((3, None), st), p1, AddBytesOut 3 (AddBytesIn 3 (initial_stats 0)))
    \<and> sent (cout (copy_dst st)) = [1, 2, 3]"
proof -
  have "no_faults (fwd_dst [])" by (simp add: no_faults_def fwd_dst_def)
  from copy_forwards_all [OF pool_wf_default this, of None fwd_src "initial_stats 0"]
  show ?thesis by (auto simp: fwd_src_def fwd_dst_def conn_avail_def in_avail_def)
qed

theorem copy_prefix_on_fault_witness:
  "\<exists>k m err st p1.
    server_copy_buffer conn_read conn_write None (fwd_dst [None, Some (0, ErrText ''broken pipe'')]) fwd_src
        DefaultBufferPool (initial_stats 0) =
      Some (((word_of_nat k, err), st), p1,
        AddBytesOut (word_of_nat k) (AddBytesIn (word_of_nat m) (initial_stats 0)))
    \<and> sent (cout (copy_dst st)) = take k [1, 2, 3]"
proof -
  note copy_prefix_on_fault [OF pool_wf_default, of None "fwd_dst [None, Some (0, ErrText ''broken pipe'')]"
      fwd_src "initial_stats 0"]
  moreover have "conn_avail fwd_src = [1, 2, 3]" "sent (cout (fwd_dst fs)) = []" for fs
    by (simp_all add: fwd_src_def fwd_dst_def conn_avail_def in_avail_def)
  ultimately show ?thesis by (simp only: append_Nil) blast
qed

section \<open>Join\<close>

text \<open>
  A \<open>net.Conn\<close> that was closed here fails every read and write from then on; that is how one
  goroutine of \<open>Join\<close> ends the other.
\<close>

definition closed_error :: go_error where
  "closed_error = ErrText ''use of closed network connection''"

definition live_read :: "nat \<Rightarrow> conn \<Rightarrow> ((bytes \<times> go_error option) \<times> conn) option" where
  "live_read n c = (if closed c then Some (([], Some closed_error), c) else conn_read n c)"

definition live_write :: "bytes \<Rightarrow> conn \<Rightarrow> (nat \<times> go_error option) \<times> conn" where
  "live_write p c = (if closed c then ((0, Some closed_error), c) else conn_write p c)"

text \<open>
  The goroutine that copies into \<open>c1\<close> and the one that copies into \<open>c2\<close>: in the loop, returned
  from \<open>copyBuffer\<close>, or ended after closing its destination. One step is one iteration of the
  loop, or the log line, the close and \<open>wg.Done\<close>. A read of one goroutine and the write that
  follows it touch halves of the connections the other goroutine does not, but for the close, which
  only the goroutine that writes to a connection does: so an iteration is atomic without loss. The
  iteration is an argument: the server's carries the statistics, the client's nothing.
\<close>

datatype goroutine = Copying bytes int64 | Returned int64 "go_error option" | Finished

datatype join_log = LogCopy copy_log | LogJoin nat int64 go_error

record 'x join_state =
  jc1 :: conn
  jc2 :: conn
  to1 :: goroutine
  to2 :: goroutine
  jextra :: 'x
  jlogs :: "join_log list"

definition copy_resume :: "conn \<Rightarrow> conn \<Rightarrow> bytes \<Rightarrow> int64 \<Rightarrow> (conn, conn) copy_state" where
  "copy_resume dst src buf tot =
     \<lparr>copy_src = src, copy_dst = dst, copy_buf = buf, copy_total = tot, copy_logs = []\<rparr>"

definition copy_next :: "go_error option option \<Rightarrow> (conn, conn) copy_state \<Rightarrow> goroutine" where
  "copy_next r st =
     (case r of None \<Rightarrow> Copying (copy_buf st) (copy_total st) | Some err \<Rightarrow> Returned (copy_total st) err)"

definition join_error_log :: "nat \<Rightarrow> int64 \<Rightarrow> go_error option \<Rightarrow> join_log list" where
  "join_error_log i n err =
     (case err of
        None \<Rightarrow> []
      | Some e \<Rightarrow> if e \<noteq> EOF \<and> \<not> is_closed_conn_error err then [LogJoin i n e] else [])"

inductive join_step for it where
  copy1: "to1 s = Copying buf tot
    \<Longrightarrow> it (copy_resume (jc1 s) (jc2 s) buf tot, jextra s) = Some (r, st, x)
    \<Longrightarrow> join_step it s (s\<lparr>jc1 := copy_dst st, jc2 := copy_src st, to1 := copy_next r st, jextra := x,
          jlogs := jlogs s @ map LogCopy (copy_logs st)\<rparr>)"
| close1: "to1 s = Returned n err
    \<Longrightarrow> join_step it s (s\<lparr>jc1 := conn_close (jc1 s), to1 := Finished,
          jlogs := jlogs s @ join_error_log 1 n err\<rparr>)"
| copy2: "to2 s = Copying buf tot
    \<Longrightarrow> it (copy_resume (jc2 s) (jc1 s) buf tot, jextra s) = Some (r, st, x)
    \<Longrightarrow> join_step it s (s\<lparr>jc2 := copy_dst st, jc1 := copy_src st, to2 := copy_next r st, jextra := x,
          jlogs := jlogs s @ map LogCopy (copy_logs st)\<rparr>)"
| close2: "to2 s = Returned n err
    \<Longrightarrow> join_step it s (s\<lparr>jc2 := conn_close (jc2 s), to2 := Finished,
          jlogs := jlogs s @ join_error_log 2 n err\<rparr>)"

definition join_start :: "conn \<Rightarrow> conn \<Rightarrow> bytes \<Rightarrow> bytes \<Rightarrow> 'x \<Rightarrow> 'x join_state" where
  "join_start c1 c2 b1 b2 x =
     \<lparr>jc1 = c1, jc2 = c2, to1 = Copying b1 0, to2 = Copying b2 0, jextra = x, jlogs = []\<rparr>"

text \<open>\<open>wg.Wait\<close> returns when both goroutines are done.\<close>

definition join_returned :: "'x join_state \<Rightarrow> bool" where
  "join_returned s \<longleftrightarrow> to1 s = Finished \<and> to2 s = Finished"

definition server_join_step :: "stats join_state \<Rightarrow> stats join_state \<Rightarrow> bool" where
  "server_join_step = join_step (server_copy_iter live_read live_write)"

definition client_join_step :: "unit join_state \<Rightarrow> unit join_state \<Rightarrow> bool" where
  "client_join_step =
     join_step (\<lambda>(st, u). map_option (\<lambda>(r, st'). (r, st', u)) (client_copy_iter live_read live_write st))"

definition live_avail :: "conn \<Rightarrow> bytes" where
  "live_avail c = (if closed c then [] else conn_avail c)"

definition live_fin :: "conn \<Rightarrow> go_error" where
  "live_fin c = (if closed c then closed_error else conn_fin c)"

lemma live_write_sink:
  "\<exists>wn werr d'. live_write p d = ((wn, werr), d') \<and> wn \<le> length p \<and> True
     \<and> sent (cout d') = sent (cout d) @ take wn p \<and> (wn < length p \<longrightarrow> werr \<noteq> None)"
  using conn_write_sink [of p d] by (auto simp: live_write_def)

interpretation live: byte_reader live_read "\<lambda>_. True" live_avail live_fin conn_rank
proof unfold_locales
  fix c :: conn and n :: nat
  assume "0 < n"
  show "\<exists>bs e c'. live_read n c = Some ((bs, e), c') \<and> live_avail c = bs @ live_avail c'
      \<and> length bs \<le> n \<and> True \<and> live_fin c' = live_fin c
      \<and> (case e of None \<Rightarrow> conn_rank c' < conn_rank c
         | Some er \<Rightarrow> er = live_fin c \<and> bs = [] \<and> live_avail c = [])"
  proof (cases "closed c")
    case True
    then show ?thesis by (simp add: live_read_def live_avail_def live_fin_def)
  next
    case False
    from net.rd_step [OF TrueI \<open>0 < n\<close>, of c] obtain bs e c' where
      c': "conn_read n c = Some ((bs, e), c')" "conn_avail c = bs @ conn_avail c'" "length bs \<le> n"
        "conn_fin c' = conn_fin c"
        "case e of None \<Rightarrow> conn_rank c' < conn_rank c
         | Some er \<Rightarrow> er = conn_fin c \<and> bs = [] \<and> conn_avail c = []"
      by blast
    from conn_read_cout [OF c'(1)] False have "\<not> closed c'" by simp
    with c' False show ?thesis by (simp add: live_read_def live_avail_def live_fin_def split: option.splits)
  qed
qed

interpretation live_copy: copy_ends live_read "\<lambda>_. True" live_avail live_fin conn_rank live_write
  "\<lambda>_. True" "\<lambda>c. sent (cout c)"
  by unfold_locales (rule live_write_sink)

lemma live_write_up:
  "no_faults d \<and> \<not> closed d \<Longrightarrow> \<exists>d'. live_write p d = ((length p, None), d')
     \<and> sent (cout d') = sent (cout d) @ p \<and> no_faults d' \<and> \<not> closed d'"
  using conn_write_ok [of d p] by (auto simp: live_write_def)

interpretation live_up: copy_ends live_read "\<lambda>_. True" live_avail live_fin conn_rank live_write
  "\<lambda>d. no_faults d \<and> \<not> closed d" "\<lambda>c. sent (cout c)"
  by unfold_locales (use live_write_up in fastforce)

lemma live_read_frame: "live_read n c = Some (r, c') \<Longrightarrow> cout c' = cout c \<and> closed c' = closed c"
  by (cases "closed c") (simp_all add: live_read_def conn_read_cout)

lemma live_write_frame: "live_write p c = (r, c') \<Longrightarrow> cin c' = cin c \<and> closed c' = closed c"
  by (cases "closed c") (simp_all add: live_write_def conn_write_cin)

lemma client_iter_frame:
  assumes "client_copy_iter live_read live_write st = Some (r, st')"
  shows "cout (copy_src st') = cout (copy_src st) \<and> closed (copy_src st') = closed (copy_src st)
    \<and> cin (copy_dst st') = cin (copy_dst st) \<and> closed (copy_dst st') = closed (copy_dst st)"
proof -
  from assms obtain n err st1 where read: "copy_read live_read st = Some ((n, err), st1)"
    by (auto simp: client_copy_iter_def split: option.splits)
  then have st1: "cout (copy_src st1) = cout (copy_src st)" "closed (copy_src st1) = closed (copy_src st)"
    "copy_dst st1 = copy_dst st"
    by (auto simp: copy_read_def dest: live_read_frame split: option.splits)
  define mid where "mid = (if n > 0 then client_copy_write live_write n st1 else (None, st1))"
  obtain wn werr d1 where wr: "live_write (take n (copy_buf st1)) (copy_dst st1) = ((wn, werr), d1)"
    by (metis prod.collapse)
  have mid: "copy_src (snd mid) = copy_src st1" "cin (copy_dst (snd mid)) = cin (copy_dst st1)"
    "closed (copy_dst (snd mid)) = closed (copy_dst st1)"
    using live_write_frame [OF wr]
    by (auto simp: mid_def client_copy_write_def copy_check_write_def add_log_def Let_def wr
        split: option.splits)
  have check: "copy_src (snd (copy_check_read err st2)) = copy_src st2"
    "copy_dst (snd (copy_check_read err st2)) = copy_dst st2" for st2 :: "(conn, conn) copy_state"
    by (simp_all add: copy_check_read_def add_log_def split: option.splits)
  from assms read have "(r, st') = (case mid of (Some r, st2) \<Rightarrow> (Some r, st2) | (None, st2) \<Rightarrow> copy_check_read err st2)"
    by (simp add: client_copy_iter_def mid_def)
  then consider "st' = snd mid" | "st' = snd (copy_check_read err (snd mid))"
    by (cases mid; cases "fst mid") (auto dest: sym)
  then show ?thesis by cases (simp_all add: st1 mid check)
qed

text \<open>
  Both iterations are the client's with something carried along; that is all the lemmas on
  \<open>Join\<close> use.
\<close>

definition dir_ok :: "conn \<Rightarrow> conn \<Rightarrow> conn \<Rightarrow> conn \<Rightarrow> goroutine \<Rightarrow> bool" where
  "dir_ok src0 dst0 src dst g \<longleftrightarrow>
     (\<exists>d rest. conn_avail src0 = d @ rest \<and> sent (cout dst) = sent (cout dst0) @ d
        \<and> (case g of
             Copying b n \<Rightarrow> b \<noteq> [] \<and> n = word_of_nat (length d) \<and> (closed src \<or> conn_avail src = rest)
           | Returned n err \<Rightarrow> n = word_of_nat (length d)
           | Finished \<Rightarrow> True))"

lemma dir_ok_frame:
  assumes "dir_ok src0 dst0 src dst g" and "cin src' = cin src" and "cout dst' = cout dst"
    and "closed src \<longrightarrow> closed src'"
  shows "dir_ok src0 dst0 src' dst' g"
  using assms by (cases g) (fastforce simp: dir_ok_def conn_avail_def)+

lemma conn_close_simps [simp]:
  "cin (conn_close c) = cin c" "cout (conn_close c) = cout c" "closed (conn_close c)"
  by (simp_all add: conn_close_def)

lemma dir_ok_close: "dir_ok src0 dst0 src dst (Returned n err) \<Longrightarrow> dir_ok src0 dst0 src (conn_close dst) Finished"
  by (auto simp: dir_ok_def)

definition gor_rank :: "conn \<Rightarrow> goroutine \<Rightarrow> nat" where
  "gor_rank src g = (case g of Copying b n \<Rightarrow> 2 + conn_rank src | Returned n err \<Rightarrow> 1 | Finished \<Rightarrow> 0)"

definition join_rank :: "'x join_state \<Rightarrow> nat" where
  "join_rank s = gor_rank (jc2 s) (to1 s) + gor_rank (jc1 s) (to2 s)"

definition join_ok :: "conn \<Rightarrow> conn \<Rightarrow> 'x join_state \<Rightarrow> bool" where
  "join_ok c1 c2 s \<longleftrightarrow> dir_ok c2 c1 (jc2 s) (jc1 s) (to1 s) \<and> dir_ok c1 c2 (jc1 s) (jc2 s) (to2 s)
     \<and> (to1 s = Finished \<longrightarrow> closed (jc1 s)) \<and> (to2 s = Finished \<longrightarrow> closed (jc2 s))"

inductive_cases join_stepE [consumes 1, case_names copy1 close1 copy2 close2]: "join_step it s s'"

locale joiner =
  fixes it :: "(conn, conn) copy_state \<times> 'x \<Rightarrow> (go_error option option \<times> (conn, conn) copy_state \<times> 'x) option"
  assumes it_copies: "map_option (map_prod id fst) (it y) = client_copy_iter live_read live_write (fst y)"
begin

lemma it_client: "it (st, x) = Some (r, st', x') \<Longrightarrow> client_copy_iter live_read live_write st = Some (r, st')"
  using it_copies [of "(st, x)"] by simp

lemma client_of_server:
  "client_copy_iter live_read live_write st =
     map_option (map_prod id fst) (server_copy_iter live_read live_write (st, initial_stats 0))"
  using server_copy_iter_refines [of live_read live_write "(st, initial_stats 0)"] by simp

lemma it_returns:
  assumes "copy_buf st \<noteq> []"
  shows "\<exists>r st' x'. it (st, x) = Some (r, st', x')"
proof -
  have "server_copy_iter live_read live_write (st, initial_stats 0) \<noteq> None"
    by (cases rule: live_copy.copy_iter_cases [OF TrueI TrueI assms, of "initial_stats 0"]) auto
  with it_copies [of "(st, x)"] client_of_server [of st] show ?thesis
    by (cases "it (st, x)") auto
qed

lemma it_iter:
  assumes "copy_buf st \<noteq> []" and "it (st, x) = Some (r, st', x')"
  obtains bs wn where
    "length (copy_buf st') = length (copy_buf st)" "wn \<le> length bs"
    "copy_total st' = copy_total st + word_of_nat wn"
    "\<exists>rest. live_avail (copy_src st) = bs @ rest"
    "sent (cout (copy_dst st')) = sent (cout (copy_dst st)) @ take wn bs"
    "r = None \<Longrightarrow> wn = length bs \<and> live_avail (copy_src st) = bs @ live_avail (copy_src st')
       \<and> conn_rank (copy_src st') < conn_rank (copy_src st)"
proof -
  from it_client [OF assms(2)] client_of_server [of st]
  obtain g' where it: "server_copy_iter live_read live_write (st, initial_stats 0) = Some (r, st', g')"
    by auto
  show thesis
  proof (cases rule: live_copy.copy_iter_cases [OF TrueI TrueI assms(1), of "initial_stats 0",
        case_names ended moved failed])
    case (ended r1 st1)
    with it have "r = Some r1" "st' = st1" by simp_all
    with ended show thesis by (intro that [where bs = "[]" and wn = 0]) simp_all
  next
    case (moved bs st1)
    with it have "r = None" "st' = st1" by simp_all
    with moved show thesis by (intro that [where bs = bs and wn = "length bs"]) simp_all
  next
    case (failed bs wn e st1)
    with it have "r = Some (Some e)" "st' = st1" by simp_all
    with failed show thesis by (intro that [where bs = bs and wn = wn]) simp_all
  qed
qed

text \<open>Where nothing fails, an iteration that returns found its source at an end.\<close>

lemma it_iter_up:
  assumes "copy_buf st \<noteq> []" and "no_faults (copy_dst st)" and "\<not> closed (copy_dst st)"
    and "it (st, x) = Some (r, st', x')"
  shows "no_faults (copy_dst st') \<and> (r = None \<or> live_avail (copy_src st) = [] \<and> copy_dst st' = copy_dst st)"
proof -
  have client: "map_option (map_prod id fst) (it (st, x)) =
      map_option (map_prod id fst) (server_copy_iter live_read live_write (st, initial_stats 0))"
    using server_copy_iter_refines [of live_read live_write "(st, initial_stats 0)"] it_copies [of "(st, x)"] by simp
  have "no_faults (copy_dst st) \<and> \<not> closed (copy_dst st)" using assms(2,3) by simp
  then show ?thesis
  proof (cases rule: live_up.copy_iter_cases [OF TrueI _ assms(1), of "initial_stats 0",
        case_names up ended moved failed])
    case (ended r st')
    with client assms show ?thesis by auto
  next
    case (moved bs st')
    with client assms show ?thesis by auto
  next
    case (failed bs wn e st')
    then obtain p d where "no_faults d" "\<not> closed d" "snd (fst (live_write p d)) = Some e" by blast
    with conn_write_ok [of d p] show ?thesis by (auto simp: live_write_def)
  qed
qed

text \<open>One direction over one iteration.\<close>

lemma dir_iter:
  assumes "dir_ok src0 dst0 src dst (Copying buf n)"
  obtains r st x' where "it (copy_resume dst src buf n, x) = Some (r, st, x')"
proof -
  from assms have "copy_buf (copy_resume dst src buf n) \<noteq> []" by (auto simp: dir_ok_def copy_resume_def)
  from it_returns [OF this] that show thesis by metis
qed

lemma dir_iter_ok:
  assumes "dir_ok src0 dst0 src dst (Copying buf n)"
    and "it (copy_resume dst src buf n, x) = Some (r, st, x')"
  shows "dir_ok src0 dst0 (copy_src st) (copy_dst st) (copy_next r st)"
    and "gor_rank (copy_src st) (copy_next r st) < gor_rank src (Copying buf n)"
proof -
  from assms(1) have buf: "copy_buf (copy_resume dst src buf n) \<noteq> []"
    by (auto simp: dir_ok_def copy_resume_def)
  note fr = client_iter_frame [OF it_client [OF assms(2)], unfolded copy_resume_def copy_state.simps]
  obtain bs wn where
      it: "length (copy_buf st) = length buf" "wn \<le> length bs" "copy_total st = n + word_of_nat wn"
        "sent (cout (copy_dst st)) = sent (cout dst) @ take wn bs"
    and bs: "\<exists>rest. live_avail src = bs @ rest"
    and again: "r = None \<Longrightarrow> wn = length bs \<and> live_avail src = bs @ live_avail (copy_src st)
       \<and> conn_rank (copy_src st) < conn_rank src"
    by (rule it_iter [OF buf assms(2)]) (simp add: copy_resume_def)
  from assms(1) obtain d rest where d: "conn_avail src0 = d @ rest" "sent (cout dst) = sent (cout dst0) @ d"
      "n = word_of_nat (length d)" "closed src \<or> conn_avail src = rest" "buf \<noteq> []"
    unfolding dir_ok_def by auto
  show "gor_rank (copy_src st) (copy_next r st) < gor_rank src (Copying buf n)"
    using again by (cases r) (auto simp: gor_rank_def copy_next_def)
  obtain bs2 where split: "rest = take wn bs @ bs2"
    and still: "r = None \<longrightarrow> closed src \<or> conn_avail (copy_src st) = bs2"
  proof (cases "closed src")
    case True
    with bs have "bs = []" by (auto simp: live_avail_def)
    with True that [of rest] show thesis by simp
  next
    case False
    with bs d(4) obtain q where "rest = bs @ q" by (auto simp: live_avail_def)
    with False d(4) again fr that [of "drop wn bs @ q"] show thesis
      by (auto simp: live_avail_def)
  qed
  have buf': "copy_buf st \<noteq> []" using d(5) it(1) by auto
  have next_case: "case copy_next r st of
      Copying b m \<Rightarrow> b \<noteq> [] \<and> m = word_of_nat (length (d @ take wn bs))
        \<and> (closed (copy_src st) \<or> conn_avail (copy_src st) = bs2)
    | Returned m err \<Rightarrow> m = word_of_nat (length (d @ take wn bs))
    | Finished \<Rightarrow> True"
    using buf' still fr it(2,3) d(3) by (cases r) (simp_all add: copy_next_def min_absorb2)
  show "dir_ok src0 dst0 (copy_src st) (copy_dst st) (copy_next r st)"
    unfolding dir_ok_def
    by (rule exI [of _ "d @ take wn bs"], rule exI [of _ bs2], intro conjI next_case)
      (simp_all add: d(1,2) it(4) split)
qed

lemma join_ok_step:
  assumes "join_step it s s'" and "join_ok c1 c2 s"
  shows "join_ok c1 c2 s' \<and> join_rank s' < join_rank s"
  using assms(1)
proof (cases rule: join_stepE)
  case (copy1 buf n r st x)
  with assms(2) have "dir_ok c2 c1 (jc2 s) (jc1 s) (Copying buf n)" by (simp add: join_ok_def)
  note dir = dir_iter_ok [OF this copy1(3)]
  note fr = client_iter_frame [OF it_client [OF copy1(3)], unfolded copy_resume_def copy_state.simps]
  have "dir_ok c1 c2 (copy_dst st) (copy_src st) (to2 s)"
    using assms(2) fr by (auto simp: join_ok_def intro: dir_ok_frame)
  moreover have "gor_rank (copy_dst st) (to2 s) = gor_rank (jc1 s) (to2 s)"
    using fr by (simp add: gor_rank_def split: goroutine.splits)
  moreover have "copy_next r st \<noteq> Finished" by (simp add: copy_next_def split: option.splits)
  ultimately show ?thesis using dir copy1 assms(2) fr by (simp add: join_ok_def join_rank_def)
next
  case (close1 n err)
  with assms(2) have "dir_ok c2 c1 (jc2 s) (conn_close (jc1 s)) Finished"
    by (auto simp: join_ok_def intro: dir_ok_close)
  moreover have "dir_ok c1 c2 (conn_close (jc1 s)) (jc2 s) (to2 s)"
    using assms(2) by (auto simp: join_ok_def intro: dir_ok_frame)
  ultimately show ?thesis using close1 assms(2)
    by (simp add: join_ok_def join_rank_def gor_rank_def split: goroutine.splits)
next
  case (copy2 buf n r st x)
  with assms(2) have "dir_ok c1 c2 (jc1 s) (jc2 s) (Copying buf n)" by (simp add: join_ok_def)
  note dir = dir_iter_ok [OF this copy2(3)]
  note fr = client_iter_frame [OF it_client [OF copy2(3)], unfolded copy_resume_def copy_state.simps]
  have "dir_ok c2 c1 (copy_dst st) (copy_src st) (to1 s)"
    using assms(2) fr by (auto simp: join_ok_def intro: dir_ok_frame)
  moreover have "gor_rank (copy_dst st) (to1 s) = gor_rank (jc2 s) (to1 s)"
    using fr by (simp add: gor_rank_def split: goroutine.splits)
  moreover have "copy_next r st \<noteq> Finished" by (simp add: copy_next_def split: option.splits)
  ultimately show ?thesis using dir copy2 assms(2) fr by (simp add: join_ok_def join_rank_def)
next
  case (close2 n err)
  with assms(2) have "dir_ok c1 c2 (jc1 s) (conn_close (jc2 s)) Finished"
    by (auto simp: join_ok_def intro: dir_ok_close)
  moreover have "dir_ok c2 c1 (conn_close (jc2 s)) (jc1 s) (to1 s)"
    using assms(2) by (auto simp: join_ok_def intro: dir_ok_frame)
  ultimately show ?thesis using close2 assms(2)
    by (simp add: join_ok_def join_rank_def gor_rank_def split: goroutine.splits)
qed

lemma join_progress:
  assumes "join_ok c1 c2 s" and "\<not> join_returned s"
  shows "\<exists>s'. join_step it s s'"
proof -
  from assms(1) have dirs: "dir_ok c2 c1 (jc2 s) (jc1 s) (to1 s)" "dir_ok c1 c2 (jc1 s) (jc2 s) (to2 s)"
    by (simp_all add: join_ok_def)
  from assms(2) consider "\<exists>n err. to1 s = Returned n err" | "\<exists>n err. to2 s = Returned n err"
    | "\<exists>buf n. to1 s = Copying buf n" | "\<exists>buf n. to2 s = Copying buf n"
    unfolding join_returned_def by (metis goroutine.exhaust)
  then show ?thesis
  proof cases
    case 3
    then obtain buf n where "to1 s = Copying buf n" by blast
    with dirs(1) dir_iter [of c2 c1 "jc2 s" "jc1 s" buf n "jextra s"] show ?thesis
      by (metis join_step.copy1)
  next
    case 4
    then obtain buf n where "to2 s = Copying buf n" by blast
    with dirs(2) dir_iter [of c1 c2 "jc1 s" "jc2 s" buf n "jextra s"] show ?thesis
      by (metis join_step.copy2)
  qed (metis join_step.close1 join_step.close2)+
qed

lemma join_start_ok:
  assumes "b1 \<noteq> []" and "b2 \<noteq> []"
  shows "join_ok c1 c2 (join_start c1 c2 b1 b2 x)"
  using assms by (simp add: join_ok_def join_start_def dir_ok_def)

lemma join_run_ok:
  assumes "(join_step it ^^ n) s s'" and "join_ok c1 c2 s"
  shows "join_ok c1 c2 s' \<and> join_rank s' + n \<le> join_rank s"
  using assms(1)
proof (induction n arbitrary: s')
  case 0
  with assms(2) show ?case by simp
next
  case (Suc n)
  then obtain s1 where "(join_step it ^^ n) s s1" "join_step it s1 s'" by auto
  with Suc.IH join_ok_step [of s1 s' c1 c2] show ?case by force
qed

end

lemma dir_ok_sent:
  "dir_ok src0 dst0 src dst g \<Longrightarrow> \<exists>k.
     sent (cout dst) = sent (cout dst0) @ take k (conn_avail src0)"
  unfolding dir_ok_def by (metis append_eq_conv_conj)

interpretation server_join: joiner "server_copy_iter live_read live_write"
  by unfold_locales (rule server_copy_iter_refines)

interpretation client_join: joiner
  "\<lambda>(st, u :: unit). map_option (\<lambda>(r, st'). (r, st', u)) (client_copy_iter live_read live_write st)"
  by unfold_locales (simp add: option.map_comp option.map_ident comp_def case_prod_beta map_prod_def split: prod.splits)

text \<open>
  C10: Between two streams that end, in every interleaving of its two goroutines, Join on the server writes to each connection
  nothing but a prefix of what the other one delivered, in order and with nothing mixed in; it never
  makes more steps than its start allows, always has a next step until both goroutines have ended,
  and then both connections are closed.
\<close>
theorem server_join_safe_and_ends:
  assumes "b1 \<noteq> []" and "b2 \<noteq> []"
    and "(server_join_step ^^ n) (join_start c1 c2 b1 b2 g) s"
  shows "\<exists>k l. sent (cout (jc1 s)) = sent (cout c1) @ take k (conn_avail c2)
    \<and> sent (cout (jc2 s)) = sent (cout c2) @ take l (conn_avail c1)
    \<and> n \<le> 4 + conn_rank c1 + conn_rank c2
    \<and> (join_returned s \<or> (\<exists>s'. server_join_step s s'))
    \<and> (if join_returned s then closed (jc1 s) \<and> closed (jc2 s) else True)"
proof -
  from server_join.join_run_ok [OF assms(3) [unfolded server_join_step_def] server_join.join_start_ok]
  have ok: "join_ok c1 c2 s" and "join_rank s + n \<le> join_rank (join_start c1 c2 b1 b2 g)"
    using assms(1,2) by auto
  then have "n \<le> 4 + conn_rank c1 + conn_rank c2"
    by (simp add: join_rank_def join_start_def gor_rank_def)
  moreover from ok obtain k l where "sent (cout (jc1 s)) = sent (cout c1) @ take k (conn_avail c2)"
    "sent (cout (jc2 s)) = sent (cout c2) @ take l (conn_avail c1)"
    unfolding join_ok_def by (meson dir_ok_sent)
  moreover from ok server_join.join_progress [OF ok]
  have "join_returned s \<or> (\<exists>s'. server_join_step s s')" by (auto simp: server_join_step_def)
  moreover from ok have "if join_returned s then closed (jc1 s) \<and> closed (jc2 s) else True"
    by (simp add: join_ok_def join_returned_def)
  ultimately show ?thesis by blast
qed

text \<open>
  When no write fails, the goroutine that returns first does so at the end of its source, so its
  direction is complete; \<open>join_up\<close> is that as an invariant.
\<close>

definition join_full :: "conn \<Rightarrow> conn \<Rightarrow> 'x join_state \<Rightarrow> bool" where
  "join_full c1 c2 s \<longleftrightarrow> sent (cout (jc1 s)) = sent (cout c1) @ conn_avail c2
     \<or> sent (cout (jc2 s)) = sent (cout c2) @ conn_avail c1"

definition copying :: "goroutine \<Rightarrow> bool" where
  "copying g = (case g of Copying b n \<Rightarrow> True | _ \<Rightarrow> False)"

definition join_up :: "conn \<Rightarrow> conn \<Rightarrow> 'x join_state \<Rightarrow> bool" where
  "join_up c1 c2 s \<longleftrightarrow> join_ok c1 c2 s \<and> no_faults (jc1 s) \<and> no_faults (jc2 s)
     \<and> (closed (jc1 s) \<longrightarrow> to1 s = Finished) \<and> (closed (jc2 s) \<longrightarrow> to2 s = Finished)
     \<and> (copying (to1 s) \<and> copying (to2 s) \<or> join_full c1 c2 s)"

lemma no_faults_cong: "cout c' = cout c \<Longrightarrow> no_faults c' = no_faults c"
  by (simp add: no_faults_def)

lemma dir_full_mono:
  assumes "dir_ok src0 dst0 src dst g" and "prefix (sent (cout dst1)) (sent (cout dst))"
    and "sent (cout dst1) = sent (cout dst0) @ conn_avail src0"
  shows "sent (cout dst) = sent (cout dst0) @ conn_avail src0"
  using assms by (auto simp: dir_ok_def prefix_def)

context joiner
begin

lemma join_up_copy:
  assumes "dir_ok src0 dst0 src dst (Copying buf n)" and "no_faults dst" and "\<not> closed dst"
    and "it (copy_resume dst src buf n, x) = Some (r, st, x')"
  shows "no_faults (copy_dst st)" and "prefix (sent (cout dst)) (sent (cout (copy_dst st)))"
    and "\<not> closed src \<Longrightarrow> r \<noteq> None \<Longrightarrow> sent (cout (copy_dst st)) = sent (cout dst0) @ conn_avail src0"
proof -
  from assms(1) have buf: "copy_buf (copy_resume dst src buf n) \<noteq> []"
    by (auto simp: dir_ok_def copy_resume_def)
  from it_iter_up [OF buf, of x r st x'] assms(2-4)
  have up: "no_faults (copy_dst st)" "r = None \<or> live_avail src = [] \<and> copy_dst st = dst"
    by (simp_all add: copy_resume_def)
  then show "no_faults (copy_dst st)" by simp
  obtain bs wn where "sent (cout (copy_dst st)) = sent (cout dst) @ take wn bs"
    by (rule it_iter [OF buf assms(4)]) (simp add: copy_resume_def)
  then show "prefix (sent (cout dst)) (sent (cout (copy_dst st)))" by simp
  assume "\<not> closed src" "r \<noteq> None"
  with up(2) assms(1) show "sent (cout (copy_dst st)) = sent (cout dst0) @ conn_avail src0"
    by (auto simp: dir_ok_def live_avail_def)
qed

lemma join_up_step:
  assumes "join_step it s s'" and "join_up c1 c2 s"
  shows "join_up c1 c2 s'"
proof -
  from assms have ok: "join_ok c1 c2 s" "join_ok c1 c2 s'" using join_ok_step by (auto simp: join_up_def)
  from ok(2) have dirs: "dir_ok c2 c1 (jc2 s') (jc1 s') (to1 s')" "dir_ok c1 c2 (jc1 s') (jc2 s') (to2 s')"
    by (simp_all add: join_ok_def)
  from assms(1) show ?thesis
  proof (cases rule: join_stepE)
    case (copy1 buf n r st x)
    with ok(1) have dir: "dir_ok c2 c1 (jc2 s) (jc1 s) (Copying buf n)" by (simp add: join_ok_def)
    from assms(2) copy1 have up: "no_faults (jc1 s)" "\<not> closed (jc1 s)" by (auto simp: join_up_def)
    note up = join_up_copy [OF dir up copy1(3)]
    note fr = client_iter_frame [OF it_client [OF copy1(3)], unfolded copy_resume_def copy_state.simps]
    have "copying (to1 s') \<and> copying (to2 s') \<or> join_full c1 c2 s'"
    proof (cases "join_full c1 c2 s")
      case True
      with copy1 up(2) fr dir_full_mono [OF dirs(1)] show ?thesis by (auto simp: join_full_def)
    next
      case False
      with assms(2) have both: "copying (to2 s)" by (simp add: join_up_def)
      with assms(2) have "\<not> closed (jc2 s)" by (auto simp: join_up_def copying_def)
      with both up(3) copy1 show ?thesis
        by (cases r) (auto simp: copying_def copy_next_def join_full_def)
    qed
    moreover have "no_faults (jc2 s')" using assms(2) copy1 fr by (simp add: join_up_def no_faults_def)
    moreover have "copy_next r st \<noteq> Finished" by (simp add: copy_next_def split: option.splits)
    ultimately show ?thesis using assms(2) copy1(1) fr up(1) ok(2) copy1(2)
      by (simp add: join_up_def)
  next
    case (close1 n err)
    with assms(2) ok show ?thesis
      by (auto simp: join_up_def copying_def join_full_def no_faults_def)
  next
    case (copy2 buf n r st x)
    with ok(1) have dir: "dir_ok c1 c2 (jc1 s) (jc2 s) (Copying buf n)" by (simp add: join_ok_def)
    from assms(2) copy2 have up: "no_faults (jc2 s)" "\<not> closed (jc2 s)" by (auto simp: join_up_def)
    note up = join_up_copy [OF dir up copy2(3)]
    note fr = client_iter_frame [OF it_client [OF copy2(3)], unfolded copy_resume_def copy_state.simps]
    have "copying (to1 s') \<and> copying (to2 s') \<or> join_full c1 c2 s'"
    proof (cases "join_full c1 c2 s")
      case True
      with copy2 up(2) fr dir_full_mono [OF dirs(2)] show ?thesis by (auto simp: join_full_def)
    next
      case False
      with assms(2) have both: "copying (to1 s)" by (simp add: join_up_def)
      with assms(2) have "\<not> closed (jc1 s)" by (auto simp: join_up_def copying_def)
      with both up(3) copy2 show ?thesis
        by (cases r) (auto simp: copying_def copy_next_def join_full_def)
    qed
    moreover have "no_faults (jc1 s')" using assms(2) copy2 fr by (simp add: join_up_def no_faults_def)
    moreover have "copy_next r st \<noteq> Finished" by (simp add: copy_next_def split: option.splits)
    ultimately show ?thesis using assms(2) copy2(1) fr up(1) ok(2) copy2(2)
      by (simp add: join_up_def)
  next
    case (close2 n err)
    with assms(2) ok show ?thesis
      by (auto simp: join_up_def copying_def join_full_def no_faults_def)
  qed
qed

lemma join_up_run:
  assumes "(join_step it)\<^sup>*\<^sup>* s s'" and "join_up c1 c2 s"
  shows "join_up c1 c2 s'"
  using assms by induction (auto intro: join_up_step)

end

text \<open>
  If no write fails, Join returns only after it has forwarded everything one of the two
  connections delivered.
\<close>
theorem server_join_delivers_one_side:
  assumes "b1 \<noteq> []" and "b2 \<noteq> []" and "no_faults c1" and "no_faults c2"
    and "\<not> closed c1" and "\<not> closed c2"
    and "server_join_step\<^sup>*\<^sup>* (join_start c1 c2 b1 b2 g) s" and "join_returned s"
  shows "sent (cout (jc1 s)) = sent (cout c1) @ conn_avail c2
    \<or> sent (cout (jc2 s)) = sent (cout c2) @ conn_avail c1"
proof -
  have "join_up c1 c2 (join_start c1 c2 b1 b2 g)"
    using assms(3-6) server_join.join_start_ok [OF assms(1,2)]
    by (simp add: join_up_def join_start_def copying_def)
  from server_join.join_up_run [OF assms(7) [unfolded server_join_step_def] this] assms(8)
  show ?thesis by (auto simp: join_up_def join_returned_def copying_def join_full_def)
qed

lemma half_close_run:
  assumes "b1 \<noteq> []" and "b2 \<noteq> []" and "\<not> closed c1" and "\<not> closed c2"
    and "cin c2 = \<lparr>segs = [], in_end = EOF\<rparr>"
  shows "\<exists>s. server_join_step\<^sup>*\<^sup>* (join_start c1 c2 b1 b2 g) s \<and> join_returned s
    \<and> sent (cout (jc2 s)) = sent (cout c2)"
proof -
  define s0 where "s0 = join_start c1 c2 b1 b2 g"
  define s1 where "s1 = s0\<lparr>to1 := Returned 0 None\<rparr>"
  define s2 where "s2 = s1\<lparr>jc1 := conn_close c1, to1 := Finished\<rparr>"
  define s3 where "s3 = s2\<lparr>to2 := Returned 0 (Some closed_error)\<rparr>"
  define s4 where "s4 = s3\<lparr>jc2 := conn_close c2, to2 := Finished\<rparr>"
  note defs = s0_def s1_def s2_def s3_def s4_def join_start_def
  have quiet: "is_closed_conn_error (Some closed_error)"
    by (simp add: is_closed_conn_error_def closed_error_def contains_def)
  then have no_log: "closed_error \<noteq> EOF" "join_error_log i n (Some closed_error) = []" for i n
    by (simp_all add: closed_error_def join_error_log_def)
  have "server_copy_iter live_read live_write (copy_resume c1 c2 b1 0, g) = Some (Some None, copy_resume c1 c2 b1 0, g)"
    using assms(4,5) by (simp add: server_copy_iter_def copy_read_def copy_resume_def live_read_def
        conn_read_def copy_check_read_def)
  from join_step.copy1 [where it = "server_copy_iter live_read live_write" and s = s0 and buf = b1 and tot = 0 and r = "Some None"
        and st = "copy_resume c1 c2 b1 0" and x = g] this
  have 1: "server_join_step s0 s1"
    by (simp add: defs server_join_step_def copy_resume_def copy_next_def)
  have 2: "server_join_step s1 s2"
    using join_step.close1 [of s1 0 None] by (simp add: defs server_join_step_def join_error_log_def)
  have "server_copy_iter live_read live_write (copy_resume c2 (conn_close c1) b2 0, g) =
      Some (Some (Some closed_error), copy_resume c2 (conn_close c1) b2 0, g)"
    using no_log(1) quiet by (simp add: server_copy_iter_def copy_read_def copy_resume_def live_read_def
        copy_check_read_def add_log_def)
  from join_step.copy2 [where it = "server_copy_iter live_read live_write" and s = s2 and buf = b2 and tot = 0
        and r = "Some (Some closed_error)" and st = "copy_resume c2 (conn_close c1) b2 0" and x = g] this
  have 3: "server_join_step s2 s3"
    by (simp add: defs server_join_step_def copy_resume_def copy_next_def)
  have 4: "server_join_step s3 s4"
    using join_step.close2 [of s3 0 "Some closed_error"] no_log(2) by (simp add: defs server_join_step_def)
  from 1 2 3 4 have "server_join_step\<^sup>*\<^sup>* s0 s4"
    by (meson converse_rtranclp_into_rtranclp rtranclp.rtrancl_refl)
  then show ?thesis by (intro exI [of _ s4]) (simp add: defs join_returned_def)
qed

text \<open>
  C34: A half-close cuts the other direction: when c2 has nothing to send and ends with EOF (its peer
  only finished writing), Join can close c1 at once and return without having forwarded a byte of
  what c1 has to say, whatever that is.
\<close>
theorem join_half_close_loses_response:
  assumes "b1 \<noteq> []" and "b2 \<noteq> []" and "\<not> closed c1" and "\<not> closed c2"
    and "cin c2 = \<lparr>segs = [], in_end = EOF\<rparr>"
  shows "\<exists>s. server_join_step\<^sup>*\<^sup>* (join_start c1 c2 b1 b2 g) s \<and> join_returned s
    \<and> sent (cout (jc2 s)) = sent (cout c2)"
  using half_close_run [OF assms] .

lemma fwd_conns_up [simp]:
  "no_faults fwd_src" "no_faults (fwd_dst [])" "\<not> closed fwd_src" "\<not> closed (fwd_dst fs)"
  "cin (fwd_dst fs) = \<lparr>segs = [], in_end = EOF\<rparr>" "sent (cout fwd_src) = []" "sent (cout (fwd_dst fs)) = []"
  "conn_avail fwd_src = [1, 2, 3]" "conn_avail (fwd_dst fs) = []"
  by (simp_all add: no_faults_def fwd_src_def fwd_dst_def conn_avail_def in_avail_def)

theorem join_half_close_loses_response_witness:
  "\<exists>s. server_join_step\<^sup>*\<^sup>* (join_start fwd_src (fwd_dst []) [0] [0] (initial_stats 0)) s \<and> join_returned s
    \<and> sent (cout (jc2 s)) = [] \<and> conn_avail fwd_src = [1, 2, 3]"
  using join_half_close_loses_response [of "[0]" "[0]" fwd_src "fwd_dst []" "initial_stats 0"] by simp

theorem server_join_delivers_one_side_witness:
  "\<exists>s. server_join_step\<^sup>*\<^sup>* (join_start fwd_src (fwd_dst []) [0] [0] (initial_stats 0)) s
    \<and> join_returned s \<and> (sent (cout (jc1 s)) = [] \<or> sent (cout (jc2 s)) = [1, 2, 3])"
proof -
  obtain s where s: "server_join_step\<^sup>*\<^sup>* (join_start fwd_src (fwd_dst []) [0] [0] (initial_stats 0)) s"
    "join_returned s"
    using half_close_run [of "[0]" "[0]" fwd_src "fwd_dst []" "initial_stats 0"] by auto
  from server_join_delivers_one_side [OF _ _ _ _ _ _ this] have
    "sent (cout (jc1 s)) = [] \<or> sent (cout (jc2 s)) = [1, 2, 3]" by simp
  with s show ?thesis by blast
qed

theorem server_join_safe_and_ends_witness:
  "\<exists>n s k l. (server_join_step ^^ n) (join_start fwd_src (fwd_dst []) [0] [0] (initial_stats 0)) s
    \<and> join_returned s \<and> closed (jc1 s) \<and> closed (jc2 s)
    \<and> sent (cout (jc1 s)) = take k [] \<and> sent (cout (jc2 s)) = take l [1, 2, 3]"
proof -
  obtain s where s: "server_join_step\<^sup>*\<^sup>* (join_start fwd_src (fwd_dst []) [0] [0] (initial_stats 0)) s"
    "join_returned s"
    using half_close_run [of "[0]" "[0]" fwd_src "fwd_dst []" "initial_stats 0"] by auto
  from rtranclp_imp_relpowp [OF s(1)] obtain n where
    n: "(server_join_step ^^ n) (join_start fwd_src (fwd_dst []) [0] [0] (initial_stats 0)) s" by blast
  from server_join_safe_and_ends [OF _ _ n] s(2) obtain k l where
    "sent (cout (jc1 s)) = take k []" "sent (cout (jc2 s)) = take l [1, 2, 3]"
    "closed (jc1 s)" "closed (jc2 s)" by auto
  with n s(2) show ?thesis by blast
qed

definition join_forget :: "'x join_state \<Rightarrow> unit join_state" where
  "join_forget s =
     \<lparr>jc1 = jc1 s, jc2 = jc2 s, to1 = to1 s, to2 = to2 s, jextra = (), jlogs = jlogs s\<rparr>"

text \<open>
  Join on the client is Join on the server without the statistics: forgetting the counters, the
  steps of the one are exactly the steps of the other, log lines included.
\<close>
theorem client_join_is_server_join:
  "client_join_step (join_forget s) t \<longleftrightarrow> (\<exists>s'. server_join_step s s' \<and> t = join_forget s')"
proof
  have iter: "client_copy_iter live_read live_write st =
      map_option (\<lambda>(r, st', g). (r, st')) (server_copy_iter live_read live_write (st, g))" for st g
    using server_copy_iter_refines [of live_read live_write "(st, g)"]
    by (cases "server_copy_iter live_read live_write (st, g)") auto
  assume "client_join_step (join_forget s) t"
  then show "\<exists>s'. server_join_step s s' \<and> t = join_forget s'"
    unfolding client_join_step_def
  proof (cases rule: join_stepE)
    case (copy1 buf n r st x)
    with iter [of _ "jextra s"] obtain g' where
      "server_copy_iter live_read live_write (copy_resume (jc1 s) (jc2 s) buf n, jextra s) = Some (r, st, g')"
      by (auto simp: join_forget_def)
    from join_step.copy1 [where it = "server_copy_iter live_read live_write" and s = s and r = r and st = st and x = g', OF _ this] copy1 show ?thesis
      by (force simp: server_join_step_def join_forget_def)
  next
    case (close1 n err)
    with join_step.close1 [of s n err] show ?thesis by (force simp: server_join_step_def join_forget_def)
  next
    case (copy2 buf n r st x)
    with iter [of _ "jextra s"] obtain g' where
      "server_copy_iter live_read live_write (copy_resume (jc2 s) (jc1 s) buf n, jextra s) = Some (r, st, g')"
      by (auto simp: join_forget_def)
    from join_step.copy2 [where it = "server_copy_iter live_read live_write" and s = s and r = r and st = st and x = g', OF _ this] copy2 show ?thesis
      by (force simp: server_join_step_def join_forget_def)
  next
    case (close2 n err)
    with join_step.close2 [of s n err] show ?thesis by (force simp: server_join_step_def join_forget_def)
  qed
next
  let ?it = "\<lambda>(st, u :: unit). map_option (\<lambda>(r, st'). (r, st', u)) (client_copy_iter live_read live_write st)"
  have iter: "server_copy_iter live_read live_write (st, g) = Some (r, st', g') \<Longrightarrow>
      ?it (st, ()) = Some (r, st', ())" for st g r st' g'
    using server_copy_iter_refines [of live_read live_write "(st, g)"] by auto
  assume "\<exists>s'. server_join_step s s' \<and> t = join_forget s'"
  then obtain s' where step: "server_join_step s s'" and t: "t = join_forget s'" by blast
  from step have "join_step ?it (join_forget s) (join_forget s')"
    unfolding server_join_step_def
  proof (cases rule: join_stepE)
    case (copy1 buf n r st x)
    from join_step.copy1 [where it = ?it and s = "join_forget s" and buf = buf and tot = n and r = r and st = st and x = "()"]
      copy1 iter [OF copy1(3)] show ?thesis
      by (fastforce simp: join_forget_def)
  next
    case (close1 n err)
    with join_step.close1 [of "join_forget s" n err] show ?thesis by (simp add: join_forget_def)
  next
    case (copy2 buf n r st x)
    from join_step.copy2 [where it = ?it and s = "join_forget s" and buf = buf and tot = n and r = r and st = st and x = "()"]
      copy2 iter [OF copy2(3)] show ?thesis
      by (fastforce simp: join_forget_def)
  next
    case (close2 n err)
    with join_step.close2 [of "join_forget s" n err] show ?thesis by (simp add: join_forget_def)
  qed
  with t show "client_join_step (join_forget s) t" by (simp add: client_join_step_def)
qed

end
