(* ===== verification/Chacha.thy ===== *)
theory Chacha
  imports Go_Io Go_Std
begin

text \<open>
  pkg/crypto/chacha_crypto.go: the encrypted connection. The AEAD (golang.org/x/crypto) is a
  parameter, \<open>seal\<close> and \<open>aopen\<close> for one key, and so is the random source: \<open>rnd k\<close> is
  what its \<open>k\<close>-th call gives. The underlying connection is any reader and writer. What the code
  relies on is \<open>aead_ok\<close> and \<open>rand_ok\<close>; the encrypted connection is then shown to be a
  byte stream (\<open>byte_reader\<close>, \<open>byte_writer\<close>) again.
\<close>

section \<open>The connection\<close>

definition lengthSize :: nat where "lengthSize = 2"
definition nonceSize :: nat where "nonceSize = 12"
definition tagSize :: nat where "tagSize = 16"
definition maxPayload :: nat where "maxPayload = 65536 - nonceSize - tagSize - lengthSize"
definition framePoolSize :: nat where "framePoolSize = lengthSize + nonceSize + maxPayload + tagSize"
definition readPoolSize :: nat where "readPoolSize = 65536"

lemma maxPayload_pos: "0 < maxPayload"
  by (simp add: maxPayload_def nonceSize_def tagSize_def lengthSize_def)

lemmas chacha_sizes =
  lengthSize_def nonceSize_def tagSize_def maxPayload_def framePoolSize_def readPoolSize_def

definition derive_key :: "(bytes \<Rightarrow> bytes) \<Rightarrow> string \<Rightarrow> bytes" where
  "derive_key sha256 psk = sha256 (str_bytes psk)"

text \<open>\<open>writeFrame\<close>; the state is that of the connection and the number of random reads so far.\<close>

definition write_frame ::
  "(bytes \<Rightarrow> bytes \<Rightarrow> bytes) \<Rightarrow> (nat \<Rightarrow> bytes result) \<Rightarrow> 'd writer \<Rightarrow> bytes \<Rightarrow> 'd \<times> nat
   \<Rightarrow> go_error option \<times> 'd \<times> nat" where
  "write_frame seal rnd wr payload s =
     (case s of (d, k) \<Rightarrow>
        (case rnd k of
           Inl e \<Rightarrow> (Some e, d, Suc k)
         | Inr nonce \<Rightarrow>
             (let ciphertext = seal nonce payload;
                  frame_len = nonceSize + length ciphertext
              in (case wr (put_uint16 (word_of_nat frame_len) @ nonce @ ciphertext) d of
                    ((_, err), d1) \<Rightarrow> (err, d1, Suc k)))))"

function chacha_write_from ::
  "(bytes \<Rightarrow> bytes \<Rightarrow> bytes) \<Rightarrow> (nat \<Rightarrow> bytes result) \<Rightarrow> 'd writer \<Rightarrow> nat \<Rightarrow> bytes \<Rightarrow> 'd \<times> nat
   \<Rightarrow> (nat \<times> go_error option) \<times> 'd \<times> nat" where
  "chacha_write_from seal rnd wr tot b s =
     (if b = [] then ((tot, None), s)
      else
        (let chunk = (if length b > maxPayload then take maxPayload b else b);
             rest = drop (length chunk) b
         in (case write_frame seal rnd wr chunk s of
               (Some e, s1) \<Rightarrow> ((tot, Some e), s1)
             | (None, s1) \<Rightarrow> chacha_write_from seal rnd wr (tot + length chunk) rest s1)))"
  by pat_completeness auto
termination
  by (relation "measure (\<lambda>(seal, rnd, wr, tot, b, s). length b)")
    (auto simp: chacha_sizes split: if_splits)

declare chacha_write_from.simps [simp del]

definition chacha_write ::
  "(bytes \<Rightarrow> bytes \<Rightarrow> bytes) \<Rightarrow> (nat \<Rightarrow> bytes result) \<Rightarrow> 'd writer \<Rightarrow> ('d \<times> nat) writer" where
  "chacha_write seal rnd wr b s = chacha_write_from seal rnd wr 0 b s"

definition read_frame ::
  "(bytes \<Rightarrow> bytes \<Rightarrow> bytes result) \<Rightarrow> 's reader \<Rightarrow> 's \<Rightarrow> (bytes result \<times> 's) option" where
  "read_frame aopen rd s =
     (case read_full rd lengthSize s of
        None \<Rightarrow> None
      | Some (Inl e, s1) \<Rightarrow> Some (Inl e, s1)
      | Some (Inr len_buf, s1) \<Rightarrow>
          let frame_len = unat (get_uint16 len_buf) in
          if frame_len < nonceSize + tagSize then Some (Inl (ErrText ''invalid frame length''), s1)
          else
            (case read_full rd frame_len s1 of
               None \<Rightarrow> None
             | Some (Inl e, s2) \<Rightarrow> Some (Inl e, s2)
             | Some (Inr frame, s2) \<Rightarrow> Some (aopen (take nonceSize frame) (drop nonceSize frame), s2)))"

text \<open>\<open>Read\<close>; the state is that of the connection and \<open>readBuf\<close>.\<close>

definition chacha_read ::
  "(bytes \<Rightarrow> bytes \<Rightarrow> bytes result) \<Rightarrow> 's reader \<Rightarrow> ('s \<times> bytes) reader" where
  "chacha_read aopen rd n x =
     (case x of (s, read_buf) \<Rightarrow>
        if read_buf \<noteq> [] then Some ((take n read_buf, None), s, drop n read_buf)
        else
          (case read_frame aopen rd s of
             None \<Rightarrow> None
           | Some (Inl e, s1) \<Rightarrow> Some (([], Some e), s1, [])
           | Some (Inr plaintext, s1) \<Rightarrow>
               Some ((take n plaintext, None), s1, drop n plaintext)))"

section \<open>What the code relies on\<close>

text \<open>
  ChaCha20-Poly1305 opens what it sealed, and its tag is sixteen bytes; a successful \<open>rand.Read\<close>
  fills the nonce.
\<close>

definition aead_ok :: "(bytes \<Rightarrow> bytes \<Rightarrow> bytes) \<Rightarrow> (bytes \<Rightarrow> bytes \<Rightarrow> bytes result) \<Rightarrow> bool" where
  "aead_ok seal aopen \<longleftrightarrow>
     (\<forall>nonce p. length nonce = nonceSize \<longrightarrow>
        aopen nonce (seal nonce p) = Inr p \<and> length (seal nonce p) = length p + tagSize)"

definition rand_ok :: "(nat \<Rightarrow> bytes result) \<Rightarrow> bool" where
  "rand_ok rnd \<longleftrightarrow> (\<forall>k. case rnd k of Inl _ \<Rightarrow> False | Inr nonce \<Rightarrow> length nonce = nonceSize)"

section \<open>Frames\<close>

definition clen :: "bytes \<times> bytes \<Rightarrow> nat" where
  "clen f = nonceSize + length (snd f)"

definition cframe :: "bytes \<times> bytes \<Rightarrow> bytes" where
  "cframe f = put_uint16 (word_of_nat (clen f)) @ fst f @ snd f"

text \<open>A nonce and a ciphertext that fit the format.\<close>

definition frame_fits :: "bytes \<times> bytes \<Rightarrow> bool" where
  "frame_fits f \<longleftrightarrow> length (fst f) = nonceSize \<and> nonceSize + tagSize \<le> clen f \<and> clen f < 2 ^ 16"

definition plain :: "(bytes \<Rightarrow> bytes \<Rightarrow> bytes result) \<Rightarrow> bytes \<times> bytes \<Rightarrow> bytes" where
  "plain aopen f = (case aopen (fst f) (snd f) of Inr p \<Rightarrow> p | Inl _ \<Rightarrow> [])"

definition genuine :: "(bytes \<Rightarrow> bytes \<Rightarrow> bytes result) \<Rightarrow> bytes \<times> bytes \<Rightarrow> bool" where
  "genuine aopen f \<longleftrightarrow> frame_fits f \<and> (case aopen (fst f) (snd f) of Inr _ \<Rightarrow> True | Inl _ \<Rightarrow> False)"

lemma get_clen: "frame_fits f \<Longrightarrow> unat (get_uint16 (put_uint16 (word_of_nat (clen f)))) = clen f"
  by (simp add: frame_fits_def unat_of_nat)

lemma cframe_length [simp, frame_simps]:
  "length (cframe f) = 2 + length (fst f) + length (snd f)"
  by (simp add: cframe_def)

lemma frame_fits_body: "frame_fits f \<Longrightarrow> length (fst f @ snd f) = clen f"
  by (simp add: frame_fits_def clen_def)

context byte_source
begin

text \<open>A frame at the front of the stream is read whole and opened.\<close>

lemma read_frame_front:
  assumes "inv s" and "frame_fits f" and "avail s = cframe f @ rest"
  shows "\<exists>s'. read_frame aopen rd s = Some (aopen (fst f) (snd f), s') \<and> avail s' = rest \<and> inv s'
    \<and> fin s' = fin s \<and> rank s' < rank s"
proof -
  from read_full_enough [OF assms(1), of 2] assms(3) obtain s1 where
    r1: "read_full rd 2 s = Some (Inr (put_uint16 (word_of_nat (clen f))), s1)" and
    s1: "avail s1 = (fst f @ snd f) @ rest" "inv s1" "fin s1 = fin s" "rank s1 < rank s"
    by (auto simp: cframe_def)
  from read_full_enough [OF s1(2), of "clen f"] s1(1) frame_fits_body [OF assms(2)] obtain s2 where
    r2: "read_full rd (clen f) s1 = Some (Inr (fst f @ snd f), s2)" and
    s2: "avail s2 = rest" "inv s2" "fin s2 = fin s1" "rank s2 \<le> rank s1"
    by auto
  have "length (fst f) = nonceSize" "\<not> clen f < nonceSize + tagSize" using assms(2) by (simp_all add: frame_fits_def)
  with get_clen [OF assms(2)] r1 r2 s1 s2 show ?thesis
    by (simp add: read_frame_def lengthSize_def Let_def)
qed

lemma chacha_front:
  assumes "inv s" and "genuine aopen f" and "avail s = cframe f @ rest"
  shows "\<exists>s'. chacha_read aopen rd n (s, []) =
      Some ((take n (plain aopen f), None), s', drop n (plain aopen f))
    \<and> avail s' = rest \<and> inv s' \<and> fin s' = fin s \<and> rank s' < rank s"
proof -
  from assms(2) obtain p where p: "frame_fits f" "aopen (fst f) (snd f) = Inr p" "plain aopen f = p"
    by (auto simp: genuine_def plain_def split: sum.splits)
  from read_frame_front [OF assms(1) p(1) assms(3), of aopen] p(2,3) show ?thesis
    by (auto simp: chacha_read_def)
qed

end

context byte_reader
begin

lemma read_frame_end:
  assumes "inv s" and "avail s = []"
  shows "\<exists>s'. read_frame aopen rd s = Some (Inl (fin s), s') \<and> avail s' = [] \<and> inv s' \<and> fin s' = fin s"
  using read_full_short [OF assms(1), of 2] assms(2) by (auto simp: read_frame_def lengthSize_def)

text \<open>
  Whatever is on the stream, \<open>readFrame\<close> returns, and a plaintext comes from a genuine frame at
  the front of the stream.
\<close>

lemma read_frame_sound:
  assumes "inv s"
  shows "\<exists>r s'. read_frame aopen rd s = Some (r, s') \<and> inv s' \<and> (\<exists>used. avail s = used @ avail s')
    \<and> (case r of Inl _ \<Rightarrow> True
       | Inr p \<Rightarrow> \<exists>f. genuine aopen f \<and> p = plain aopen f \<and> avail s = cframe f @ avail s')"
proof (cases "2 \<le> length (avail s)")
  case False
  with read_full_short [OF assms, of 2] show ?thesis
    by (auto simp: read_frame_def lengthSize_def)
next
  case True
  define len where "len = unat (get_uint16 (take 2 (avail s)))"
  from read_full_enough [OF assms True] obtain s1 where
    r1: "read_full rd 2 s = Some (Inr (take 2 (avail s)), s1)" and
    s1: "avail s1 = drop 2 (avail s)" "inv s1" by auto
  have split1: "avail s = take 2 (avail s) @ avail s1" using s1(1) by simp
  show ?thesis
  proof (cases "len < nonceSize + tagSize")
    case True
    with r1 have "read_frame aopen rd s = Some (Inl (ErrText ''invalid frame length''), s1)"
      by (simp add: read_frame_def lengthSize_def Let_def len_def)
    with s1(2) split1 show ?thesis by auto
  next
    case big: False
    show ?thesis
    proof (cases "len \<le> length (avail s1)")
      case False
      then have "length (avail s1) < len" by simp
      from read_full_short [OF s1(2) this] obtain e s2 where
        "read_full rd len s1 = Some (Inl e, s2)" "avail s2 = []" "inv s2" by auto
      with r1 big have "read_frame aopen rd s = Some (Inl e, s2)"
        by (simp add: read_frame_def lengthSize_def Let_def len_def [symmetric])
      with \<open>avail s2 = []\<close> \<open>inv s2\<close> show ?thesis by auto
    next
      case True
      from read_full_enough [OF s1(2) True] obtain s2 where
        r2: "read_full rd len s1 = Some (Inr (take len (avail s1)), s2)" and
        s2: "avail s2 = drop len (avail s1)" "inv s2" by auto
      define f where "f = (take nonceSize (take len (avail s1)), drop nonceSize (take len (avail s1)))"
      have res: "read_frame aopen rd s = Some (aopen (fst f) (snd f), s2)"
        using r1 r2 big by (simp add: read_frame_def lengthSize_def Let_def len_def [symmetric] f_def)
      have flen: "clen f = len" "length (fst f) = nonceSize"
        using big True by (simp_all add: f_def chacha_sizes clen_def)
      have "len < 2 ^ 16" using unsigned_less [of "get_uint16 (take 2 (avail s))"] by (simp add: len_def)
      with big flen have fits: "frame_fits f" by (simp add: frame_fits_def)
      have "put_uint16 (word_of_nat len) = take 2 (avail s)"
        using put_get_uint16 [of "take 2 (avail s)"] \<open>2 \<le> length (avail s)\<close> by (simp add: len_def)
      moreover have "fst f @ snd f = take len (avail s1)"
        by (simp only: f_def fst_conv snd_conv append_take_drop_id)
      ultimately have "cframe f = take 2 (avail s) @ take len (avail s1)" by (simp add: cframe_def flen)
      with s2(1) split1 have front: "avail s = cframe f @ avail s2" by (metis append.assoc append_take_drop_id)
      show ?thesis
      proof (cases "aopen (fst f) (snd f)")
        case (Inl e)
        with res front s2(2) show ?thesis by auto
      next
        case (Inr p)
        with fits have "genuine aopen f" "p = plain aopen f" by (simp_all add: genuine_def plain_def)
        with front have "\<exists>f. genuine aopen f \<and> p = plain aopen f \<and> avail s = cframe f @ avail s2" by blast
        with res front s2(2) Inr show ?thesis
          by (intro exI [of _ "Inr p"] exI [of _ s2]) simp
      qed
    qed
  qed
qed

lemma chacha_end:
  assumes "inv s" and "avail s = []"
  shows "\<exists>s'. chacha_read aopen rd n (s, []) = Some (([], Some (fin s)), s', [])
    \<and> avail s' = [] \<and> inv s' \<and> fin s' = fin s"
  using read_frame_end [OF assms, of aopen] by (auto simp: chacha_read_def)

text \<open>Any stream: what comes out in one call was in the buffer or in a genuine frame.\<close>

lemma chacha_read_sound:
  assumes "inv s"
  shows "\<exists>bs e s' buf'. chacha_read aopen rd n (s, buf) = Some ((bs, e), s', buf') \<and> inv s'
    \<and> length bs \<le> n
    \<and> (case e of Some _ \<Rightarrow> bs = [] \<and> buf = [] \<and> buf' = []
       | None \<Rightarrow> (\<exists>fs. list_all (genuine aopen) fs \<and> bs @ buf' = buf @ concat (map (plain aopen) fs)
           \<and> avail s = concat (map cframe fs) @ avail s'))"
proof (cases "buf = []")
  case False
  with assms show ?thesis
    by (intro exI [of _ "take n buf"] exI [of _ None] exI [of _ s] exI [of _ "drop n buf"])
      (auto simp: chacha_read_def intro: exI [of _ "[]"])
next
  case True
  from read_frame_sound [OF assms, of aopen] obtain r s' where r:
    "read_frame aopen rd s = Some (r, s')" "inv s'" "\<exists>used. avail s = used @ avail s'"
    "case r of Inl _ \<Rightarrow> True
       | Inr p \<Rightarrow> \<exists>f. genuine aopen f \<and> p = plain aopen f \<and> avail s = cframe f @ avail s'"
    by blast
  show ?thesis
  proof (cases r)
    case (Inl e)
    with True r show ?thesis by (auto simp: chacha_read_def)
  next
    case (Inr p)
    with r(4) obtain f where f: "genuine aopen f" "p = plain aopen f" "avail s = cframe f @ avail s'" by auto
    then have "\<exists>fs. list_all (genuine aopen) fs \<and> take n p @ drop n p = [] @ concat (map (plain aopen) fs)
        \<and> avail s = concat (map cframe fs) @ avail s'"
      by (intro exI [of _ "[f]"]) simp
    with True Inr r(1,2) show ?thesis
      by (intro exI [of _ "take n p"] exI [of _ None] exI [of _ s'] exI [of _ "drop n p"])
        (simp add: chacha_read_def)
  qed
qed

text \<open>Only genuine bytes come out of any sequence of calls, whatever is on the stream.\<close>

lemma chacha_calls_sound:
  assumes "inv s"
  shows "\<exists>bs e s' buf' fs rest. read_calls (chacha_read aopen rd) ns (s, buf) = Some (bs, e, s', buf')
    \<and> list_all (genuine aopen) fs \<and> avail s = concat (map cframe fs) @ rest
    \<and> prefix bs (buf @ concat (map (plain aopen) fs))"
  using assms
proof (induction ns arbitrary: s buf)
  case Nil
  then show ?case by (simp add: exI [of _ "[]"])
next
  case (Cons n ns)
  from chacha_read_sound [OF Cons.prems, of aopen n buf] obtain bs e s1 buf1 where
    rd: "chacha_read aopen rd n (s, buf) = Some ((bs, e), s1, buf1)" and s1: "inv s1" and
    e: "case e of Some _ \<Rightarrow> bs = [] \<and> buf = [] \<and> buf1 = []
       | None \<Rightarrow> (\<exists>fs. list_all (genuine aopen) fs \<and> bs @ buf1 = buf @ concat (map (plain aopen) fs)
           \<and> avail s = concat (map cframe fs) @ avail s1)"
    by blast
  show ?case
  proof (cases e)
    case (Some er)
    with e have "bs = []" by simp
    with rd Some show ?thesis
      by (intro exI [of _ "[]"] exI [of _ "Some er"] exI [of _ s1] exI [of _ buf1] exI [of _ "[]"]
          exI [of _ "avail s"]) simp
  next
    case None
    with e obtain fs where fs: "list_all (genuine aopen) fs" "bs @ buf1 = buf @ concat (map (plain aopen) fs)"
      "avail s = concat (map cframe fs) @ avail s1" by auto
    from Cons.IH [OF s1, of buf1] obtain cs e' s2 buf2 gs rest where
      "read_calls (chacha_read aopen rd) ns (s1, buf1) = Some (cs, e', s2, buf2)"
      "list_all (genuine aopen) gs" "avail s1 = concat (map cframe gs) @ rest"
      "prefix cs (buf1 @ concat (map (plain aopen) gs))" by blast
    moreover from this(4) have "prefix (bs @ cs) ((bs @ buf1) @ concat (map (plain aopen) gs))" by simp
    ultimately show ?thesis using rd None fs
      by (intro exI [of _ "bs @ cs"] exI [of _ e'] exI [of _ s2] exI [of _ buf2] exI [of _ "fs @ gs"]
          exI [of _ rest]) auto
  qed
qed

end

section \<open>The encrypted connection as a byte stream\<close>

text \<open>What a stream of frames says, and that it is nothing but genuine frames with something in them.\<close>

function unframe :: "(bytes \<Rightarrow> bytes \<Rightarrow> bytes result) \<Rightarrow> bytes \<Rightarrow> bytes" where
  "unframe aopen bs =
     (if length bs < 2 then []
      else
        (let n = unat (get_uint16 (take 2 bs)) in
         plain aopen (take nonceSize (drop 2 bs), drop nonceSize (take n (drop 2 bs)))
           @ unframe aopen (drop n (drop 2 bs))))"
  by pat_completeness auto
termination by (relation "measure (\<lambda>(aopen, bs). length bs)") auto

declare unframe.simps [simp del]

definition solid :: "(bytes \<Rightarrow> bytes \<Rightarrow> bytes result) \<Rightarrow> bytes \<times> bytes \<Rightarrow> bool" where
  "solid aopen f \<longleftrightarrow> genuine aopen f \<and> plain aopen f \<noteq> []"

lemma solid_genuine: "list_all (solid aopen) fs \<Longrightarrow> list_all (genuine aopen) fs"
  by (auto simp: solid_def list_all_iff)

definition honest :: "(bytes \<Rightarrow> bytes \<Rightarrow> bytes result) \<Rightarrow> bytes \<Rightarrow> bool" where
  "honest aopen bs \<longleftrightarrow> (\<exists>fs. list_all (solid aopen) fs \<and> bs = concat (map cframe fs))"

lemma unframe_Nil [simp]: "unframe aopen [] = []"
  by (simp add: unframe.simps)

lemma unframe_cframe: "frame_fits f \<Longrightarrow> unframe aopen (cframe f @ rest) = plain aopen f @ unframe aopen rest"
proof -
  assume fits: "frame_fits f"
  define body where "body = (fst f @ snd f) @ rest"
  have front: "take 2 (cframe f @ rest) = put_uint16 (word_of_nat (clen f))" "drop 2 (cframe f @ rest) = body"
    "\<not> length (cframe f @ rest) < 2"
    by (simp_all add: cframe_def body_def)
  have "take nonceSize body = fst f" using fits by (simp add: frame_fits_def body_def)
  moreover have "take (clen f) body = fst f @ snd f" "drop (clen f) body = rest"
    by (simp_all only: body_def take_append_length [OF frame_fits_body [OF fits]]
        drop_append_length [OF frame_fits_body [OF fits]])
  moreover have "drop nonceSize (fst f @ snd f) = snd f" using fits by (simp add: frame_fits_def)
  ultimately show ?thesis
    using get_clen [OF fits] by (subst unframe.simps) (simp only: front Let_def if_False prod.collapse)
qed

lemma unframe_frames:
  "list_all (genuine aopen) fs \<Longrightarrow> unframe aopen (concat (map cframe fs) @ rest) =
     concat (map (plain aopen) fs) @ unframe aopen rest"
  by (induction fs) (simp_all add: unframe_cframe genuine_def)

lemma honest_Nil: "honest aopen []"
  unfolding honest_def by (rule exI [of _ "[]"]) simp

lemma honest_append:
  "honest aopen bs \<Longrightarrow> list_all (solid aopen) fs \<Longrightarrow> honest aopen (bs @ concat (map cframe fs))"
  unfolding honest_def by (metis concat_append list_all_append map_append)

lemma honest_nothing_left: "honest aopen bs \<Longrightarrow> unframe aopen bs = [] \<Longrightarrow> bs = []"
proof -
  assume "honest aopen bs" and nil: "unframe aopen bs = []"
  then obtain fs where fs: "list_all (solid aopen) fs" "bs = concat (map cframe fs)" by (auto simp: honest_def)
  with nil show "bs = []" by (cases fs) (auto simp: solid_def unframe_cframe genuine_def)
qed

text \<open>
  The encrypted connection over any source of bytes is one itself, as long as the stream is a sequence of
  genuine frames; what is still to be delivered is then the read buffer and the plaintexts of the frames.
\<close>

context byte_source
begin

lemma chacha_byte_source:
  "byte_source (chacha_read aopen rd)
     (\<lambda>x. inv (fst x) \<and> honest aopen (avail (fst x))) (\<lambda>x. snd x @ unframe aopen (avail (fst x)))
     (\<lambda>x. fin (fst x)) (\<lambda>x. length (snd x @ unframe aopen (avail (fst x))) + rank (fst x))"
proof unfold_locales
  fix x :: "'s \<times> bytes" and n :: nat
  assume ok: "inv (fst x) \<and> honest aopen (avail (fst x))" and "0 < n"
    and some: "snd x @ unframe aopen (avail (fst x)) \<noteq> []"
  obtain c buf where x: "x = (c, buf)" by (cases x)
  from ok x obtain fs where fs: "inv c" "list_all (solid aopen) fs" "avail c = concat (map cframe fs)"
    by (auto simp: honest_def)
  from some x fs(3) consider "buf \<noteq> []" | f gs where "buf = []" "fs = f # gs"
    by (cases fs) auto
  then show "\<exists>bs x'. chacha_read aopen rd n x = Some ((bs, None), x')
      \<and> snd x @ unframe aopen (avail (fst x)) = bs @ snd x' @ unframe aopen (avail (fst x'))
      \<and> length bs \<le> n \<and> (inv (fst x') \<and> honest aopen (avail (fst x'))) \<and> fin (fst x') = fin (fst x)
      \<and> length (snd x' @ unframe aopen (avail (fst x'))) + rank (fst x')
          < length (snd x @ unframe aopen (avail (fst x))) + rank (fst x)"
  proof cases
    case 1
    with x \<open>0 < n\<close> ok show ?thesis
      by (intro exI [of _ "take n buf"] exI [of _ "(c, drop n buf)"]) (auto simp: chacha_read_def)
  next
    case 2
    with fs have f: "genuine aopen f" "avail c = cframe f @ concat (map cframe gs)" by (simp_all add: solid_def)
    from chacha_front [OF fs(1) f, of n] obtain c' where c':
      "chacha_read aopen rd n (c, []) = Some ((take n (plain aopen f), None), c', drop n (plain aopen f))"
      "avail c' = concat (map cframe gs)" "fin c' = fin c" "rank c' < rank c" "inv c'"
      by auto
    have "unframe aopen (avail c) = plain aopen f @ unframe aopen (avail c')"
      using f c'(2) by (simp add: unframe_cframe genuine_def)
    moreover have "honest aopen (avail c')" using fs(2) 2 c'(2) by (auto simp: honest_def)
    ultimately show ?thesis using c' x 2
      by (intro exI [of _ "take n (plain aopen f)"] exI [of _ "(c', drop n (plain aopen f))"]) simp
  qed
qed

end

text \<open>The encrypted connection over a stream that ends is one itself.\<close>

context byte_reader
begin

lemma chacha_byte_reader:
  "byte_reader (chacha_read aopen rd)
     (\<lambda>x. inv (fst x) \<and> honest aopen (avail (fst x))) (\<lambda>x. snd x @ unframe aopen (avail (fst x)))
     (\<lambda>x. fin (fst x)) (\<lambda>x. length (snd x @ unframe aopen (avail (fst x))) + rank (fst x))"
proof unfold_locales
  fix x :: "'s \<times> bytes" and n :: nat
  assume ok: "inv (fst x) \<and> honest aopen (avail (fst x))" and "0 < n"
  obtain c buf where x: "x = (c, buf)" by (cases x)
  from ok x obtain fs where fs: "inv c" "list_all (solid aopen) fs" "avail c = concat (map cframe fs)"
    by (auto simp: honest_def)
  consider "buf \<noteq> []" | "buf = []" "fs = []" | f gs where "buf = []" "fs = f # gs"
    by (cases fs) auto
  then show "\<exists>bs e x'. chacha_read aopen rd n x = Some ((bs, e), x')
      \<and> snd x @ unframe aopen (avail (fst x)) = bs @ snd x' @ unframe aopen (avail (fst x'))
      \<and> length bs \<le> n \<and> (inv (fst x') \<and> honest aopen (avail (fst x'))) \<and> fin (fst x') = fin (fst x)
      \<and> (case e of
           None \<Rightarrow> length (snd x' @ unframe aopen (avail (fst x'))) + rank (fst x')
               < length (snd x @ unframe aopen (avail (fst x))) + rank (fst x)
         | Some er \<Rightarrow> er = fin (fst x) \<and> bs = [] \<and> snd x @ unframe aopen (avail (fst x)) = [])"
  proof cases
    case 1
    with x \<open>0 < n\<close> ok show ?thesis
      by (intro exI [of _ "take n buf"] exI [of _ None] exI [of _ "(c, drop n buf)"])
        (auto simp: chacha_read_def)
  next
    case 2
    with fs have "avail c = []" by simp
    with chacha_end [OF fs(1), of aopen n] obtain c' where
      "chacha_read aopen rd n (c, []) = Some (([], Some (fin c)), c', [])"
      "avail c' = []" "fin c' = fin c" "inv c'" by auto
    with x 2 \<open>avail c = []\<close> honest_Nil [of aopen] show ?thesis
      by (intro exI [of _ "[]"] exI [of _ "Some (fin c)"] exI [of _ "(c', [])"]) simp
  next
    case 3
    with fs have f: "genuine aopen f" "avail c = cframe f @ concat (map cframe gs)" by (simp_all add: solid_def)
    from chacha_front [OF fs(1) f, of n] obtain c' where c':
      "chacha_read aopen rd n (c, []) = Some ((take n (plain aopen f), None), c', drop n (plain aopen f))"
      "avail c' = concat (map cframe gs)" "fin c' = fin c" "rank c' < rank c" "inv c'"
      by auto
    have "unframe aopen (avail c) = plain aopen f @ unframe aopen (avail c')"
      using f c'(2) by (simp add: unframe_cframe genuine_def)
    moreover have "honest aopen (avail c')" using fs(2) 3 c'(2) by (auto simp: honest_def)
    ultimately show ?thesis using c' x 3
      by (intro exI [of _ "take n (plain aopen f)"] exI [of _ None] exI [of _ "(c', drop n (plain aopen f))"])
        simp
  qed
qed

end

section \<open>Writing\<close>

definition rnonce :: "(nat \<Rightarrow> bytes result) \<Rightarrow> nat \<Rightarrow> bytes" where
  "rnonce rnd k = (case rnd k of Inr nonce \<Rightarrow> nonce | Inl _ \<Rightarrow> [])"

definition sealed :: "(bytes \<Rightarrow> bytes \<Rightarrow> bytes) \<Rightarrow> (nat \<Rightarrow> bytes result) \<Rightarrow> nat \<Rightarrow> bytes \<Rightarrow> bytes \<times> bytes" where
  "sealed seal rnd k p = (rnonce rnd k, seal (rnonce rnd k) p)"

lemma rnonce_ok: "rand_ok rnd \<Longrightarrow> rnd k = Inr (rnonce rnd k) \<and> length (rnonce rnd k) = nonceSize"
  using spec [of "\<lambda>k. case rnd k of Inl _ \<Rightarrow> False | Inr nonce \<Rightarrow> length nonce = nonceSize" k]
  by (auto simp: rand_ok_def rnonce_def split: sum.splits)

lemma sealed_genuine:
  assumes "aead_ok seal aopen" and "rand_ok rnd" and "length p \<le> maxPayload"
  shows "genuine aopen (sealed seal rnd k p)" and "plain aopen (sealed seal rnd k p) = p"
    and "clen (sealed seal rnd k p) = nonceSize + length p + tagSize"
proof -
  from assms(1) rnonce_ok [OF assms(2), of k]
  have s: "aopen (rnonce rnd k) (seal (rnonce rnd k) p) = Inr p"
    "length (seal (rnonce rnd k) p) = length p + tagSize"
    unfolding aead_ok_def by blast+
  then show clen: "clen (sealed seal rnd k p) = nonceSize + length p + tagSize"
    by (simp add: clen_def sealed_def)
  from s show "plain aopen (sealed seal rnd k p) = p" by (simp add: plain_def sealed_def)
  have "clen (sealed seal rnd k p) < 2 ^ 16" using assms(3) clen by (simp add: chacha_sizes)
  with s clen rnonce_ok [OF assms(2), of k] show "genuine aopen (sealed seal rnd k p)"
    by (simp add: genuine_def frame_fits_def sealed_def)
qed

context byte_writer
begin

lemma write_frame_ok:
  assumes "rand_ok rnd" and "winv d"
  shows "\<exists>d'. write_frame seal rnd wr p (d, k) = (None, d', Suc k) \<and> winv d'
    \<and> out d' = out d @ cframe (sealed seal rnd k p)"
proof -
  from rnonce_ok [OF assms(1), of k] have "rnd k = Inr (rnonce rnd k)" by simp
  with wr_step [OF assms(2), of "cframe (sealed seal rnd k p)"] show ?thesis
    by (auto simp: write_frame_def Let_def cframe_def sealed_def clen_def)
qed

lemma chacha_write_from_ok:
  assumes "aead_ok seal aopen" and "rand_ok rnd" and "winv d"
  shows "\<exists>d' fs. chacha_write_from seal rnd wr tot b (d, k) = ((tot + length b, None), d', k + length fs)
    \<and> winv d' \<and> out d' = out d @ concat (map cframe fs) \<and> list_all (genuine aopen) fs
    \<and> concat (map (plain aopen) fs) = b
    \<and> length fs = (length b + maxPayload - 1) div maxPayload
    \<and> list_all (\<lambda>f. plain aopen f \<noteq> [] \<and> length (cframe f) \<le> framePoolSize) fs"
  using assms(3)
proof (induction "length b" arbitrary: b d k tot rule: less_induct)
  case less
  show ?case
  proof (cases "b = []")
    case True
    with less.prems show ?thesis
      by (intro exI [of _ d] exI [of _ "[]"]) (simp add: chacha_write_from.simps chacha_sizes)
  next
    case False
    define chunk where "chunk = take maxPayload b"
    define rest where "rest = drop maxPayload b"
    have chunk: "(if length b > maxPayload then take maxPayload b else b) = chunk"
      "drop (length chunk) b = rest" "chunk @ rest = b" "chunk \<noteq> []" "length chunk \<le> maxPayload"
      using False by (simp_all add: chunk_def rest_def maxPayload_pos min_def)
    have shorter: "length rest < length b" using False maxPayload_pos by (simp add: rest_def)
    let ?f = "sealed seal rnd k chunk"
    from write_frame_ok [OF assms(2) less.prems, of seal chunk k] obtain d1 where d1:
      "write_frame seal rnd wr chunk (d, k) = (None, d1, Suc k)" "winv d1" "out d1 = out d @ cframe ?f" by blast
    from less.hyps [OF shorter d1(2), of "tot + length chunk" "Suc k"] obtain d' fs where rec:
      "chacha_write_from seal rnd wr (tot + length chunk) rest (d1, Suc k) =
         ((tot + length chunk + length rest, None), d', Suc k + length fs)"
      "winv d'" "out d' = out d1 @ concat (map cframe fs)" "list_all (genuine aopen) fs"
      "concat (map (plain aopen) fs) = rest" "length fs = (length rest + maxPayload - 1) div maxPayload"
      "list_all (\<lambda>f. plain aopen f \<noteq> [] \<and> length (cframe f) \<le> framePoolSize) fs" by blast
    note seal = sealed_genuine [OF assms(1,2) chunk(5), of k]
    have "length (cframe ?f) \<le> framePoolSize"
      using seal(3) chunk(5) rnonce_ok [OF assms(2), of k]
      by (simp add: clen_def sealed_def chacha_sizes)
    moreover have "Suc (length fs) = (length b + maxPayload - 1) div maxPayload"
    proof (cases "length b \<le> maxPayload")
      case True
      with False rec(6) show ?thesis by (cases b) (auto simp: rest_def chacha_sizes)
    next
      case big: False
      then have "length b + maxPayload - 1 = (length rest + maxPayload - 1) + maxPayload"
        by (simp add: rest_def chacha_sizes)
      then show ?thesis using rec(6) by (simp add: chacha_sizes)
    qed
    moreover have "tot + length chunk + length rest = tot + length b"
      using arg_cong [OF chunk(3), of length] by simp
    moreover have "chacha_write_from seal rnd wr tot b (d, k) =
        chacha_write_from seal rnd wr (tot + length chunk) rest (d1, Suc k)"
      by (subst chacha_write_from.simps) (simp only: False if_False Let_def chunk(1,2) d1(1) prod.case option.case)
    ultimately have step: "chacha_write_from seal rnd wr tot b (d, k) = ((tot + length b, None), d', k + length (?f # fs))"
      and n: "length (?f # fs) = (length b + maxPayload - 1) div maxPayload"
      and f: "length (cframe ?f) \<le> framePoolSize"
      using rec(1) by simp_all
    have "concat (map (plain aopen) (?f # fs)) = b" using rec(5) seal(2) chunk(3) by simp
    moreover have "out d' = out d @ concat (map cframe (?f # fs))" using rec(3) d1(3) by simp
    moreover have "list_all (genuine aopen) (?f # fs)" using rec(4) seal(1) by simp
    moreover have "list_all (\<lambda>f. plain aopen f \<noteq> [] \<and> length (cframe f) \<le> framePoolSize) (?f # fs)"
      using rec(7) seal(2) chunk(4) f by simp
    ultimately show ?thesis using step n rec(2) by blast
  qed
qed

text \<open>The encrypted connection over any writer that is up is one itself.\<close>

lemma chacha_byte_writer:
  "byte_writer (chacha_write seal rnd wr)
     (\<lambda>x. aead_ok seal aopen \<and> rand_ok rnd \<and> winv (fst x) \<and> honest aopen (out (fst x)))
     (\<lambda>x. unframe aopen (out (fst x)))"
proof unfold_locales
  fix x :: "'d \<times> nat" and p :: bytes
  assume ok: "aead_ok seal aopen \<and> rand_ok rnd \<and> winv (fst x) \<and> honest aopen (out (fst x))"
  obtain c k where x: "x = (c, k)" by (cases x)
  from ok x have "aead_ok seal aopen" "rand_ok rnd" "winv c" by simp_all
  from chacha_write_from_ok [OF this, of 0 p k, unfolded add_0]
  obtain c' fs where c':
    "chacha_write_from seal rnd wr 0 p (c, k) = ((length p, None), c', k + length fs)" "winv c'"
    "out c' = out c @ concat (map cframe fs)" "list_all (genuine aopen) fs"
    "concat (map (plain aopen) fs) = p" "list_all (\<lambda>f. plain aopen f \<noteq> [] \<and> length (cframe f) \<le> framePoolSize) fs"
    by blast
  from c'(4,6) have solid: "list_all (solid aopen) fs" by (simp add: list_all_iff solid_def)
  from ok x obtain gs where gs: "list_all (solid aopen) gs" "out c = concat (map cframe gs)"
    by (auto simp: honest_def)
  note genuine = c'(4) solid_genuine [OF gs(1)]
  have "unframe aopen (out c') = unframe aopen (out c) @ p"
    using unframe_frames [of aopen "gs @ fs" "[]"] unframe_frames [of aopen gs "[]"] genuine gs(2) c'(3,5) by simp
  moreover have "honest aopen (out c')" using honest_append [of aopen _ fs] ok x c'(3) solid by simp
  ultimately show "\<exists>x'. chacha_write seal rnd wr p x = ((length p, None), x')
      \<and> unframe aopen (out (fst x')) = unframe aopen (out (fst x)) @ p
      \<and> aead_ok seal aopen \<and> rand_ok rnd \<and> winv (fst x') \<and> honest aopen (out (fst x'))"
    using ok x c'(1,2) by (intro exI [of _ "(c', k + length fs)"]) (simp add: chacha_write_def)
qed

end

section \<open>Encrypted links\<close>

text \<open>
  A writer and a reader at the two ends of an encrypted link: whatever transport is below, what is
  written in any number of calls is read back.
\<close>

locale data_link = byte_writer wr winv out + byte_source rd inv avail fin rank
  for wr :: "bytes \<Rightarrow> 'd \<Rightarrow> (nat \<times> go_error option) \<times> 'd" and winv :: "'d \<Rightarrow> bool" and out :: "'d \<Rightarrow> bytes"
    and rd :: "nat \<Rightarrow> 's \<Rightarrow> ((bytes \<times> go_error option) \<times> 's) option" and inv :: "'s \<Rightarrow> bool"
    and avail :: "'s \<Rightarrow> bytes" and fin :: "'s \<Rightarrow> go_error" and rank :: "'s \<Rightarrow> nat"
begin

lemma chacha_delivered:
  assumes "aead_ok seal aopen" and "rand_ok rnd" and "winv d" and "out d = []"
    and "write_seq (chacha_write seal rnd wr) ps (d, k) = (err, d', k')"
    and "inv s" and "avail s = out d'"
  shows "err = None \<and> (\<exists>s'.
      read_full (chacha_read aopen rd) (length (concat ps)) (s, []) = Some (Inr (concat ps), s', [])
    \<and> avail s' = [] \<and> inv s' \<and> fin s' = fin s)"
proof -
  from byte_writer.write_seq_ok [OF chacha_byte_writer, of seal aopen rnd "(d, k)" ps] assms(1-5) honest_Nil
  have out: "err = None" "unframe aopen (avail s) = concat ps" "honest aopen (avail s)"
    using assms(7) by simp_all
  from byte_source.read_full_enough [OF chacha_byte_source, of "(s, [])" aopen "length (concat ps)"] out(2,3) assms(6)
  obtain s' buf where r: "read_full (chacha_read aopen rd) (length (concat ps)) (s, []) = Some (Inr (concat ps), s', buf)"
    "buf @ unframe aopen (avail s') = []" "inv s'" "honest aopen (avail s')" "fin s' = fin s" by auto
  from r(2) have "buf = []" "unframe aopen (avail s') = []" by simp_all
  with r honest_nothing_left [OF r(4)] out(1) show ?thesis by simp
qed

end

text \<open>Over a stream that ends, the end comes next.\<close>

locale transport_link = byte_writer wr winv out + byte_reader rd inv avail fin rank
  for wr :: "bytes \<Rightarrow> 'd \<Rightarrow> (nat \<times> go_error option) \<times> 'd" and winv :: "'d \<Rightarrow> bool" and out :: "'d \<Rightarrow> bytes"
    and rd :: "nat \<Rightarrow> 's \<Rightarrow> ((bytes \<times> go_error option) \<times> 's) option" and inv :: "'s \<Rightarrow> bool"
    and avail :: "'s \<Rightarrow> bytes" and fin :: "'s \<Rightarrow> go_error" and rank :: "'s \<Rightarrow> nat"

sublocale transport_link \<subseteq> data_link wr winv out rd inv avail fin rank
  by unfold_locales

context transport_link
begin

lemma plain_link:
  assumes "winv d" and "out d = []" and "write_seq wr ps d = (err, d')" and "inv s" and "avail s = out d'"
  shows "err = None \<and> (\<exists>s' s''. read_full rd (length (concat ps)) s = Some (Inr (concat ps), s')
    \<and> read_full rd 1 s' = Some (Inl (fin s), s''))"
proof -
  from write_seq_ok [OF assms(1), of ps] assms(2,3,5) have av: "err = None" "avail s = concat ps" by auto
  then obtain s' where s': "read_full rd (length (concat ps)) s = Some (Inr (concat ps), s')"
    "avail s' = []" "inv s'" "fin s' = fin s"
    using read_full_enough [OF assms(4), of "length (concat ps)"] by auto
  with read_full_short [OF s'(3), of 1] av(1) show ?thesis by auto
qed

lemma chacha_link:
  assumes "aead_ok seal aopen" and "rand_ok rnd" and "winv d" and "out d = []"
    and "write_seq (chacha_write seal rnd wr) ps (d, k) = (err, d', k')"
    and "inv s" and "avail s = out d'"
  shows "err = None \<and> (\<exists>r' r''.
      read_full (chacha_read aopen rd) (length (concat ps)) (s, []) = Some (Inr (concat ps), r')
    \<and> read_full (chacha_read aopen rd) 1 r' = Some (Inl (fin s), r''))"
proof -
  from chacha_delivered [OF assms] obtain s' where
    r: "err = None" "read_full (chacha_read aopen rd) (length (concat ps)) (s, []) = Some (Inr (concat ps), s', [])"
    "avail s' = []" "inv s'" "fin s' = fin s" by blast
  from byte_reader.read_full_short [OF chacha_byte_reader, of "(s', [])" aopen 1] r(3-5) honest_Nil obtain r'' where
    "read_full (chacha_read aopen rd) 1 (s', []) = Some (Inl (fin s), r'')" by auto
  with r(1,2) show ?thesis by blast
qed

end

interpretation net_link: transport_link
  conn_write no_faults "\<lambda>c. sent (cout c)" conn_read "\<lambda>c. True" conn_avail conn_fin conn_rank
  by unfold_locales

section \<open>Properties\<close>

text \<open>
  Round trip: what was written to the encrypted connection, in any number of Write calls of any
  length, is read back exactly and in order by the other end, however the network cuts the frames
  into segments; after it the reader gets the error that ends the connection. It rests on the AEAD
  opening what it sealed, on the random source filling the nonce and on writes that do not fail.
\<close>
theorem chacha_roundtrip:
  assumes "aead_ok seal aopen" and "rand_ok rnd" and "no_faults c" and "sent (cout c) = []"
    and "write_seq (chacha_write seal rnd conn_write) ps (c, k) = (err, c', k')"
    and "conn_avail r = sent (cout c')"
  shows "err = None \<and> (\<exists>r' r''.
      read_full (chacha_read aopen conn_read) (length (concat ps)) (r, []) = Some (Inr (concat ps), r')
    \<and> read_full (chacha_read aopen conn_read) 1 r' = Some (Inl (conn_fin r), r''))"
  by (rule net_link.chacha_link [OF assms(1-5) TrueI assms(6)])

text \<open>
  C35: Whatever Write is given, every frame fits the format: its payload is not empty, the frame with
  its length field fits the 64 KB buffers of both pools, its length does not wrap in the 16-bit
  field, and the number of frames is the least possible.
\<close>
theorem chacha_frames_bounded:
  assumes "aead_ok seal aopen" and "rand_ok rnd" and "no_faults c"
  shows "\<exists>c' fs. chacha_write seal rnd conn_write b (c, k) = ((length b, None), c', k + length fs)
    \<and> sent (cout c') = sent (cout c) @ concat (map cframe fs)
    \<and> concat (map (plain aopen) fs) = b
    \<and> length fs = (length b + maxPayload - 1) div maxPayload
    \<and> list_all (\<lambda>f. frame_fits f \<and> plain aopen f \<noteq> [] \<and> length (cframe f) \<le> framePoolSize
         \<and> unat (get_uint16 (take 2 (cframe f))) = length (cframe f) - 2 \<and> length (cframe f) - 2 \<le> readPoolSize) fs"
proof -
  from net_out.chacha_write_from_ok [OF assms, of 0 b k, unfolded add_0] obtain c' fs where
    w: "chacha_write_from seal rnd conn_write 0 b (c, k) = ((length b, None), c', k + length fs)"
      "sent (cout c') = sent (cout c) @ concat (map cframe fs)" "list_all (genuine aopen) fs"
      "concat (map (plain aopen) fs) = b" "length fs = (length b + maxPayload - 1) div maxPayload"
      "list_all (\<lambda>f. plain aopen f \<noteq> [] \<and> length (cframe f) \<le> framePoolSize) fs"
    by blast
  have "frame_fits f \<and> plain aopen f \<noteq> [] \<and> length (cframe f) \<le> framePoolSize
      \<and> unat (get_uint16 (take 2 (cframe f))) = length (cframe f) - 2 \<and> length (cframe f) - 2 \<le> readPoolSize"
    if "genuine aopen f" "plain aopen f \<noteq> [] \<and> length (cframe f) \<le> framePoolSize" for f
  proof -
    from that(1) have fits: "frame_fits f" by (simp add: genuine_def)
    have "take 2 (cframe f) = put_uint16 (word_of_nat (clen f))" by (simp add: cframe_def)
    moreover have "length (cframe f) - 2 = clen f" using frame_fits_body [OF fits] by simp
    moreover have "clen f \<le> readPoolSize" using fits by (simp add: frame_fits_def readPoolSize_def)
    ultimately show ?thesis using get_clen [OF fits] fits that(2) by simp
  qed
  with w(3,6) have "list_all (\<lambda>f. frame_fits f \<and> plain aopen f \<noteq> [] \<and> length (cframe f) \<le> framePoolSize
      \<and> unat (get_uint16 (take 2 (cframe f))) = length (cframe f) - 2 \<and> length (cframe f) - 2 \<le> readPoolSize) fs"
    by (auto simp: list_all_iff)
  with w(1,2,4,5) show ?thesis unfolding chacha_write_def by blast
qed

text \<open>
  C21: Integrity: whatever is on the stream (an attacker may have written all of it), any sequence of
  Read calls returns, and the bytes they deliver are a prefix of the plaintexts of frames the AEAD
  accepted, taken in order from the front of the stream.
\<close>
theorem chacha_delivers_only_genuine:
  "\<exists>bs e r' fs rest. read_calls (chacha_read aopen conn_read) ns (r, []) = Some (bs, e, r')
    \<and> list_all (genuine aopen) fs \<and> conn_avail r = concat (map cframe fs) @ rest
    \<and> prefix bs (concat (map (plain aopen) fs))"
  using net.chacha_calls_sound [where s = r and buf = "[]" and ns = ns and aopen = aopen] by fastforce

text \<open>
  There is no protection against replay or reordering: frames carry no sequence number and both
  directions use one key, so any list of frames that were ever sent (repeated, permuted, or sent
  by the reader itself) is accepted and delivered like fresh data.
\<close>
theorem chacha_replay_accepted:
  assumes "list_all (solid aopen) old" and "set fs \<subseteq> set old" and "conn_avail r = concat (map cframe fs)"
  shows "\<exists>r'. read_full (chacha_read aopen conn_read) (length (concat (map (plain aopen) fs))) (r, []) =
    Some (Inr (concat (map (plain aopen) fs)), r')"
proof -
  from assms(1,2) have fs: "list_all (solid aopen) fs" by (auto simp: list_all_iff)
  with assms(3) have "honest aopen (conn_avail r)" by (auto simp: honest_def)
  with byte_source.read_full_enough [OF net.chacha_byte_source, of aopen "(r, [])"
      "length (concat (map (plain aopen) fs))"]
    unframe_frames [OF solid_genuine [OF fs], of "[]"] assms(3) show ?thesis by auto
qed

text \<open>
  A stand-in for the AEAD that meets what the code relies on, for the witnesses: the tag is sixteen
  zero bytes.
\<close>

definition sample_seal :: "bytes \<Rightarrow> bytes \<Rightarrow> bytes" where
  "sample_seal nonce p = p @ replicate tagSize 0"

definition sample_open :: "bytes \<Rightarrow> bytes \<Rightarrow> bytes result" where
  "sample_open nonce ct =
     (if tagSize \<le> length ct \<and> drop (length ct - tagSize) ct = replicate tagSize 0
      then Inr (take (length ct - tagSize) ct) else Inl (ErrText ''message authentication failed''))"

definition sample_rand :: "nat \<Rightarrow> bytes result" where
  "sample_rand k = Inr (replicate nonceSize (word_of_nat k))"

lemma sample_aead: "aead_ok sample_seal sample_open" "rand_ok sample_rand"
  by (simp_all add: aead_ok_def rand_ok_def sample_seal_def sample_open_def sample_rand_def)

definition fresh_conn :: "bytes list \<Rightarrow> conn" where
  "fresh_conn ss = \<lparr>cin = \<lparr>segs = ss, in_end = EOF\<rparr>, cout = \<lparr>sent = [], faults = []\<rparr>, closed = False\<rparr>"

lemma fresh_conn_simps [simp]:
  "no_faults (fresh_conn ss)" "sent (cout (fresh_conn ss)) = []" "conn_avail (fresh_conn ss) = concat ss"
  "conn_fin (fresh_conn ss) = EOF"
  by (simp_all add: fresh_conn_def no_faults_def conn_avail_def in_avail_def)

theorem chacha_roundtrip_witness:
  "\<exists>c' k' r' r''. write_seq (chacha_write sample_seal sample_rand conn_write) [[1, 2], [3]] (fresh_conn [], 0)
      = (None, c', k')
    \<and> read_full (chacha_read sample_open conn_read) 3 (fresh_conn [sent (cout c')], []) = Some (Inr [1, 2, 3], r')
    \<and> read_full (chacha_read sample_open conn_read) 1 r' = Some (Inl EOF, r'')"
proof -
  obtain err c' k' where w: "write_seq (chacha_write sample_seal sample_rand conn_write) [[1, 2], [3]]
      (fresh_conn [], 0) = (err, c', k')" by (metis prod.collapse)
  have avail: "conn_avail (fresh_conn [sent (cout c')]) = sent (cout c')" by simp
  have len: "concat [[1, 2], [3 :: byte]] = [1, 2, 3]" "length [1, 2, 3 :: byte] = 3" by simp_all
  from chacha_roundtrip [OF sample_aead fresh_conn_simps(1,2) w avail, unfolded len fresh_conn_simps(4)] w
  show ?thesis by blast
qed

theorem chacha_frames_bounded_witness:
  "\<exists>c' fs. chacha_write sample_seal sample_rand conn_write [1, 2] (fresh_conn [], 0) = ((2, None), c', length fs)
    \<and> sent (cout c') = concat (map cframe fs) \<and> length fs = 1"
proof -
  have n: "(2 + maxPayload - 1) div maxPayload = 1" by (simp add: chacha_sizes)
  have two: "length [1, 2 :: byte] = 2" by simp
  from chacha_frames_bounded [OF sample_aead fresh_conn_simps(1) [of "[]"], of "[1, 2]" 0,
      unfolded two n fresh_conn_simps add_0 append_Nil]
  show ?thesis by blast
qed

theorem chacha_replay_accepted_witness:
  "\<exists>r'. read_full (chacha_read sample_open conn_read) 4
      (fresh_conn [concat (map cframe (replicate 2 (sealed sample_seal sample_rand 0 [5, 6])))], [])
    = Some (Inr [5, 6, 5, 6], r')"
proof -
  have "length [5, 6 :: byte] \<le> maxPayload" by (simp add: chacha_sizes)
  note f = sealed_genuine [OF sample_aead this, of 0]
  have "list_all (solid sample_open) [sealed sample_seal sample_rand 0 [5, 6]]" using f by (simp add: solid_def)
  from chacha_replay_accepted [OF this, of "replicate 2 (sealed sample_seal sample_rand 0 [5, 6])"
      "fresh_conn [concat (map cframe (replicate 2 (sealed sample_seal sample_rand 0 [5, 6])))]"] f(2)
  show ?thesis by (auto simp: numeral_2_eq_2 numeral_eq_Suc)
qed

end
