(* ===== verification/Crypto.thy ===== *)
theory Crypto
  imports Go_Std Chacha
begin

text \<open>
  pkg/crypto: the choice of an encryption layer (crypto.go), TLS (tls_crypto.go) and the certificate
  manager (cert.go). Reading files, X.509 and the TLS handshake are parameters (record
  \<open>tls_env\<close>), except for what crypto/tls checks in its configuration before it says anything
  on the wire. What is modelled is which configuration reaches the handshake, which files are read
  and written, and which failures end up where.
\<close>

section \<open>Configuration and the three layers (crypto.go)\<close>

record crypto_config =
  cc_cert_file :: string
  cc_key_file :: string
  cc_ca_cert :: string
  cc_skip_verify :: bool
  cc_psk :: string

text \<open>A \<open>tls.Config\<close>, as far as the code sets it; \<open>ServerName\<close> it never sets.\<close>

datatype tls_version = VersionTLS12 | VersionTLS13

text \<open>The versions are ordered, so that a minimum version can be compared.\<close>

instantiation tls_version :: linorder
begin

definition less_eq_tls_version :: "tls_version \<Rightarrow> tls_version \<Rightarrow> bool" where
  "less_eq_tls_version v w \<longleftrightarrow> v = VersionTLS12 \<or> w = VersionTLS13"

definition less_tls_version :: "tls_version \<Rightarrow> tls_version \<Rightarrow> bool" where
  "less_tls_version v w \<longleftrightarrow> v = VersionTLS12 \<and> w = VersionTLS13"

instance
proof
  fix u v w :: tls_version
  show "(v < w) = (v \<le> w \<and> \<not> w \<le> v)" and "v \<le> v" and "v \<le> w \<or> w \<le> v"
    by (cases v; cases w; simp add: less_eq_tls_version_def less_tls_version_def)+
  show "u \<le> v \<Longrightarrow> v \<le> w \<Longrightarrow> u \<le> w" and "v \<le> w \<Longrightarrow> w \<le> v \<Longrightarrow> v = w"
    by (cases u; cases v; cases w; simp add: less_eq_tls_version_def)+
qed

end

record 'cert tls_config =
  tls_certificates :: "'cert list"
  tls_min_version :: tls_version
  tls_next_protos :: "string list"
  tls_skip_verify :: bool
  tls_root_cas :: "bytes option"
  tls_server_name :: string

definition empty_tls_config :: "'cert tls_config" where
  "empty_tls_config =
     \<lparr>tls_certificates = [], tls_min_version = VersionTLS12, tls_next_protos = [], tls_skip_verify = False,
      tls_root_cas = None, tls_server_name = []\<rparr>"

record 'cert cert_manager =
  cm_cert :: "'cert option"
  cm_tls_conf :: "'cert tls_config"

datatype 'cert crypto =
    ChaCha20Crypto "crypto_config option"
  | NoneCrypto
  | TLSCrypto "crypto_config option" "'cert cert_manager option"

definition new_chacha20_crypto :: "crypto_config option \<Rightarrow> 'cert crypto" where
  "new_chacha20_crypto cfg = ChaCha20Crypto cfg"

definition new_none_crypto :: "'cert crypto" where
  "new_none_crypto = NoneCrypto"

definition new_tls_crypto :: "crypto_config option \<Rightarrow> 'cert crypto" where
  "new_tls_crypto cfg = TLSCrypto cfg None"

definition new_tls_crypto_with_cert_manager :: "crypto_config option \<Rightarrow> 'cert cert_manager \<Rightarrow> 'cert crypto" where
  "new_tls_crypto_with_cert_manager cfg cert_mgr = TLSCrypto cfg (Some cert_mgr)"

definition crypto_new :: "string \<Rightarrow> crypto_config option \<Rightarrow> 'cert crypto" where
  "crypto_new typ cfg =
     (if typ = ''chacha20'' then new_chacha20_crypto cfg
      else if typ = ''none'' then new_none_crypto
      else new_tls_crypto cfg)"

lemmas new_crypto_defs [simp] = new_chacha20_crypto_def new_none_crypto_def new_tls_crypto_def
  new_tls_crypto_with_cert_manager_def

fun crypto_type :: "'cert crypto \<Rightarrow> string" where
  "crypto_type (ChaCha20Crypto cfg) = ''chacha20''"
| "crypto_type NoneCrypto = ''none''"
| "crypto_type (TLSCrypto cfg cm) = ''tls''"

section \<open>Certificates (cert.go)\<close>

record cert_config =
  crt_cert_file :: string
  crt_key_file :: string
  crt_organization :: string
  crt_common_name :: string
  crt_valid_for :: int
  crt_hosts :: "string list"

record cert_template =
  ct_organization :: string
  ct_common_name :: string
  ct_not_before :: int
  ct_not_after :: int
  ct_ips :: "string list"
  ct_dns_names :: "string list"

text \<open>
  The environment: loading a key pair, reading a file, parsing an IP address, the steps of creating
  a certificate that can fail (the key, the serial number, the signature and the key's encoding, the
  pair), encoding it for a file, writing a file (path, mode, and whether it fails), and the
  handshakes, which say whether they fail.
\<close>

record 'cert tls_env =
  te_load :: "string \<Rightarrow> string \<Rightarrow> 'cert result"
  te_read_file :: "string \<Rightarrow> bytes result"
  te_is_ip :: "string \<Rightarrow> bool"
  te_generate_key :: "bytes result"
  te_serial :: "int result"
  te_create :: "cert_template \<Rightarrow> int \<Rightarrow> bytes \<Rightarrow> bytes result"
  te_marshal_key :: "bytes \<Rightarrow> bytes result"
  te_key_pair :: "bytes \<Rightarrow> bytes \<Rightarrow> 'cert result"
  te_cert_key :: "'cert \<Rightarrow> (bytes \<times> bytes option)"
  te_write_file :: "string \<Rightarrow> bytes \<Rightarrow> go_error option"
  te_server_handshake :: "'cert tls_config \<Rightarrow> go_error option"
  te_client_handshake :: "'cert tls_config \<Rightarrow> go_error option"

definition hour :: int where "hour = 3600 * 1000000000"

definition wrap_error :: "string \<Rightarrow> go_error \<Rightarrow> go_error" where
  "wrap_error msg e = ErrText (msg @ '': '' @ error_text e)"

definition cert_template_of :: "'cert tls_env \<Rightarrow> cert_config \<Rightarrow> int \<Rightarrow> cert_template" where
  "cert_template_of env cfg now =
     (let org = (if crt_organization cfg = [] then ''QTRP'' else crt_organization cfg);
          cn = (if crt_common_name cfg = [] then ''qtrp-server'' else crt_common_name cfg);
          valid_for = (if crt_valid_for cfg = 0 then 365 * 24 * hour else crt_valid_for cfg);
          hosts = (if crt_hosts cfg = [] then [''localhost'', ''127.0.0.1'', ''::1''] else crt_hosts cfg)
      in \<lparr>ct_organization = org, ct_common_name = cn, ct_not_before = now, ct_not_after = now + valid_for,
          ct_ips = filter (te_is_ip env) hosts, ct_dns_names = filter (\<lambda>h. \<not> te_is_ip env h) hosts\<rparr>)"

definition generate_self_signed_cert :: "'cert tls_env \<Rightarrow> int \<Rightarrow> cert_config \<Rightarrow> 'cert result" where
  "generate_self_signed_cert env now cfg =
     (case te_generate_key env of
        Inl e \<Rightarrow> Inl (wrap_error ''generate key'' e)
      | Inr priv \<Rightarrow>
          (case te_serial env of
             Inl e \<Rightarrow> Inl (wrap_error ''generate serial'' e)
           | Inr serial \<Rightarrow>
               (case te_create env (cert_template_of env cfg now) serial priv of
                  Inl e \<Rightarrow> Inl (wrap_error ''create certificate'' e)
                | Inr cert_der \<Rightarrow>
                    (case te_marshal_key env priv of
                       Inl e \<Rightarrow> Inl (wrap_error ''marshal key'' e)
                     | Inr priv_bytes \<Rightarrow> te_key_pair env cert_der priv_bytes))))"

definition build_tls_config :: "'cert cert_manager \<Rightarrow> 'cert cert_manager" where
  "build_tls_config cm =
     cm\<lparr>cm_tls_conf := empty_tls_config
          \<lparr>tls_certificates := (case cm_cert cm of None \<Rightarrow> [] | Some c \<Rightarrow> [c]),
           tls_next_protos := [''qtrp''], tls_min_version := VersionTLS13\<rparr>\<rparr>"

text \<open>\<open>saveCert\<close>: its error, and the files written, in order.\<close>

definition save_cert ::
  "'cert tls_env \<Rightarrow> string \<Rightarrow> string \<Rightarrow> 'cert cert_manager \<Rightarrow> go_error option \<times> string list" where
  "save_cert env cert_file key_file cm =
     (case cm_cert cm of
        None \<Rightarrow> (Some (ErrText ''no certificate to save''), [])
      | Some cert \<Rightarrow>
          (case te_cert_key env cert of (der, key) \<Rightarrow>
             (case te_write_file env cert_file der of
                Some e \<Rightarrow> (Some (wrap_error ''write cert file'' e), [cert_file])
              | None \<Rightarrow>
                  (case key of
                     None \<Rightarrow> (Some (ErrText ''unsupported private key type''), [cert_file])
                   | Some priv \<Rightarrow>
                       (case te_marshal_key env priv of
                          Inl e \<Rightarrow> (Some (wrap_error ''marshal key'' e), [cert_file])
                        | Inr priv_bytes \<Rightarrow>
                            (case te_write_file env key_file priv_bytes of
                               Some e \<Rightarrow> (Some (wrap_error ''write key file'' e), [cert_file, key_file])
                             | None \<Rightarrow> (None, [cert_file, key_file])))))))"

text \<open>\<open>NewCertManager\<close>: the manager or an error, and the files written.\<close>

definition new_cert_manager ::
  "'cert tls_env \<Rightarrow> int \<Rightarrow> cert_config \<Rightarrow> 'cert cert_manager result \<times> string list" where
  "new_cert_manager env now cfg =
     (let files = crt_cert_file cfg \<noteq> [] \<and> crt_key_file cfg \<noteq> [];
          loaded = (if files then te_load env (crt_cert_file cfg) (crt_key_file cfg) else Inl EOF);
          manager = (\<lambda>cert. build_tls_config \<lparr>cm_cert = Some cert, cm_tls_conf = empty_tls_config\<rparr>)
      in (case loaded of
            Inr cert \<Rightarrow> (Inr (manager cert), [])
          | Inl _ \<Rightarrow>
              (case generate_self_signed_cert env now cfg of
                 Inl e \<Rightarrow> (Inl (wrap_error ''generate certificate'' e), [])
               | Inr cert \<Rightarrow>
                   (Inr (manager cert),
                    if files then snd (save_cert env (crt_cert_file cfg) (crt_key_file cfg) (manager cert))
                    else []))))"

definition get_server_tls_config :: "'cert cert_manager \<Rightarrow> 'cert tls_config" where
  "get_server_tls_config cm = cm_tls_conf cm"

definition get_certificate :: "'cert cert_manager \<Rightarrow> 'cert option" where
  "get_certificate cm = cm_cert cm"

definition get_client_tls_config :: "bool \<Rightarrow> 'cert tls_config" where
  "get_client_tls_config skip_verify =
     empty_tls_config\<lparr>tls_skip_verify := skip_verify, tls_next_protos := [''qtrp''],
       tls_min_version := VersionTLS13\<rparr>"

section \<open>Wrapping a connection (tls_crypto.go and the WrapConn methods)\<close>

text \<open>
  \<open>tls.Client(conn, config).Handshake()\<close>: crypto/tls refuses a configuration that names no server
  and does not skip the verification, before anything is sent.
\<close>

definition client_handshake :: "'cert tls_env \<Rightarrow> 'cert tls_config \<Rightarrow> go_error option" where
  "client_handshake env cfg =
     (if tls_server_name cfg = [] \<and> \<not> tls_skip_verify cfg then
        Some (ErrText ''tls: either ServerName or InsecureSkipVerify must be specified in the tls.Config'')
      else te_client_handshake env cfg)"

datatype 'cert wrapped = PlainConn | TLSConn "'cert tls_config" | ChaChaConn bytes

text \<open>The result, and whether the underlying connection was closed.\<close>

definition wrap_server ::
  "'cert tls_env \<Rightarrow> crypto_config option \<Rightarrow> 'cert cert_manager option \<Rightarrow> 'cert wrapped result outcome \<times> bool" where
  "wrap_server env cfg cm =
     (let handshake = (\<lambda>conf. (case te_server_handshake env conf of
                                 Some e \<Rightarrow> (Done (Inl e), True)
                               | None \<Rightarrow> (Done (Inr (TLSConn conf)), False)))
      in (case cm of
            Some m \<Rightarrow> handshake (get_server_tls_config m)
          | None \<Rightarrow>
              (case cfg of
                 None \<Rightarrow> (Panic ''invalid memory address or nil pointer dereference'', False)
               | Some c \<Rightarrow>
                   (case te_load env (cc_cert_file c) (cc_key_file c) of
                      Inl e \<Rightarrow> (Done (Inl e), False)
                    | Inr cert \<Rightarrow>
                        handshake (empty_tls_config\<lparr>tls_certificates := [cert], tls_min_version := VersionTLS12\<rparr>)))))"

definition wrap_client ::
  "'cert tls_env \<Rightarrow> crypto_config option \<Rightarrow> 'cert wrapped result outcome \<times> bool" where
  "wrap_client env cfg =
     (case cfg of
        None \<Rightarrow> (Panic ''invalid memory address or nil pointer dereference'', False)
      | Some c \<Rightarrow>
          (let base = empty_tls_config\<lparr>tls_min_version := VersionTLS12, tls_skip_verify := cc_skip_verify c\<rparr>;
               conf = (if cc_ca_cert c = [] then Inr base
                       else (case te_read_file env (cc_ca_cert c) of
                               Inl e \<Rightarrow> Inl e
                             | Inr pem \<Rightarrow> Inr (base\<lparr>tls_root_cas := Some pem\<rparr>)))
           in (case conf of
                 Inl e \<Rightarrow> (Done (Inl e), False)
               | Inr tc \<Rightarrow>
                   (case client_handshake env tc of
                      Some e \<Rightarrow> (Done (Inl e), True)
                    | None \<Rightarrow> (Done (Inr (TLSConn tc)), False)))))"

definition none_wrap_conn :: "'cert wrapped result outcome \<times> bool" where
  "none_wrap_conn = (Done (Inr PlainConn), False)"

definition chacha_wrap_conn ::
  "(bytes \<Rightarrow> bytes) \<Rightarrow> crypto_config option \<Rightarrow> 'cert wrapped result outcome \<times> bool" where
  "chacha_wrap_conn sha256 cfg =
     (case cfg of
        None \<Rightarrow> (Panic ''invalid memory address or nil pointer dereference'', False)
      | Some c \<Rightarrow>
          (let key = derive_key sha256 (cc_psk c) in
           if length key \<noteq> 32 then (Done (Inl (ErrText ''chacha20poly1305: bad key length'')), False)
           else (Done (Inr (ChaChaConn key)), False)))"

definition tls_wrap_conn ::
  "'cert tls_env \<Rightarrow> bool \<Rightarrow> crypto_config option \<Rightarrow> 'cert cert_manager option
   \<Rightarrow> 'cert wrapped result outcome \<times> bool" where
  "tls_wrap_conn env is_server cfg cm = (if is_server then wrap_server env cfg cm else wrap_client env cfg)"

text \<open>The call through the interface \<open>Crypto\<close>.\<close>

fun wrap_conn ::
  "'cert tls_env \<Rightarrow> (bytes \<Rightarrow> bytes) \<Rightarrow> bool \<Rightarrow> 'cert crypto \<Rightarrow> 'cert wrapped result outcome \<times> bool" where
  "wrap_conn env sha256 is_server NoneCrypto = none_wrap_conn"
| "wrap_conn env sha256 is_server (ChaCha20Crypto cfg) = chacha_wrap_conn sha256 cfg"
| "wrap_conn env sha256 is_server (TLSCrypto cfg cm) = tls_wrap_conn env is_server cfg cm"

text \<open>\<open>WrapListener\<close>: the TLS configuration the listener gets, none for the other layers.\<close>

definition none_wrap_listener :: "'cert tls_config option result outcome" where
  "none_wrap_listener = Done (Inr None)"

definition chacha_wrap_listener :: "'cert tls_config option result outcome" where
  "chacha_wrap_listener = Done (Inr None)"

definition tls_wrap_listener ::
  "'cert tls_env \<Rightarrow> crypto_config option \<Rightarrow> 'cert cert_manager option \<Rightarrow> 'cert tls_config option result outcome" where
  "tls_wrap_listener env cfg cm =
     (case cm of
        Some m \<Rightarrow> Done (Inr (Some (get_server_tls_config m)))
      | None \<Rightarrow>
          (case cfg of
             None \<Rightarrow> Panic ''invalid memory address or nil pointer dereference''
           | Some c \<Rightarrow>
               (case te_load env (cc_cert_file c) (cc_key_file c) of
                  Inl e \<Rightarrow> Done (Inl e)
                | Inr cert \<Rightarrow>
                    Done (Inr (Some (empty_tls_config\<lparr>tls_certificates := [cert],
                      tls_min_version := VersionTLS12\<rparr>))))))"

fun wrap_listener :: "'cert tls_env \<Rightarrow> 'cert crypto \<Rightarrow> 'cert tls_config option result outcome" where
  "wrap_listener env NoneCrypto = none_wrap_listener"
| "wrap_listener env (ChaCha20Crypto cfg) = chacha_wrap_listener"
| "wrap_listener env (TLSCrypto cfg cm) = tls_wrap_listener env cfg cm"

lemmas wrap_defs = none_wrap_conn_def chacha_wrap_conn_def tls_wrap_conn_def get_server_tls_config_def
  none_wrap_listener_def chacha_wrap_listener_def tls_wrap_listener_def

section \<open>Properties\<close>

text \<open>
  With TLS and certificate verification on (\<open>skip_verify: false\<close>, the shipped client
  configuration), no client ever connects: \<open>wrapClient\<close> never sets the server name, so crypto/tls
  refuses the configuration whatever the server, the CA file and the certificate are.
\<close>
theorem tls_client_needs_skip_verify:
  assumes "\<not> cc_skip_verify c" and "typ \<noteq> ''chacha20''" and "typ \<noteq> ''none''"
  shows "\<exists>e closed. wrap_conn env sha256 False (crypto_new typ (Some c)) = (Done (Inl e), closed)"
  using assms
  by (auto simp: crypto_new_def wrap_defs wrap_client_def client_handshake_def empty_tls_config_def Let_def
      split: sum.splits)

definition sample_tls_env :: "string tls_env" where
  "sample_tls_env =
     \<lparr>te_load = (\<lambda>c k. Inl (ErrText ''no such file'')), te_read_file = (\<lambda>f. Inr []),
      te_is_ip = (\<lambda>h. h \<noteq> ''localhost''), te_generate_key = Inr [1], te_serial = Inr 1,
      te_create = (\<lambda>t n k. Inr [2]), te_marshal_key = Inr, te_key_pair = (\<lambda>c k. Inr ''pair''),
      te_cert_key = (\<lambda>c. ([2], Some [1])), te_write_file = (\<lambda>f d. None),
      te_server_handshake = (\<lambda>c. None), te_client_handshake = (\<lambda>c. None)\<rparr>"

definition sample_crypto_config :: crypto_config where
  "sample_crypto_config =
     \<lparr>cc_cert_file = [], cc_key_file = [], cc_ca_cert = [], cc_skip_verify = False, cc_psk = []\<rparr>"

theorem tls_client_needs_skip_verify_witness:
  "\<exists>e closed. wrap_conn sample_tls_env (\<lambda>b. b) False (crypto_new ''tls'' (Some sample_crypto_config))
     = (Done (Inl e), closed)"
  by (rule tls_client_needs_skip_verify) (simp_all add: sample_crypto_config_def)

text \<open>
  The certificate manager: it fails exactly when there is no loadable pair and a certificate cannot
  be generated; otherwise its server configuration offers TLS 1.3 only, the protocol \<open>qtrp\<close> and
  its one certificate. It writes files only after it generated a certificate, so a configured pair
  that merely fails to load (a wrong permission, a key of another certificate) is overwritten,
  starting with the certificate file.
\<close>
theorem cert_manager_result:
  "case new_cert_manager env now cfg of (r, written) \<Rightarrow>
     (\<forall>e. r = Inl e \<longleftrightarrow>
        (\<exists>err. generate_self_signed_cert env now cfg = Inl err \<and> e = wrap_error ''generate certificate'' err)
        \<and> \<not> (crt_cert_file cfg \<noteq> [] \<and> crt_key_file cfg \<noteq> []
             \<and> (\<exists>pair. te_load env (crt_cert_file cfg) (crt_key_file cfg) = Inr pair)))
   \<and> (case r of
        Inl e \<Rightarrow> written = []
      | Inr cm \<Rightarrow>
          (\<exists>cert. cm_cert cm = Some cert \<and> tls_certificates (cm_tls_conf cm) = [cert])
          \<and> tls_min_version (cm_tls_conf cm) = VersionTLS13 \<and> tls_next_protos (cm_tls_conf cm) = [''qtrp'']
          \<and> (written = []) =
              (crt_cert_file cfg = [] \<or> crt_key_file cfg = []
               \<or> (\<exists>pair. te_load env (crt_cert_file cfg) (crt_key_file cfg) = Inr pair))
          \<and> prefix written [crt_cert_file cfg, crt_key_file cfg])"
  by (cases "crt_cert_file cfg = [] \<or> crt_key_file cfg = []";
      cases "te_load env (crt_cert_file cfg) (crt_key_file cfg)";
      cases "generate_self_signed_cert env now cfg")
    (auto simp: new_cert_manager_def Let_def build_tls_config_def empty_tls_config_def save_cert_def
      split: prod.splits option.splits sum.splits)

end
