(* ===== verification/Transport.thy ===== *)
theory Transport
  imports Go_Io Pool Crypto
begin

text \<open>
  pkg/transport and pkg/mux: which transport a configuration selects, what kind of connection it
  hands out, the wrappers around package net, the gnet adapter between event callbacks and blocking
  reads, and the parameters of a session. gnet and smux are third-party and only their calls appear;
  the QUIC transport has its own theory.
\<close>

section \<open>Selection (transport.go)\<close>

record 'cert quic_config =
  qc_tls_config :: "'cert tls_config option"
  qc_insecure_skip_verify :: bool
  qc_dial_timeout :: int

datatype 'cert transport = NetTransport | GnetTransport | QUICTransport "'cert quic_config"

definition seconds :: int where "seconds = 1000000000"

definition new_quic_transport :: "'cert transport" where
  "new_quic_transport =
     QUICTransport \<lparr>qc_tls_config = None, qc_insecure_skip_verify = True, qc_dial_timeout = 10 * seconds\<rparr>"

definition new_quic_transport_with_config :: "'cert quic_config option \<Rightarrow> 'cert transport" where
  "new_quic_transport_with_config cfg =
     (let c = (case cfg of
                 None \<Rightarrow> \<lparr>qc_tls_config = None, qc_insecure_skip_verify = False, qc_dial_timeout = 0\<rparr>
               | Some c \<Rightarrow> c)
      in QUICTransport (if qc_dial_timeout c = 0 then c\<lparr>qc_dial_timeout := 10 * seconds\<rparr> else c))"

definition transport_new :: "string \<Rightarrow> 'cert transport" where
  "transport_new typ =
     (if typ = ''gnet'' then GnetTransport
      else if typ = ''quic'' then new_quic_transport
      else NetTransport)"

definition transport_new_with_quic :: "string \<Rightarrow> 'cert quic_config option \<Rightarrow> 'cert transport" where
  "transport_new_with_quic typ cfg =
     (if typ = ''gnet'' then GnetTransport
      else if typ = ''quic'' then new_quic_transport_with_config cfg
      else NetTransport)"

fun transport_type :: "'cert transport \<Rightarrow> string" where
  "transport_type NetTransport = ''net''"
| "transport_type GnetTransport = ''gnet''"
| "transport_type (QUICTransport cfg) = ''quic''"

text \<open>
  The dynamic type of the connection \<open>Dial\<close> and \<open>Accept\<close> return: the wrappers embed a
  \<open>net.Conn\<close>, but they are not \<open>*net.TCPConn\<close> for a type assertion.
\<close>

datatype conn_kind = KindTCPConn | KindNetConn | KindGnetConn | KindQUICConn bool

fun dial_kind :: "'cert transport \<Rightarrow> conn_kind" where
  "dial_kind NetTransport = KindNetConn"
| "dial_kind GnetTransport = KindNetConn"
| "dial_kind (QUICTransport cfg) = KindQUICConn False"

fun accept_kind :: "'cert transport \<Rightarrow> conn_kind" where
  "accept_kind NetTransport = KindNetConn"
| "accept_kind GnetTransport = KindGnetConn"
| "accept_kind (QUICTransport cfg) = KindQUICConn True"

definition is_tcp_conn :: "conn_kind \<Rightarrow> bool" where
  "is_tcp_conn k \<longleftrightarrow> k = KindTCPConn"

text \<open>\<open>WrapNetConn\<close> keeps what already is a transport connection.\<close>

definition wrap_net_conn :: "conn_kind \<Rightarrow> conn_kind" where
  "wrap_net_conn k = (case k of KindTCPConn \<Rightarrow> KindNetConn | _ \<Rightarrow> k)"

section \<open>net (net_transport.go)\<close>

text \<open>
  The wrappers around what package \<open>net\<close> returns: \<open>listen\<close> and \<open>dial\<close> are its functions, over the
  network and the address, \<open>accept\<close> is the \<open>Accept\<close> of its listener (\<open>None\<close> blocks). The context is
  a field of the connection; \<open>None\<close> is nil.
\<close>

record ('c, 'x) net_conn =
  nw_conn :: 'c
  nw_ctx :: "'x option"

record 'l net_listener =
  nl_ln :: 'l

definition net_listen :: "(string \<Rightarrow> string \<Rightarrow> 'l result) \<Rightarrow> string \<Rightarrow> 'l net_listener result" where
  "net_listen listen addr =
     (case listen ''tcp'' addr of
        Inl e \<Rightarrow> Inl e
      | Inr ln \<Rightarrow> Inr \<lparr>nl_ln = ln\<rparr>)"

definition net_dial :: "(string \<Rightarrow> string \<Rightarrow> 'c result) \<Rightarrow> string \<Rightarrow> ('c, 'x) net_conn result" where
  "net_dial dial addr =
     (case dial ''tcp'' addr of
        Inl e \<Rightarrow> Inl e
      | Inr c \<Rightarrow> Inr \<lparr>nw_conn = c, nw_ctx = None\<rparr>)"

definition net_accept ::
  "('l \<Rightarrow> ('c result \<times> 'l) option) \<Rightarrow> 'l net_listener \<Rightarrow> (('c, 'x) net_conn result \<times> 'l net_listener) option" where
  "net_accept accept l =
     (case accept (nl_ln l) of
        None \<Rightarrow> None
      | Some (Inl e, ln) \<Rightarrow> Some (Inl e, l\<lparr>nl_ln := ln\<rparr>)
      | Some (Inr c, ln) \<Rightarrow> Some (Inr \<lparr>nw_conn = c, nw_ctx = None\<rparr>, l\<lparr>nl_ln := ln\<rparr>))"

definition net_listener_close :: "('l \<Rightarrow> go_error option \<times> 'l) \<Rightarrow> 'l net_listener \<Rightarrow> go_error option \<times> 'l net_listener" where
  "net_listener_close close l = (case close (nl_ln l) of (err, ln) \<Rightarrow> (err, l\<lparr>nl_ln := ln\<rparr>))"

definition net_set_context :: "'x option \<Rightarrow> ('c, 'x) net_conn \<Rightarrow> ('c, 'x) net_conn" where
  "net_set_context ctx c = c\<lparr>nw_ctx := ctx\<rparr>"

definition net_context :: "('c, 'x) net_conn \<Rightarrow> 'x option" where
  "net_context c = nw_ctx c"

section \<open>gnet (gnet_transport.go)\<close>

definition readChSize :: nat where "readChSize = 256"
definition acceptChSize :: nat where "acceptChSize = 1024"

record 'x gnet_conn =
  g_out :: conn
  g_read_ch :: "bytes list"
  g_read_buf :: bytes
  g_closed :: bool
  g_conn_closed :: bool
  g_ctx :: "'x option"

record gnet_listener =
  gl_accept_ch :: "nat list"
  gl_closed :: bool
  gl_engine_valid :: bool
  gl_engine_stopped :: bool

datatype gnet_action = GnetNone | GnetClose

definition new_gnet_conn :: "conn \<Rightarrow> 'x gnet_conn" where
  "new_gnet_conn c =
     \<lparr>g_out = c, g_read_ch = [], g_read_buf = [], g_closed = False, g_conn_closed = False, g_ctx = None\<rparr>"

definition new_gnet_listener :: gnet_listener where
  "new_gnet_listener =
     \<lparr>gl_accept_ch = [], gl_closed = False, gl_engine_valid = False, gl_engine_stopped = False\<rparr>"

text \<open>
  \<open>Listen\<close> starts the event loop in a goroutine that drops its error, waits a tenth of a second and
  returns the listener; \<open>run_err\<close> is what \<open>gnet.Run\<close> fails with, \<open>booted\<close> whether gnet has called
  \<open>OnBoot\<close> by then.
\<close>

definition on_boot :: "gnet_listener \<Rightarrow> gnet_action \<times> gnet_listener" where
  "on_boot l = (GnetNone, l\<lparr>gl_engine_valid := True\<rparr>)"

definition gnet_listen :: "go_error option \<Rightarrow> bool \<Rightarrow> gnet_listener result" where
  "gnet_listen run_err booted =
     (case run_err of
        Some e \<Rightarrow> Inr new_gnet_listener
      | None \<Rightarrow> Inr (if booted then snd (on_boot new_gnet_listener) else new_gnet_listener))"

definition gnet_dial :: "(string \<Rightarrow> string \<Rightarrow> 'c result) \<Rightarrow> string \<Rightarrow> ('c, 'x) net_conn result" where
  "gnet_dial dial addr =
     (case dial ''tcp'' addr of
        Inl e \<Rightarrow> Inl e
      | Inr c \<Rightarrow> Inr \<lparr>nw_conn = c, nw_ctx = None\<rparr>)"

definition gnet_set_context :: "'x option \<Rightarrow> 'x gnet_conn \<Rightarrow> 'x gnet_conn" where
  "gnet_set_context ctx g = g\<lparr>g_ctx := ctx\<rparr>"

definition gnet_context :: "'x gnet_conn \<Rightarrow> 'x option" where
  "gnet_context g = g_ctx g"

text \<open>
  \<open>OnOpen\<close> waits until the accept channel has room or the listener is closed; when both hold the
  runtime chooses. \<open>None\<close> is the event loop blocked.
\<close>

definition on_open :: "bool \<Rightarrow> nat \<Rightarrow> gnet_listener \<Rightarrow> (gnet_action \<times> gnet_listener) option" where
  "on_open choice c l =
     (let room = length (gl_accept_ch l) < acceptChSize in
      if room \<and> (gl_closed l \<longrightarrow> choice) then Some (GnetNone, l\<lparr>gl_accept_ch := gl_accept_ch l @ [c]\<rparr>)
      else if gl_closed l then Some (GnetClose, l)
      else None)"

definition gl_accept :: "bool \<Rightarrow> gnet_listener \<Rightarrow> (nat result \<times> gnet_listener) option" where
  "gl_accept choice l =
     (case gl_accept_ch l of
        c # cs \<Rightarrow>
          if gl_closed l \<and> \<not> choice then Some (Inl (ErrText ''listener closed''), l)
          else Some (Inr c, l\<lparr>gl_accept_ch := cs\<rparr>)
      | [] \<Rightarrow> if gl_closed l then Some (Inl (ErrText ''listener closed''), l) else None)"

definition gl_close :: "gnet_listener \<Rightarrow> gnet_listener" where
  "gl_close l =
     (if gl_closed l then l
      else (let l1 = l\<lparr>gl_closed := True\<rparr> in
            if gl_engine_valid l1 then l1\<lparr>gl_engine_stopped := True\<rparr> else l1))"

definition on_close :: "'x gnet_conn \<Rightarrow> 'x gnet_conn" where
  "on_close g = g\<lparr>g_closed := True\<rparr>"

text \<open>
  \<open>OnTraffic\<close> with the bytes gnet has for the connection: they go into the channel, unless it is
  full, and then they are dropped.
\<close>

definition on_traffic :: "bool \<Rightarrow> bytes \<Rightarrow> 'x gnet_conn \<Rightarrow> gnet_action \<times> 'x gnet_conn" where
  "on_traffic choice buf g =
     (if length buf > 0 then
        (let room = length (g_read_ch g) < readChSize in
         if room \<and> (g_closed g \<longrightarrow> choice) then (GnetNone, g\<lparr>g_read_ch := g_read_ch g @ [buf]\<rparr>)
         else if g_closed g then (GnetClose, g)
         else (GnetNone, g))
      else (GnetNone, g))"

definition gnet_read :: "bool \<Rightarrow> 'x gnet_conn reader" where
  "gnet_read choice n g =
     (if g_read_buf g \<noteq> [] then
        Some ((take n (g_read_buf g), None), g\<lparr>g_read_buf := drop n (g_read_buf g)\<rparr>)
      else
        (case g_read_ch g of
           data # ds \<Rightarrow>
             if g_closed g \<and> \<not> choice then Some (([], Some EOF), g)
             else Some ((take n data, None), g\<lparr>g_read_ch := ds, g_read_buf := drop n data\<rparr>)
         | [] \<Rightarrow> if g_closed g then Some (([], Some EOF), g) else None))"

definition gnet_write :: "'x gnet_conn writer" where
  "gnet_write p g =
     (if g_closed g then ((0, Some (ErrText ''connection closed'')), g)
      else (case conn_write p (g_out g) of (r, c) \<Rightarrow> (r, g\<lparr>g_out := c\<rparr>)))"

definition gnet_close :: "'x gnet_conn \<Rightarrow> 'x gnet_conn" where
  "gnet_close g = g\<lparr>g_closed := True, g_conn_closed := True\<rparr>"

section \<open>Session parameters (mux/session.go)\<close>

record smux_config =
  smux_Version :: nat
  smux_KeepAliveInterval :: int
  smux_KeepAliveTimeout :: int
  smux_MaxFrameSize :: nat
  smux_MaxReceiveBuffer :: nat
  smux_MaxStreamBuffer :: nat

definition smux_default_config :: smux_config where
  "smux_default_config =
     \<lparr>smux_Version = 2, smux_KeepAliveInterval = 30 * seconds, smux_KeepAliveTimeout = 90 * seconds,
      smux_MaxFrameSize = 65535, smux_MaxReceiveBuffer = 16 * 1024 * 1024,
      smux_MaxStreamBuffer = 2 * 1024 * 1024\<rparr>"

section \<open>The gnet connection as a byte stream\<close>

definition g_pending :: "'x gnet_conn \<Rightarrow> bytes" where
  "g_pending g = g_read_buf g @ concat (g_read_ch g)"

text \<open>
  Once the connection is closed, and if the runtime prefers the data to the close, the rest of the
  stream is read to its end: the adapter is then a byte stream ending with EOF.
\<close>

interpretation gnet_in: byte_reader "gnet_read True" g_closed g_pending "\<lambda>g. EOF"
  "\<lambda>g. length (g_read_ch g) + length (g_pending g)"
proof unfold_locales
  fix g :: "'x gnet_conn" and n :: nat
  assume g: "g_closed g" and n: "0 < n"
  show "\<exists>bs e g'. gnet_read True n g = Some ((bs, e), g') \<and> g_pending g = bs @ g_pending g' \<and> length bs \<le> n
      \<and> g_closed g' \<and> EOF = EOF
      \<and> (case e of
           None \<Rightarrow> length (g_read_ch g') + length (g_pending g') < length (g_read_ch g) + length (g_pending g)
         | Some er \<Rightarrow> er = EOF \<and> bs = [] \<and> g_pending g = [])"
  proof (cases "g_read_buf g")
    case (Cons b bs)
    with g n show ?thesis by (auto simp: gnet_read_def g_pending_def)
  next
    case Nil
    with g n show ?thesis
      by (cases "g_read_ch g") (auto simp: gnet_read_def g_pending_def)
  qed
qed

text \<open>
  While the connection is open, what waits is delivered whatever the runtime chooses; when nothing waits, a
  Read blocks.
\<close>

lemma gnet_read_waits:
  assumes "\<not> g_closed g" and "0 < n" and "g_pending g \<noteq> []"
    and "list_all (\<lambda>bs. bs \<noteq> []) (g_read_ch g)"
  shows "\<exists>bs g'. gnet_read choice n g = Some ((bs, None), g') \<and> g_pending g = bs @ g_pending g' \<and> length bs \<le> n
    \<and> (\<not> g_closed g' \<and> list_all (\<lambda>bs. bs \<noteq> []) (g_read_ch g')) \<and> EOF = EOF
    \<and> length (g_read_ch g') + length (g_pending g') < length (g_read_ch g) + length (g_pending g)"
  using assms by (cases "g_read_buf g"; cases "g_read_ch g") (auto simp: gnet_read_def g_pending_def)

lemma gnet_read_blocks: "\<not> g_closed g \<Longrightarrow> g_read_buf g = [] \<Longrightarrow> g_read_ch g = [] \<Longrightarrow> gnet_read choice n g = None"
  by (simp add: gnet_read_def)

interpretation gnet_open: byte_source "gnet_read choice"
  "\<lambda>g. \<not> g_closed g \<and> list_all (\<lambda>bs. bs \<noteq> []) (g_read_ch g)" g_pending "\<lambda>g. EOF"
  "\<lambda>g. length (g_read_ch g) + length (g_pending g)" for choice
  by unfold_locales (use gnet_read_waits in blast)

interpretation gnet_sink: byte_sink gnet_write "\<lambda>_. True" "\<lambda>g. sent (cout (g_out g))"
proof unfold_locales
  fix g :: "'x gnet_conn" and p :: bytes
  from conn_write_sink [of p "g_out g"] show "\<exists>wn werr g'. gnet_write p g = ((wn, werr), g') \<and> wn \<le> length p \<and> True
      \<and> sent (cout (g_out g')) = sent (cout (g_out g)) @ take wn p \<and> (wn < length p \<longrightarrow> werr \<noteq> None)"
    by (auto simp: gnet_write_def)
qed

lemma gnet_write_ok:
  "\<not> g_closed g \<and> no_faults (g_out g) \<Longrightarrow>
     \<exists>g'. gnet_write p g = ((length p, None), g') \<and> sent (cout (g_out g')) = sent (cout (g_out g)) @ p
       \<and> \<not> g_closed g' \<and> no_faults (g_out g')"
  using conn_write_ok [of "g_out g" p] by (auto simp: gnet_write_def)

text \<open>
  The links of a server that runs gnet: clients dial with package net, so each end writes with one
  kind of connection and the other reads with the other.
\<close>

interpretation to_open_gnet: data_link
  conn_write no_faults "\<lambda>c. sent (cout c)"
  "gnet_read choice" "\<lambda>g. \<not> g_closed g \<and> list_all (\<lambda>bs. bs \<noteq> []) (g_read_ch g)" g_pending "\<lambda>g. EOF"
  "\<lambda>g. length (g_read_ch g) + length (g_pending g)" for choice
  by unfold_locales

interpretation from_gnet: transport_link
  gnet_write "\<lambda>g. \<not> g_closed g \<and> no_faults (g_out g)" "\<lambda>g. sent (cout (g_out g))"
  conn_read "\<lambda>c. True" conn_avail conn_fin conn_rank
  by unfold_locales (use gnet_write_ok in blast)

text \<open>A history of the adapter: what the event loop delivers and what the reader asks for.\<close>

datatype gnet_event = Traffic bool bytes | ReadCall bool nat

fun gnet_run :: "gnet_event list \<Rightarrow> 'x gnet_conn \<Rightarrow> bytes \<times> 'x gnet_conn" where
  "gnet_run [] g = ([], g)"
| "gnet_run (Traffic choice bs # es) g = gnet_run es (snd (on_traffic choice bs g))"
| "gnet_run (ReadCall choice n # es) g =
     (case gnet_read choice n g of
        None \<Rightarrow> gnet_run es g
      | Some ((bs, _), g1) \<Rightarrow> (case gnet_run es g1 of (ds, g2) \<Rightarrow> (bs @ ds, g2)))"

fun arrived :: "gnet_event list \<Rightarrow> bytes" where
  "arrived [] = []"
| "arrived (Traffic choice bs # es) = bs @ arrived es"
| "arrived (ReadCall choice n # es) = arrived es"

fun arrivals :: "gnet_event list \<Rightarrow> nat" where
  "arrivals [] = 0"
| "arrivals (Traffic choice bs # es) = Suc (arrivals es)"
| "arrivals (ReadCall choice n # es) = arrivals es"

lemma on_traffic_room:
  "\<not> g_closed g \<Longrightarrow> length (g_read_ch g) < readChSize \<Longrightarrow>
     g_pending (snd (on_traffic choice bs g)) = g_pending g @ bs
     \<and> length (g_read_ch (snd (on_traffic choice bs g))) \<le> Suc (length (g_read_ch g))
     \<and> \<not> g_closed (snd (on_traffic choice bs g))"
  by (auto simp: on_traffic_def g_pending_def Let_def)

lemma gnet_read_open:
  assumes "\<not> g_closed g" and "gnet_read choice n g = Some ((bs, e), g')"
  shows "e = None \<and> g_pending g = bs @ g_pending g' \<and> length (g_read_ch g') \<le> length (g_read_ch g)
    \<and> \<not> g_closed g'"
  using assms by (auto simp: gnet_read_def g_pending_def split: if_splits list.splits)

lemma gnet_run_open:
  assumes "\<not> g_closed g" and "length (g_read_ch g) + arrivals es \<le> readChSize"
  shows "case gnet_run es g of (ds, g') \<Rightarrow> g_pending g @ arrived es = ds @ g_pending g'"
  using assms
proof (induction es arbitrary: g)
  case Nil
  then show ?case by simp
next
  case (Cons e es)
  show ?case
  proof (cases e)
    case (Traffic choice bs)
    with Cons.prems have "length (g_read_ch g) < readChSize" by simp
    from on_traffic_room [OF Cons.prems(1) this, of choice bs] Cons.IH [of "snd (on_traffic choice bs g)"]
      Cons.prems(2) Traffic
    show ?thesis by auto
  next
    case (ReadCall choice n)
    show ?thesis
    proof (cases "gnet_read choice n g")
      case None
      with ReadCall Cons show ?thesis by simp
    next
      case (Some y)
      then obtain bs er g1 where rd: "gnet_read choice n g = Some ((bs, er), g1)" by (metis prod.collapse)
      from gnet_read_open [OF Cons.prems(1) rd] Cons.IH [of g1] Cons.prems(2) ReadCall rd
      show ?thesis by (auto split: prod.splits)
    qed
  qed
qed

text \<open>Chunks that arrive one after the other while nobody reads.\<close>

definition gnet_arrive :: "(bool \<times> bytes) list \<Rightarrow> 'x gnet_conn \<Rightarrow> 'x gnet_conn" where
  "gnet_arrive chunks g = fold (\<lambda>(choice, bs) g. snd (on_traffic choice bs g)) chunks g"

lemma gnet_arrive_open:
  assumes "\<not> g_closed g" and "length (g_read_ch g) + length chunks \<le> readChSize"
    and "list_all (\<lambda>bs. bs \<noteq> []) (g_read_ch g)"
  shows "g_pending (gnet_arrive chunks g) = g_pending g @ concat (map snd chunks) \<and> \<not> g_closed (gnet_arrive chunks g)
    \<and> list_all (\<lambda>bs. bs \<noteq> []) (g_read_ch (gnet_arrive chunks g))"
  using assms
proof (induction chunks arbitrary: g)
  case Nil
  then show ?case by (simp add: gnet_arrive_def)
next
  case (Cons x chunks)
  obtain choice bs where x: "x = (choice, bs)" by (cases x)
  let ?g1 = "snd (on_traffic choice bs g)"
  from on_traffic_room [OF Cons.prems(1), of choice bs] Cons.prems(2) have g1: "g_pending ?g1 = g_pending g @ bs"
    "length (g_read_ch ?g1) + length chunks \<le> readChSize" "\<not> g_closed ?g1" by auto
  moreover have "list_all (\<lambda>bs. bs \<noteq> []) (g_read_ch ?g1)" using Cons.prems(3) by (simp add: on_traffic_def Let_def)
  ultimately show ?case using Cons.IH [of ?g1] by (simp add: gnet_arrive_def x)
qed

lemma read_full_blocks: "rd 1 s = None \<Longrightarrow> read_full rd 1 s = None"
  by (simp add: read_full_def read_full_from.simps)

lemma chacha_read_blocks: "rd 2 s = None \<Longrightarrow> chacha_read aopen rd n (s, []) = None"
  by (simp add: chacha_read_def read_frame_def lengthSize_def read_full_def read_full_from.simps)

section \<open>Properties\<close>

text \<open>
  C36: The gnet adapter on an open connection delivers the bytes of the event loop in order and without
  loss as long as the channel cannot overflow; but a chunk that arrives while 256 chunks wait is
  dropped without a trace, and the reader sees the stream without it.
\<close>
theorem gnet_in_order_or_dropped:
  assumes "\<not> g_closed g"
  shows "(length (g_read_ch g) + arrivals es \<le> readChSize \<longrightarrow>
      (case gnet_run es g of (ds, g') \<Rightarrow> g_pending g @ arrived es = ds @ g_pending g'))
    \<and> (length (g_read_ch g) = readChSize \<longrightarrow>
      gnet_run (Traffic choice bs # es) g = gnet_run es g)"
  using gnet_run_open [OF assms] assms by (auto simp: on_traffic_def)

definition full_gnet_conn :: "nat \<Rightarrow> unit gnet_conn" where
  "full_gnet_conn k =
     \<lparr>g_out = \<lparr>cin = \<lparr>segs = [], in_end = EOF\<rparr>, cout = \<lparr>sent = [], faults = []\<rparr>, closed = False\<rparr>,
      g_read_ch = replicate k [1], g_read_buf = [], g_closed = False, g_conn_closed = False, g_ctx = None\<rparr>"

theorem gnet_in_order_or_dropped_witness:
  "(case gnet_run [Traffic True [2, 3], ReadCall True 5, ReadCall True 5] (full_gnet_conn 1) of
      (ds, g') \<Rightarrow> [1, 2, 3] = ds @ g_pending g')
   \<and> gnet_run [Traffic True [2]] (full_gnet_conn readChSize) = gnet_run [] (full_gnet_conn readChSize)"
proof
  have "\<not> g_closed (full_gnet_conn 1)"
    "length (g_read_ch (full_gnet_conn 1)) + arrivals [Traffic True [2, 3], ReadCall True 5, ReadCall True 5] \<le> readChSize"
    by (simp_all add: full_gnet_conn_def readChSize_def)
  from gnet_in_order_or_dropped [THEN conjunct1, THEN mp, OF this]
  show "case gnet_run [Traffic True [2, 3], ReadCall True 5, ReadCall True 5] (full_gnet_conn 1) of
      (ds, g') \<Rightarrow> [1, 2, 3] = ds @ g_pending g'"
    by (simp add: full_gnet_conn_def g_pending_def)
  have "\<not> g_closed (full_gnet_conn readChSize)" "length (g_read_ch (full_gnet_conn readChSize)) = readChSize"
    by (simp_all add: full_gnet_conn_def)
  from gnet_in_order_or_dropped [THEN conjunct2, THEN mp, OF this]
  show "gnet_run [Traffic True [2]] (full_gnet_conn readChSize) = gnet_run [] (full_gnet_conn readChSize)" .
qed

text \<open>
  C8: Encryption over every transport without encryption of its own. Between two ends of package net, and
  from a server that runs gnet to a client (which dials with package net), what one end writes in any
  number of calls of any length the other reads back exactly, and then meets the end of the stream. From
  such a client to the server, what was written is read back exactly as long as the server's end stays open
  and no more than 256 chunks wait in its channel, however the event loop cuts the stream into chunks and
  whatever \<open>select\<close> chooses; nothing else is delivered, and the next Read blocks. (Beyond 256 chunks, or
  once the connection is closed, bytes can be lost: \<open>gnet_in_order_or_dropped\<close>, \<open>gnet_close_race\<close>.)
\<close>
theorem encrypted_transport_roundtrip:
  assumes "aead_ok seal aopen" and "rand_ok rnd"
    and "no_faults c" and "sent (cout c) = []" and "write_seq (chacha_write seal rnd conn_write) ps (c, k) = (err, c', k')"
    and "\<not> g_closed g" and "no_faults (g_out g)" and "sent (cout (g_out g)) = []"
    and "write_seq (chacha_write seal rnd gnet_write) qs (g, l) = (gerr, g', l')"
    and "conn_avail r = sent (cout c')" and "conn_avail q = sent (cout (g_out g'))"
    and "concat (map snd chunks) = sent (cout c')" and "length chunks \<le> readChSize"
  shows "err = None \<and> gerr = None
    \<and> reads_back (chacha_read aopen conn_read) (r, []) (concat ps) (conn_fin r)
    \<and> reads_back (chacha_read aopen conn_read) (q, []) (concat qs) (conn_fin q)
    \<and> (\<exists>h. read_full (chacha_read aopen (gnet_read choice)) (length (concat ps))
            (gnet_arrive chunks (new_gnet_conn tcp :: 'x gnet_conn), []) = Some (Inr (concat ps), h, [])
         \<and> read_full (chacha_read aopen (gnet_read choice)) 1 (h, []) = None)"
proof -
  let ?new = "new_gnet_conn tcp :: 'x gnet_conn"
  let ?g = "gnet_arrive chunks ?new"
  have "\<not> g_closed ?new" "g_pending ?new = []" "g_read_ch ?new = []"
    by (simp_all add: new_gnet_conn_def g_pending_def)
  with gnet_arrive_open [of ?new chunks] assms(12,13) have
    g: "\<not> g_closed ?g \<and> list_all (\<lambda>bs. bs \<noteq> []) (g_read_ch ?g)" "g_pending ?g = sent (cout c')" by auto
  from to_open_gnet.chacha_delivered [OF assms(1-5) g] obtain h where
    h: "err = None" "read_full (chacha_read aopen (gnet_read choice)) (length (concat ps)) (?g, []) = Some (Inr (concat ps), h, [])"
    "g_pending h = []" "\<not> g_closed h" "list_all (\<lambda>bs. bs \<noteq> []) (g_read_ch h)" by blast
  from h(3,5) have "g_read_buf h = []" "g_read_ch h = []" by (cases "g_read_ch h"; simp add: g_pending_def)+
  from gnet_read_blocks [OF h(4) this] have "read_full (chacha_read aopen (gnet_read choice)) 1 (h, []) = None"
    by (intro read_full_blocks chacha_read_blocks)
  with h(1,2) show ?thesis
    using net_link.chacha_link [OF assms(1-5) TrueI assms(10)]
      from_gnet.chacha_link [OF assms(1,2) conjI [OF assms(6,7)] assms(8,9) TrueI assms(11)]
    unfolding reads_back_def by blast
qed

theorem encrypted_transport_roundtrip_witness:
  "\<exists>c' k' g' l' h. write_seq (chacha_write sample_seal sample_rand conn_write) [[1, 2], [3]] (fresh_conn [], 0) = (None, c', k')
    \<and> write_seq (chacha_write sample_seal sample_rand gnet_write) [[4], [5]] (new_gnet_conn (fresh_conn []) :: unit gnet_conn, 0)
        = (None, g', l')
    \<and> read_full (chacha_read sample_open (gnet_read False)) 3
        (gnet_arrive [(False, take 7 (sent (cout c'))), (True, drop 7 (sent (cout c')))]
          (new_gnet_conn (fresh_conn []) :: unit gnet_conn), []) = Some (Inr [1, 2, 3], h, [])
    \<and> reads_back (chacha_read sample_open conn_read) (fresh_conn [sent (cout (g_out g'))], []) [4, 5] EOF"
proof -
  let ?g = "new_gnet_conn (fresh_conn []) :: unit gnet_conn"
  obtain err c' k' where w: "write_seq (chacha_write sample_seal sample_rand conn_write) [[1, 2], [3]] (fresh_conn [], 0)
      = (err, c', k')" by (metis prod.collapse)
  obtain gerr g' l' where v: "write_seq (chacha_write sample_seal sample_rand gnet_write) [[4], [5]] (?g, 0)
      = (gerr, g', l')" by (metis prod.collapse)
  let ?chunks = "[(False, take 7 (sent (cout c'))), (True, drop 7 (sent (cout c')))]"
  have g: "\<not> g_closed ?g" "no_faults (g_out ?g)" "sent (cout (g_out ?g)) = []" by (simp_all add: new_gnet_conn_def)
  have chunks: "concat (map snd ?chunks) = sent (cout c')" "length ?chunks \<le> readChSize" by (simp_all add: readChSize_def)
  have av: "conn_avail (fresh_conn [sent (cout c')]) = sent (cout c')"
    "conn_avail (fresh_conn [sent (cout (g_out g'))]) = sent (cout (g_out g'))" by simp_all
  have bytes: "concat [[1, 2], [3 :: byte]] = [1, 2, 3]" "length [1, 2, 3 :: byte] = 3" "concat [[4], [5 :: byte]] = [4, 5]"
    by simp_all
  from encrypted_transport_roundtrip [OF sample_aead fresh_conn_simps(1,2) w g v av chunks, where choice = False
      and tcp = "fresh_conn []", unfolded bytes fresh_conn_simps(4)] w v
  show ?thesis by blast
qed

text \<open>
  Data and the end of a gnet connection race: once the peer has closed the connection, a Read may
  return EOF although chunks are waiting, for any such connection, since \<open>select\<close> chooses between two
  ready channels as it likes; if it always chose the data, everything that had arrived would be read.
\<close>
theorem gnet_close_race:
  "(if g_read_buf g = [] then gnet_read False n (on_close g) = Some (([], Some EOF), on_close g) else True)
   \<and> (\<exists>g1 g2. read_full (gnet_read True) (length (g_pending g)) (on_close g) = Some (Inr (g_pending g), g1)
        \<and> read_full (gnet_read True) 1 g1 = Some (Inl EOF, g2))"
proof -
  let ?c = "on_close g"
  have c: "g_closed ?c" "g_pending ?c = g_pending g" "g_read_buf ?c = g_read_buf g"
    by (simp_all add: on_close_def g_pending_def)
  from gnet_in.read_full_enough [OF c(1), of "length (g_pending g)"] c(2) obtain g1 where
    g1: "read_full (gnet_read True) (length (g_pending g)) ?c = Some (Inr (g_pending g), g1)" "g_pending g1 = []" "g_closed g1"
    by auto
  from gnet_in.read_full_short [OF g1(3), of 1] g1(2) obtain g2 where
    "read_full (gnet_read True) 1 g1 = Some (Inl EOF, g2)" by auto
  with g1(1) c show ?thesis by (auto simp: gnet_read_def split: list.splits)
qed

text \<open>
  A gnet listener reports no failure: \<open>Listen\<close> succeeds although \<open>gnet.Run\<close> could not bind the
  address, and \<open>Accept\<close> then blocks for ever, until \<open>Close\<close>; with package net the caller gets
  the error.
\<close>
lemma gnet_listen_hides_failure:
  "gnet_listen (Some e) booted = Inr new_gnet_listener \<and> gl_accept choice new_gnet_listener = None
   \<and> gl_accept choice (gl_close new_gnet_listener) = Some (Inl (ErrText ''listener closed''), gl_close new_gnet_listener)
   \<and> net_listen (\<lambda>network a. Inl e) addr = Inl e"
  by (simp add: gnet_listen_def gl_accept_def gl_close_def new_gnet_listener_def net_listen_def)

text \<open>
  The TCP options are never set on a control connection: every connection a transport dials or
  accepts is a wrapper and not a \<open>*net.TCPConn\<close>, so \<open>OptimizeTCPConn\<close> returns at once
  without an error and without having tried an option.
\<close>
theorem control_connection_not_optimized:
  "optimize_tcp_conn set_opt (is_tcp_conn (dial_kind (transport_new_with_quic typ cfg))) = (None, [])
   \<and> optimize_tcp_conn set_opt (is_tcp_conn (accept_kind (transport_new_with_quic typ cfg))) = (None, [])
   \<and> optimize_tcp_conn set_opt (is_tcp_conn (dial_kind (transport_new typ))) = (None, [])
   \<and> optimize_tcp_conn set_opt (is_tcp_conn (accept_kind (transport_new typ))) = (None, [])"
  by (simp add: optimize_tcp_conn_def is_tcp_conn_def transport_new_def transport_new_with_quic_def
      new_quic_transport_def new_quic_transport_with_config_def Let_def)

end
