(* ===== verification/Quic.thy ===== *)
theory Quic
  imports Transport
begin

text \<open>
  pkg/transport/quic_transport.go: the QUIC transport. quic-go is third-party: its calls on a listener,
  a connection and a stream are the record \<open>quic_go\<close>, over states of their own. A \<open>QUICConn\<close> opens its
  one stream at the first Read or Write, the server by accepting it, the client by opening it. Over a
  stream that is a \<open>byte_reader\<close> the connection is one itself (\<open>quic_byte_reader\<close>), so what is proved for a
  byte stream holds for it.
\<close>

section \<open>Configuration\<close>

definition quic_client_tls :: "'cert quic_config \<Rightarrow> 'cert tls_config" where
  "quic_client_tls cfg =
     (case qc_tls_config cfg of
        None \<Rightarrow> empty_tls_config\<lparr>tls_skip_verify := qc_insecure_skip_verify cfg,
                  tls_next_protos := [''qtrp''], tls_min_version := VersionTLS13\<rparr>
      | Some tc \<Rightarrow> if qc_insecure_skip_verify cfg then tc\<lparr>tls_skip_verify := True\<rparr> else tc)"

text \<open>
  The certificate of a listener without a configuration: every error on the way is dropped, so that a
  failed step leaves an empty certificate (\<open>zero\<close>), but a failed key generation a nil pointer.
\<close>

definition generate_temp_tls_config :: "'cert tls_env \<Rightarrow> 'cert \<Rightarrow> int \<Rightarrow> 'cert tls_config outcome" where
  "generate_temp_tls_config env zero now =
     (case te_generate_key env of
        Inl e \<Rightarrow> Panic ''invalid memory address or nil pointer dereference''
      | Inr priv \<Rightarrow>
          (let template = \<lparr>ct_organization = [], ct_common_name = [], ct_not_before = now,
                           ct_not_after = now + 24 * hour, ct_ips = [], ct_dns_names = []\<rparr>;
               cert_der = (case te_create env template 1 priv of Inl e \<Rightarrow> [] | Inr der \<Rightarrow> der);
               priv_bytes = (case te_marshal_key env priv of Inl e \<Rightarrow> [] | Inr bs \<Rightarrow> bs);
               cert = (case te_key_pair env cert_der priv_bytes of Inl e \<Rightarrow> zero | Inr c \<Rightarrow> c)
           in Done (empty_tls_config\<lparr>tls_certificates := [cert], tls_next_protos := [''qtrp''],
                tls_min_version := VersionTLS13\<rparr>)))"

record quic_params =
  MaxIdleTimeout :: int
  MaxIncomingStreams :: int
  MaxIncomingUniStreams :: int
  InitialStreamReceiveWindow :: int
  MaxStreamReceiveWindow :: int
  InitialConnectionReceiveWindow :: int
  MaxConnectionReceiveWindow :: int
  KeepAliveInterval :: int
  EnableDatagrams :: bool

definition generate_quic_config :: quic_params where
  "generate_quic_config =
     \<lparr>MaxIdleTimeout = 30 * seconds, MaxIncomingStreams = 1000, MaxIncomingUniStreams = 1000,
      InitialStreamReceiveWindow = 2 * 1024 * 1024, MaxStreamReceiveWindow = 16 * 1024 * 1024,
      InitialConnectionReceiveWindow = 4 * 1024 * 1024, MaxConnectionReceiveWindow = 32 * 1024 * 1024,
      KeepAliveInterval = 15 * seconds, EnableDatagrams = True\<rparr>"

section \<open>Connections (QUICConn)\<close>

text \<open>
  The calls of quic-go on a connection \<open>'c\<close> and on a stream \<open>'s\<close>; \<open>None\<close> is a call that never
  returns. A deadline is a point in time.
\<close>

record ('c, 's) quic_go =
  qg_accept_stream :: "'c \<Rightarrow> ('s result \<times> 'c) option"
  qg_open_stream :: "'c \<Rightarrow> ('s result \<times> 'c) option"
  qg_close_conn :: "string \<Rightarrow> 'c \<Rightarrow> go_error option \<times> 'c"
  qg_read :: "nat \<Rightarrow> 's \<Rightarrow> ((bytes \<times> go_error option) \<times> 's) option"
  qg_write :: "bytes \<Rightarrow> 's \<Rightarrow> (nat \<times> go_error option) \<times> 's"
  qg_close_stream :: "'s \<Rightarrow> go_error option \<times> 's"
  qg_deadline :: "int \<Rightarrow> 's \<Rightarrow> go_error option \<times> 's"
  qg_read_deadline :: "int \<Rightarrow> 's \<Rightarrow> go_error option \<times> 's"
  qg_write_deadline :: "int \<Rightarrow> 's \<Rightarrow> go_error option \<times> 's"

record ('c, 's, 'x) quic_conn =
  q_conn :: 'c
  q_stream :: "'s option"
  q_stream_init :: bool
  q_is_server :: bool
  q_ctx :: "'x option"

definition new_quic_conn :: "bool \<Rightarrow> 'c \<Rightarrow> ('c, 's, 'x) quic_conn" where
  "new_quic_conn is_server c =
     \<lparr>q_conn = c, q_stream = None, q_stream_init = False, q_is_server = is_server, q_ctx = None\<rparr>"

definition quic_set_context :: "'x option \<Rightarrow> ('c, 's, 'x) quic_conn \<Rightarrow> ('c, 's, 'x) quic_conn" where
  "quic_set_context ctx q = q\<lparr>q_ctx := ctx\<rparr>"

definition quic_context :: "('c, 's, 'x) quic_conn \<Rightarrow> 'x option" where
  "quic_context q = q_ctx q"

definition init_stream ::
  "('c, 's) quic_go \<Rightarrow> ('c, 's, 'x) quic_conn \<Rightarrow> (go_error option \<times> ('c, 's, 'x) quic_conn) option" where
  "init_stream go q =
     (if q_stream_init q then Some (None, q)
      else
        (case (if q_is_server q then qg_accept_stream go (q_conn q) else qg_open_stream go (q_conn q)) of
           None \<Rightarrow> None
         | Some (Inl e, c) \<Rightarrow> Some (Some e, q\<lparr>q_conn := c\<rparr>)
         | Some (Inr st, c) \<Rightarrow> Some (None, q\<lparr>q_conn := c, q_stream := Some st, q_stream_init := True\<rparr>)))"

text \<open>
  After \<open>init_stream\<close> the stream is there (\<open>quic_wf\<close> below), so that the nil stream of \<open>q_stream\<close> is
  never read or written.
\<close>

definition quic_read :: "('c, 's) quic_go \<Rightarrow> ('c, 's, 'x) quic_conn reader" where
  "quic_read go n q =
     (case init_stream go q of
        None \<Rightarrow> None
      | Some (Some e, q1) \<Rightarrow> Some (([], Some e), q1)
      | Some (None, q1) \<Rightarrow>
          (case q_stream q1 of
             None \<Rightarrow> None
           | Some st \<Rightarrow>
               (case qg_read go n st of
                  None \<Rightarrow> None
                | Some (r, st1) \<Rightarrow> Some (r, q1\<lparr>q_stream := Some st1\<rparr>))))"

definition quic_write ::
  "('c, 's) quic_go \<Rightarrow> bytes \<Rightarrow> ('c, 's, 'x) quic_conn \<Rightarrow> ((nat \<times> go_error option) \<times> ('c, 's, 'x) quic_conn) option" where
  "quic_write go p q =
     (case init_stream go q of
        None \<Rightarrow> None
      | Some (Some e, q1) \<Rightarrow> Some ((0, Some e), q1)
      | Some (None, q1) \<Rightarrow>
          (case q_stream q1 of
             None \<Rightarrow> None
           | Some st \<Rightarrow> (case qg_write go p st of (r, st1) \<Rightarrow> Some (r, q1\<lparr>q_stream := Some st1\<rparr>))))"

text \<open>A call on the stream if there is one; the error of closing the stream is dropped.\<close>

definition on_stream ::
  "('s \<Rightarrow> go_error option \<times> 's) \<Rightarrow> ('c, 's, 'x) quic_conn \<Rightarrow> go_error option \<times> ('c, 's, 'x) quic_conn" where
  "on_stream f q =
     (if q_stream_init q then
        (case q_stream q of
           None \<Rightarrow> (None, q)
         | Some st \<Rightarrow> (case f st of (err, st1) \<Rightarrow> (err, q\<lparr>q_stream := Some st1\<rparr>)))
      else (None, q))"

definition quic_close ::
  "('c, 's) quic_go \<Rightarrow> ('c, 's, 'x) quic_conn \<Rightarrow> go_error option \<times> ('c, 's, 'x) quic_conn" where
  "quic_close go q =
     (let q1 = snd (on_stream (qg_close_stream go) q)
      in (case qg_close_conn go ''closed'' (q_conn q1) of (err, c) \<Rightarrow> (err, q1\<lparr>q_conn := c\<rparr>)))"

definition quic_set_deadline ::
  "('c, 's) quic_go \<Rightarrow> int \<Rightarrow> ('c, 's, 'x) quic_conn \<Rightarrow> go_error option \<times> ('c, 's, 'x) quic_conn" where
  "quic_set_deadline go t q = on_stream (qg_deadline go t) q"

definition quic_set_read_deadline ::
  "('c, 's) quic_go \<Rightarrow> int \<Rightarrow> ('c, 's, 'x) quic_conn \<Rightarrow> go_error option \<times> ('c, 's, 'x) quic_conn" where
  "quic_set_read_deadline go t q = on_stream (qg_read_deadline go t) q"

definition quic_set_write_deadline ::
  "('c, 's) quic_go \<Rightarrow> int \<Rightarrow> ('c, 's, 'x) quic_conn \<Rightarrow> go_error option \<times> ('c, 's, 'x) quic_conn" where
  "quic_set_write_deadline go t q = on_stream (qg_write_deadline go t) q"

section \<open>Listening and dialling\<close>

text \<open>
  \<open>quic.ListenAddr\<close> and \<open>quic.DialAddr\<close> over the address, the TLS configuration, the parameters and,
  for a dial, the time limit; \<open>accept\<close> is the listener's \<open>Accept\<close>.
\<close>

record 'l quic_listener =
  ql_listener :: 'l

definition quic_listen ::
  "(string \<Rightarrow> 'cert tls_config \<Rightarrow> quic_params \<Rightarrow> 'l result) \<Rightarrow> 'cert tls_config outcome \<Rightarrow> 'cert quic_config
   \<Rightarrow> string \<Rightarrow> 'l quic_listener result outcome" where
  "quic_listen listen_addr temp cfg addr =
     (case (case qc_tls_config cfg of Some tc \<Rightarrow> Done tc | None \<Rightarrow> temp) of
        Panic m \<Rightarrow> Panic m
      | Done tls_conf \<Rightarrow>
          (case listen_addr addr tls_conf generate_quic_config of
             Inl e \<Rightarrow> Done (Inl e)
           | Inr ln \<Rightarrow> Done (Inr \<lparr>ql_listener = ln\<rparr>)))"

definition quic_dial ::
  "(int \<Rightarrow> string \<Rightarrow> 'cert tls_config \<Rightarrow> quic_params \<Rightarrow> 'c result) \<Rightarrow> 'cert quic_config \<Rightarrow> string
   \<Rightarrow> ('c, 's, 'x) quic_conn result" where
  "quic_dial dial_addr cfg addr =
     (case dial_addr (qc_dial_timeout cfg) addr (quic_client_tls cfg) generate_quic_config of
        Inl e \<Rightarrow> Inl e
      | Inr c \<Rightarrow> Inr (new_quic_conn False c))"

definition quic_accept ::
  "('l \<Rightarrow> ('c result \<times> 'l) option) \<Rightarrow> 'l quic_listener
   \<Rightarrow> (('c, 's, 'x) quic_conn result \<times> 'l quic_listener) option" where
  "quic_accept accept l =
     (case accept (ql_listener l) of
        None \<Rightarrow> None
      | Some (Inl e, ln) \<Rightarrow> Some (Inl e, l\<lparr>ql_listener := ln\<rparr>)
      | Some (Inr c, ln) \<Rightarrow> Some (Inr (new_quic_conn True c), l\<lparr>ql_listener := ln\<rparr>))"

definition quic_listener_close ::
  "('l \<Rightarrow> go_error option \<times> 'l) \<Rightarrow> 'l quic_listener \<Rightarrow> go_error option \<times> 'l quic_listener" where
  "quic_listener_close close l = (case close (ql_listener l) of (err, ln) \<Rightarrow> (err, l\<lparr>ql_listener := ln\<rparr>))"

section \<open>The connection and its stream\<close>

definition quic_wf :: "('c, 's, 'x) quic_conn \<Rightarrow> bool" where
  "quic_wf q \<longleftrightarrow> q_stream_init q = (q_stream q \<noteq> None)"

text \<open>The stream the connection has, or will get at its first Read or Write.\<close>

definition quic_next :: "('c, 's) quic_go \<Rightarrow> ('c, 's, 'x) quic_conn \<Rightarrow> 's option" where
  "quic_next go q =
     (if q_stream_init q then q_stream q
      else (case (if q_is_server q then qg_accept_stream go (q_conn q) else qg_open_stream go (q_conn q)) of
              Some (Inr st, c) \<Rightarrow> Some st
            | _ \<Rightarrow> None))"

lemma init_stream_wf: "quic_wf q \<Longrightarrow> init_stream go q = Some (err, q1) \<Longrightarrow> quic_wf q1 \<and> (q_stream_init q1 = (err = None))"
  by (auto simp: init_stream_def quic_wf_def split: if_splits option.splits sum.splits)

lemma on_stream_wf: "quic_wf q \<Longrightarrow> quic_wf (snd (on_stream f q))"
  by (auto simp: on_stream_def quic_wf_def split: option.splits prod.splits)

lemma init_stream_next:
  "quic_next go q = Some st \<Longrightarrow> \<exists>q1. init_stream go q = Some (None, q1) \<and> q_stream q1 = Some st \<and> q_stream_init q1
     \<and> q_is_server q1 = q_is_server q"
  by (auto simp: quic_next_def init_stream_def split: if_splits option.splits sum.splits)

lemma quic_read_next:
  assumes "quic_next go q = Some st" and "qg_read go n st = Some (r, st1)"
  shows "\<exists>q1. quic_read go n q = Some (r, q1) \<and> quic_next go q1 = Some st1 \<and> q_stream_init q1"
  using init_stream_next [OF assms(1)] assms(2) by (auto simp: quic_read_def quic_next_def)

lemma quic_write_next:
  assumes "quic_next go q = Some st" and "qg_write go p st = (r, st1)"
  shows "\<exists>q1. quic_write go p q = Some (r, q1) \<and> quic_next go q1 = Some st1 \<and> q_stream_init q1"
  using init_stream_next [OF assms(1)] assms(2) by (auto simp: quic_write_def quic_next_def)

text \<open>A sequence of Write calls, stopped by the first error.\<close>

fun quic_writes ::
  "('c, 's) quic_go \<Rightarrow> bytes list \<Rightarrow> ('c, 's, 'x) quic_conn \<Rightarrow> (go_error option \<times> ('c, 's, 'x) quic_conn) option" where
  "quic_writes go [] q = Some (None, q)"
| "quic_writes go (p # ps) q =
     (case quic_write go p q of
        None \<Rightarrow> None
      | Some ((_, Some e), q1) \<Rightarrow> Some (Some e, q1)
      | Some ((_, None), q1) \<Rightarrow> quic_writes go ps q1)"

lemma quic_writes_next:
  assumes "quic_next go q = Some st" and "write_seq (qg_write go) ps st = (err, st1)"
  shows "\<exists>q1. quic_writes go ps q = Some (err, q1) \<and> quic_next go q1 = Some st1"
  using assms
proof (induction ps arbitrary: q st)
  case Nil
  then show ?case by simp
next
  case (Cons p ps)
  obtain n e st2 where w: "qg_write go p st = ((n, e), st2)" by (metis prod.collapse)
  from quic_write_next [OF Cons.prems(1) w] obtain q1 where
    q1: "quic_write go p q = Some ((n, e), q1)" "quic_next go q1 = Some st2" by blast
  with Cons.IH [OF q1(2)] Cons.prems(2) w show ?case by (auto split: option.splits)
qed

context byte_reader
begin

text \<open>Over a stream that is a byte stream the connection is one, opened or not.\<close>

lemma quic_byte_reader:
  fixes go :: "('c, 's) quic_go"
  assumes "qg_read go = rd"
  shows "byte_reader (quic_read go) (\<lambda>q. \<exists>st. quic_next go q = Some st \<and> inv st)
    (\<lambda>q. avail (the (quic_next go q))) (\<lambda>q. fin (the (quic_next go q))) (\<lambda>q. rank (the (quic_next go q)))"
proof (unfold_locales, elim exE conjE)
  fix q :: "('c, 's, 'x) quic_conn" and n :: nat and st
  assume "0 < n" and st: "quic_next go q = Some st" "inv st"
  from rd_step [OF st(2) this(1)] obtain bs e st1 where
    r: "rd n st = Some ((bs, e), st1)" "avail st = bs @ avail st1" "length bs \<le> n" "inv st1" "fin st1 = fin st"
      "case e of None \<Rightarrow> rank st1 < rank st | Some er \<Rightarrow> er = fin st \<and> bs = [] \<and> avail st = []" by blast
  from quic_read_next [OF st(1), of n] r(1) assms obtain q1 where
    "quic_read go n q = Some ((bs, e), q1)" "quic_next go q1 = Some st1" by auto
  with r st show "\<exists>bs e q1. quic_read go n q = Some ((bs, e), q1)
      \<and> avail (the (quic_next go q)) = bs @ avail (the (quic_next go q1)) \<and> length bs \<le> n
      \<and> (\<exists>st. quic_next go q1 = Some st \<and> inv st) \<and> fin (the (quic_next go q1)) = fin (the (quic_next go q))
      \<and> (case e of None \<Rightarrow> rank (the (quic_next go q1)) < rank (the (quic_next go q))
         | Some er \<Rightarrow> er = fin (the (quic_next go q)) \<and> bs = [] \<and> avail (the (quic_next go q)) = [])"
    by (intro exI [of _ bs] exI [of _ e] exI [of _ q1]) (simp split: option.splits)
qed

end

context transport_link
begin

lemma quic_link:
  assumes "qg_write go = wr" and "quic_next go q = Some d" and "winv d" and "out d = []"
    and "quic_writes go ps q = Some (err, q')" and "quic_next go q' = Some d'"
    and "qg_read go' = rd" and "quic_next go' r = Some s" and "inv s" and "avail s = out d'"
  shows "err = None \<and> reads_back (quic_read go') r (concat ps) (fin s)"
proof -
  obtain err1 d1 where w: "write_seq wr ps d = (err1, d1)" by fastforce
  with quic_writes_next [OF assms(2), of ps] assms(1,5,6) have eq: "err1 = err" "d1 = d'" by auto
  with w write_seq_ok [OF assms(3), of ps] assms(4,10) have out: "err = None" "avail s = concat ps" by auto
  note quic = quic_byte_reader [OF assms(7)]
  have r: "\<exists>st. quic_next go' r = Some st \<and> inv st" using assms(8,9) by blast
  from byte_source.read_full_enough [OF byte_reader.is_byte_source [OF quic], OF r, of "length (concat ps)"] out(2) assms(8) obtain r1 where
    r1: "read_full (quic_read go') (length (concat ps)) r = Some (Inr (concat ps), r1)"
      "avail (the (quic_next go' r1)) = []" "\<exists>st. quic_next go' r1 = Some st \<and> inv st"
      "fin (the (quic_next go' r1)) = fin s" by auto
  from byte_reader.read_full_short [OF quic, OF r1(3), of 1] r1(2,4) obtain r2 where
    "read_full (quic_read go') 1 r1 = Some (Inl (fin s), r2)" by auto
  with out(1) r1(1) show ?thesis unfolding reads_back_def by blast
qed

end

section \<open>Properties\<close>

text \<open>
  C40: A QUIC connection is its one stream: whether the stream was opened before or is opened by the first
  Write of the client and accepted by the first Read of the server, what the client writes in any
  number of calls the server reads back exactly, and then meets the end of the stream.
\<close>
theorem quic_roundtrip:
  assumes "qg_write go = conn_write" and "quic_next go q = Some d" and "no_faults d" and "sent (cout d) = []"
    and "quic_writes go ps q = Some (err, q')" and "quic_next go q' = Some d'"
    and "qg_read go' = conn_read" and "quic_next go' r = Some s" and "conn_avail s = sent (cout d')"
  shows "err = None \<and> reads_back (quic_read go') r (concat ps) (conn_fin s)"
  by (rule net_link.quic_link [OF assms(1-8) TrueI assms(9)])

text \<open>A connection that has one stream to give, for the witness.\<close>

definition one_stream_go :: "(conn option, conn) quic_go" where
  "one_stream_go =
     (let take_stream = (\<lambda>c. case c of None \<Rightarrow> None | Some st \<Rightarrow> Some (Inr st, None));
          ok = (\<lambda>st. (None, st))
      in \<lparr>qg_accept_stream = take_stream, qg_open_stream = take_stream, qg_close_conn = (\<lambda>m c. (None, None)),
          qg_read = conn_read, qg_write = conn_write, qg_close_stream = (\<lambda>st. (None, conn_close st)),
          qg_deadline = (\<lambda>t. ok), qg_read_deadline = (\<lambda>t. ok), qg_write_deadline = (\<lambda>t. ok)\<rparr>)"

lemma one_stream_next:
  "quic_next one_stream_go (new_quic_conn server (Some st)) = Some st"
  "qg_write one_stream_go = conn_write" "qg_read one_stream_go = conn_read"
  by (simp_all add: quic_next_def one_stream_go_def new_quic_conn_def Let_def)

theorem quic_roundtrip_witness:
  "\<exists>q' :: (conn option, conn, unit) quic_conn. \<exists>d'.
     quic_writes one_stream_go [[1, 2], [3]] (new_quic_conn False (Some (fresh_conn []))) = Some (None, q')
   \<and> quic_next one_stream_go q' = Some d'
   \<and> reads_back (quic_read one_stream_go)
       (new_quic_conn True (Some (fresh_conn [sent (cout d')])) :: (conn option, conn, unit) quic_conn) [1, 2, 3] EOF"
proof -
  let ?q = "new_quic_conn False (Some (fresh_conn [])) :: (conn option, conn, unit) quic_conn"
  obtain err d' where "write_seq conn_write [[1, 2], [3]] (fresh_conn []) = (err, d')" by fastforce
  with quic_writes_next [of one_stream_go ?q "fresh_conn []" "[[1, 2], [3]]" err d'] obtain q' where
    w: "quic_writes one_stream_go [[1, 2], [3]] ?q = Some (err, q')" "quic_next one_stream_go q' = Some d'"
    by (auto simp: one_stream_next)
  let ?r = "new_quic_conn True (Some (fresh_conn [sent (cout d')])) :: (conn option, conn, unit) quic_conn"
  have av: "conn_avail (fresh_conn [sent (cout d')]) = sent (cout d')" by simp
  from quic_roundtrip [OF one_stream_next(2,1) fresh_conn_simps(1,2) w one_stream_next(3,1) av, of True] w
  show ?thesis by auto
qed

text \<open>
  A deadline set before the first Read or Write is dropped without an error, so that the first Read can
  wait for ever although it was given one.
\<close>
lemma quic_deadline_before_stream:
  assumes "\<not> q_stream_init q"
  shows "quic_set_deadline go t q = (None, q)" and "quic_set_read_deadline go t q = (None, q)"
    and "quic_set_write_deadline go t q = (None, q)"
  using assms
  by (simp_all add: quic_set_deadline_def quic_set_read_deadline_def quic_set_write_deadline_def on_stream_def)

text \<open>Every operation keeps the stream and its flag together, so that no nil stream is read or written.\<close>

lemma quic_ops_wf:
  assumes "quic_wf q"
  shows "quic_read go n q = Some (r, q1) \<Longrightarrow> quic_wf q1" and "quic_write go p q = Some (w, q1) \<Longrightarrow> quic_wf q1"
    and "quic_wf (snd (quic_close go q))" and "quic_wf (snd (quic_set_deadline go t q))"
    and "quic_wf (snd (quic_set_read_deadline go t q))" and "quic_wf (snd (quic_set_write_deadline go t q))"
    and "quic_wf (quic_set_context ctx q)" and "quic_wf (new_quic_conn server c)"
  using assms init_stream_wf [OF assms] on_stream_wf [OF assms]
  by (auto simp: quic_read_def quic_write_def quic_close_def quic_set_deadline_def quic_set_read_deadline_def
      quic_set_write_deadline_def quic_set_context_def new_quic_conn_def quic_wf_def Let_def
      split: option.splits prod.splits)

end
