(* ===== verification/Mux.thy ===== *)
theory Mux
  imports Go_Io
begin

text \<open>
  pkg/mux: the wrappers that give a smux session and an mtmux session one interface, and the bundle of
  tunnels below an mtmux session. smux and mtmux are third-party: a session is a record of the calls
  the wrappers make, over a state of its own.
\<close>

section \<open>Sessions (session.go, adapter.go)\<close>

text \<open>
  What the third-party session offers; \<open>None\<close> is a call that blocks for ever.
\<close>

record ('m, 'd) raw_session =
  rs_open :: "'m \<Rightarrow> ('d result \<times> 'm) option"
  rs_accept :: "'m \<Rightarrow> ('d result \<times> 'm) option"
  rs_close :: "'m \<Rightarrow> go_error option \<times> 'm"
  rs_is_closed :: "'m \<Rightarrow> bool"
  rs_num_streams :: "'m \<Rightarrow> nat"

text \<open>The struct \<open>Session\<close>: the smux session and the connection below it.\<close>

record 'm mux_session =
  ms_session :: 'm
  ms_local_addr :: string
  ms_remote_addr :: string

definition new_session :: "'m result \<Rightarrow> string \<Rightarrow> string \<Rightarrow> 'm mux_session result" where
  "new_session smux local_addr remote_addr =
     (case smux of
        Inl e \<Rightarrow> Inl e
      | Inr m \<Rightarrow> Inr \<lparr>ms_session = m, ms_local_addr = local_addr, ms_remote_addr = remote_addr\<rparr>)"

definition session_accept_stream ::
  "('m, 'd) raw_session \<Rightarrow> 'm mux_session \<Rightarrow> ('d result \<times> 'm mux_session) option" where
  "session_accept_stream raw s =
     (case rs_accept raw (ms_session s) of
        None \<Rightarrow> None
      | Some (Inl e, m) \<Rightarrow> Some (Inl e, s\<lparr>ms_session := m\<rparr>)
      | Some (Inr st, m) \<Rightarrow> Some (Inr st, s\<lparr>ms_session := m\<rparr>))"

definition session_open_stream ::
  "('m, 'd) raw_session \<Rightarrow> 'm mux_session \<Rightarrow> ('d result \<times> 'm mux_session) option" where
  "session_open_stream raw s =
     (case rs_open raw (ms_session s) of
        None \<Rightarrow> None
      | Some (Inl e, m) \<Rightarrow> Some (Inl e, s\<lparr>ms_session := m\<rparr>)
      | Some (Inr st, m) \<Rightarrow> Some (Inr st, s\<lparr>ms_session := m\<rparr>))"

definition session_close :: "('m, 'd) raw_session \<Rightarrow> 'm mux_session \<Rightarrow> go_error option \<times> 'm mux_session" where
  "session_close raw s = (case rs_close raw (ms_session s) of (e, m) \<Rightarrow> (e, s\<lparr>ms_session := m\<rparr>))"

definition session_is_closed :: "('m, 'd) raw_session \<Rightarrow> 'm mux_session \<Rightarrow> bool" where
  "session_is_closed raw s = rs_is_closed raw (ms_session s)"

definition session_num_streams :: "('m, 'd) raw_session \<Rightarrow> 'm mux_session \<Rightarrow> nat" where
  "session_num_streams raw s = rs_num_streams raw (ms_session s)"

definition session_ping :: "'m mux_session \<Rightarrow> int \<times> go_error option" where
  "session_ping s = (0, None)"

text \<open>The struct \<open>SessionAdapter\<close> embeds the mtmux session and passes every call on.\<close>

record 'm session_adapter =
  sa_session :: 'm

definition adapter_open_stream ::
  "('m, 'd) raw_session \<Rightarrow> 'm session_adapter \<Rightarrow> ('d result \<times> 'm session_adapter) option" where
  "adapter_open_stream raw a =
     (case rs_open raw (sa_session a) of
        None \<Rightarrow> None
      | Some (Inl e, m) \<Rightarrow> Some (Inl e, \<lparr>sa_session = m\<rparr>)
      | Some (Inr st, m) \<Rightarrow> Some (Inr st, \<lparr>sa_session = m\<rparr>))"

definition adapter_accept_stream ::
  "('m, 'd) raw_session \<Rightarrow> 'm session_adapter \<Rightarrow> ('d result \<times> 'm session_adapter) option" where
  "adapter_accept_stream raw a =
     (case rs_accept raw (sa_session a) of
        None \<Rightarrow> None
      | Some (Inl e, m) \<Rightarrow> Some (Inl e, \<lparr>sa_session = m\<rparr>)
      | Some (Inr st, m) \<Rightarrow> Some (Inr st, \<lparr>sa_session = m\<rparr>))"

definition adapter_close :: "('m, 'd) raw_session \<Rightarrow> 'm session_adapter \<Rightarrow> go_error option \<times> 'm session_adapter" where
  "adapter_close raw a = (case rs_close raw (sa_session a) of (e, m) \<Rightarrow> (e, \<lparr>sa_session = m\<rparr>))"

definition adapter_num_streams :: "('m, 'd) raw_session \<Rightarrow> 'm session_adapter \<Rightarrow> nat" where
  "adapter_num_streams raw a = rs_num_streams raw (sa_session a)"

definition adapter_is_closed :: "('m, 'd) raw_session \<Rightarrow> 'm session_adapter \<Rightarrow> bool" where
  "adapter_is_closed raw a = rs_is_closed raw (sa_session a)"

section \<open>Tunnels\<close>

text \<open>
  The bundle of tunnels of an mtmux session, which client and server set up alike: a tunnel whose encryption fails is closed and becomes nil, and then all the
  others are closed too.
\<close>

fun wrap_tunnels :: "('c \<Rightarrow> 'c result) \<Rightarrow> 'c list \<Rightarrow> 'c option list \<times> 'c list" where
  "wrap_tunnels wrap [] = ([], [])"
| "wrap_tunnels wrap (c # cs) =
     (case wrap_tunnels wrap cs of
        (ws, closed_conns) \<Rightarrow>
          (case wrap c of
             Inl e \<Rightarrow> (None # ws, c # closed_conns)
           | Inr w \<Rightarrow> (Some w # ws, closed_conns)))"

end
