(* ===== verification/Streams.thy ===== *)
theory Streams
  imports Protocol Forward
begin

text \<open>
  Messages on a control stream, which client and server share: the codec of Protocol over a connection
  that either side can close at any time, and what a send and a receive do on one that is up.
\<close>

section \<open>Receiving\<close>

lemma live_decode_frame:
  "live_avail c = frame data @ rest \<Longrightarrow> length data \<le> MaxMsgSize \<Longrightarrow>
     \<exists>c'. decode mp live_read c = Some (mp_unmessage mp data, c') \<and> live_avail c' = rest \<and> True
       \<and> live_fin c' = live_fin c \<and> conn_rank c' < conn_rank c"
  by (rule byte_reader.decode_frame [OF live.byte_reader_axioms TrueI])

lemma live_decode_end:
  "live_avail c = [] \<Longrightarrow>
     \<exists>c'. decode mp live_read c = Some (Inl (live_fin c), c') \<and> live_avail c' = [] \<and> True \<and> live_fin c' = live_fin c"
  by (rule byte_reader.decode_end [OF live.byte_reader_axioms TrueI])

lemma live_decode_returns: "\<exists>r c'. decode mp live_read c = Some (r, c') \<and> True"
  by (rule byte_reader.decode_returns [OF live.byte_reader_axioms TrueI])

interpretation live_proto: framed_stream
  live_read "\<lambda>c. True" live_avail live_fin conn_rank
  "recv_message mp live_read" "msg_frame mp" "\<lambda>m. m" "fits mp" for mp
proof unfold_locales
  fix c :: conn and m rest
  assume "fits mp m" and "live_avail c = msg_frame mp m @ rest"
  then show "\<exists>c'. recv_message mp live_read c = Some (Inr m, c') \<and> live_avail c' = rest \<and> True
      \<and> live_fin c' = live_fin c \<and> conn_rank c' < conn_rank c"
    using live_decode_frame [of c "msg_data mp m" rest mp]
    by (auto simp: fits_def msg_frame_def msg_data_def recv_message_def split: sum.splits)
next
  fix c :: conn
  assume "live_avail c = []"
  then show "\<exists>c'. recv_message mp live_read c = Some (Inl (live_fin c), c') \<and> live_avail c' = [] \<and> True
      \<and> live_fin c' = live_fin c"
    using live_decode_end [of c mp] by (simp add: recv_message_def)
qed

lemma live_read_keeps: "live_read n c = Some (r, c') \<Longrightarrow> (cout c', closed c') = (cout c, closed c)"
  using conn_read_cout [of n c r c'] by (auto simp: live_read_def split: if_splits)

lemma recv_live_keeps: "recv_message mp live_read c = Some (r, c') \<Longrightarrow> cout c' = cout c \<and> closed c' = closed c"
  using recv_message_keeps [where f = "\<lambda>c. (cout c, closed c)", OF _ live_read_keeps] by fastforce

text \<open>A message takes bytes from the stream.\<close>

context byte_reader
begin

lemma decode_rank:
  assumes "inv s" and "decode mp rd s = Some (Inr m, s2)"
  shows "rank s2 < rank s"
proof -
  have long: "LengthSize \<le> length (avail s)"
  proof (rule ccontr)
    assume "\<not> LengthSize \<le> length (avail s)"
    with read_full_short [OF assms(1), of LengthSize] assms(2) show False by (auto simp: decode_def)
  qed
  with read_full_enough [OF assms(1) long] obtain s1 where
    s1: "read_full rd LengthSize s = Some (Inr (take LengthSize (avail s)), s1)" "inv s1" "rank s1 < rank s"
    by (auto simp: LengthSize_def)
  let ?n = "unat (get_uint32 (take LengthSize (avail s)))"
  from s1(1) assms(2) have rest: "read_full rd ?n s1 \<noteq> None"
      "\<forall>r s'. read_full rd ?n s1 = Some (r, s') \<longrightarrow> s' = s2 \<and> (\<exists>d. r = Inr d)"
    by (auto simp: decode_def Let_def split: if_splits option.splits sum.splits)
  show ?thesis
  proof (cases "?n \<le> length (avail s1)")
    case True
    from read_full_enough [OF s1(2) True] rest(2) s1(3) show ?thesis by auto
  next
    case False
    with read_full_short [OF s1(2), of ?n] rest(2) show ?thesis by auto
  qed
qed

end

lemma recv_live_rank: "recv_message mp live_read c = Some (Inr m, c1) \<Longrightarrow> conn_rank c1 < conn_rank c"
  using live.decode_rank [OF TrueI] by (auto simp: recv_message_def)

lemma recv_live_returns: "\<exists>r c1. recv_message mp live_read c = Some (r, c1)"
  using live_decode_returns [of mp c] by (auto simp: recv_message_def)

section \<open>Sending\<close>

text \<open>A connection on which every write succeeds.\<close>

definition conn_up :: "conn \<Rightarrow> bool" where
  "conn_up c \<longleftrightarrow> no_faults c \<and> \<not> closed c"

lemma send_live: "\<not> closed c \<Longrightarrow> send_message mp live_write t p c = send_message mp conn_write t p c"
proof -
  assume up: "\<not> closed c"
  have "encode mp live_write m c = encode mp conn_write m c" for m
  proof (cases "mp_message mp m")
    case (Inr data)
    obtain r c1 where w: "conn_write (length_prefix data) c = (r, c1)" by fastforce
    from conn_write_cin [OF w] up have "\<not> closed c1" by simp
    with w up Inr show ?thesis by (cases r) (auto simp: encode_def live_write_def split: option.splits)
  qed (simp add: encode_def)
  then show ?thesis by (simp add: send_message_def split: sum.splits)
qed

lemma live_write_cin: "cin (snd (live_write p c)) = cin c"
  using conn_write_cin [of p c] by (cases "conn_write p c") (auto simp: live_write_def)

lemma encode_live_cin:
  assumes "encode mp live_write m c = (e, c1)"
  shows "cin c1 = cin c"
proof (cases "mp_message mp m")
  case (Inl err)
  with assms show ?thesis by (simp add: encode_def)
next
  case (Inr data)
  obtain n1 e1 c2 where w1: "live_write (length_prefix data) c = ((n1, e1), c2)" by (metis prod.collapse)
  obtain n2 e2 c3 where w2: "live_write data c2 = ((n2, e2), c3)" by (metis prod.collapse)
  from live_write_cin [of "length_prefix data" c] live_write_cin [of data c2] w1 w2 Inr assms show ?thesis
    by (cases e1) (simp_all add: encode_def)
qed

lemma send_live_cin: "send_message mp live_write t p c = (e, c1) \<Longrightarrow> cin c1 = cin c"
  by (auto simp: send_message_def dest: encode_live_cin split: sum.splits)

lemma send_up:
  assumes "conn_up c" and "sendable mp (t, p)"
  shows "\<exists>c'. send_message mp live_write t p c = (None, c') \<and> conn_up c' \<and> live_avail c' = live_avail c
    \<and> sent (cout c') = sent (cout c) @ msg_frame mp (msg_of mp (t, p))"
proof -
  from assms(1) have up: "no_faults c" "\<not> closed c" by (simp_all add: conn_up_def)
  from send_message_ok [OF up(1) assms(2)] send_live [OF up(2)] up(2) show ?thesis
    by (auto simp: conn_up_def live_avail_def conn_avail_def)
qed

lemma recv_up:
  assumes "conn_up c" and "fits mp m" and "live_avail c = msg_frame mp m @ rest"
  shows "\<exists>c'. recv_message mp live_read c = Some (Inr m, c') \<and> conn_up c' \<and> live_avail c' = rest
    \<and> cout c' = cout c \<and> live_fin c' = live_fin c"
proof -
  from live_proto.recv_frame [OF TrueI assms(2,3)] obtain c' where
    c': "recv_message mp live_read c = Some (Inr m, c')" "live_avail c' = rest" "live_fin c' = live_fin c" by blast
  with recv_live_keeps [OF c'(1)] assms(1) show ?thesis
    by (auto simp: conn_up_def no_faults_def)
qed

lemma recv_up_end:
  assumes "conn_up c" and "live_avail c = []"
  shows "\<exists>c'. recv_message mp live_read c = Some (Inl (live_fin c), c') \<and> conn_up c' \<and> cout c' = cout c"
proof -
  from live_proto.recv_end [OF TrueI assms(2)] obtain c' where
    c': "recv_message mp live_read c = Some (Inl (live_fin c), c')" by blast
  with recv_live_keeps [OF c'] assms(1) show ?thesis
    by (auto simp: conn_up_def no_faults_def)
qed

end
