(* ===== verification/Server.thy ===== *)
theory Server
  imports Streams Auth Stats Config Crypto Transport Mux
begin

text \<open>
  internal/server: the server's state and every handler that changes it. The \<open>sync.Map\<close>s and the
  proxy map of a client are association lists (they are ranged over), the objects they point to are
  cells of a heap, because a client's cleanup and the accept loop of a proxy share them. The control
  stream of each session is a connection of the model, and closing a session closes it. Handlers are
  state transformers; a panic is a value, because the connection handlers recover from it. What the
  operating system answers to a listen, and what a session answers to \<open>AcceptStream\<close>, are
  arguments. Log lines are left out, but for the one whose argument can panic.
\<close>

section \<open>State (server.go, Server, Client, Proxy)\<close>

record proxy =
  px_name :: string
  px_port :: int
  px_listening :: bool
  px_client :: nat
  px_close_ch :: bool

record client =
  cl_id :: string
  cl_session :: nat
  cl_proxies :: "(string \<times> nat) list"
  cl_last_ping :: int

text \<open>
  \<open>sv_runners\<close> are the running \<open>runProxy\<close> goroutines (the proxy and its control stream);
  \<open>sv_stopped\<close> is the server's \<open>closeCh\<close>, \<open>sv_wg\<close> the counter of its wait group.
\<close>

record server =
  sv_auth :: authenticator
  sv_clients :: "(string \<times> nat) list"
  sv_proxies :: "(int \<times> nat) list"
  sv_client :: "nat \<Rightarrow> client"
  sv_next_client :: nat
  sv_proxy :: "nat \<Rightarrow> proxy"
  sv_next_proxy :: nat
  sv_streams :: "nat \<Rightarrow> conn"
  sv_runners :: "(nat \<times> nat) list"
  sv_stats :: stats
  sv_stopped :: bool
  sv_listening :: bool
  sv_wg :: int

section \<open>Creation (New)\<close>

text \<open>
  \<open>New\<close> chooses the transport and the encryption. \<open>Inl\<close> is the error of the certificate
  manager, with which \<open>log.Fatalf\<close> ends the process.
\<close>

definition server_cert_config :: "string \<Rightarrow> string \<Rightarrow> cert_config" where
  "server_cert_config cert key =
     \<lparr>crt_cert_file = cert, crt_key_file = key, crt_organization = ''QTRP'',
      crt_common_name = ''qtrp-server'', crt_valid_for = 0, crt_hosts = []\<rparr>"

definition server_crypto_config :: "string \<Rightarrow> string \<Rightarrow> string \<Rightarrow> crypto_config" where
  "server_crypto_config cert key psk =
     \<lparr>cc_cert_file = cert, cc_key_file = key, cc_ca_cert = [], cc_skip_verify = False, cc_psk = psk\<rparr>"

definition server_layers ::
  "'cert tls_env \<Rightarrow> int \<Rightarrow> server_config \<Rightarrow> ('cert transport \<times> 'cert crypto) result" where
  "server_layers env now cfg =
     (if sc_transport cfg = ''quic'' then
        (case fst (new_cert_manager env now (server_cert_config (sc_quic_cert_file cfg) (sc_quic_key_file cfg))) of
           Inl e \<Rightarrow> Inl e
         | Inr cm \<Rightarrow>
             Inr (transport_new_with_quic ''quic''
                    (Some \<lparr>qc_tls_config = Some (get_server_tls_config cm), qc_insecure_skip_verify = False,
                           qc_dial_timeout = 0\<rparr>),
                  crypto_new ''none'' None))
      else
        (let trans = transport_new (sc_transport cfg) in
         if sc_crypto cfg = ''tls'' \<and> (sc_tls_cert_file cfg = [] \<or> sc_tls_key_file cfg = []) then
           (case fst (new_cert_manager env now (server_cert_config (sc_tls_cert_file cfg) (sc_tls_key_file cfg))) of
              Inl e \<Rightarrow> Inl e
            | Inr cm \<Rightarrow>
                Inr (trans, new_tls_crypto_with_cert_manager
                  (Some (server_crypto_config (sc_tls_cert_file cfg) (sc_tls_key_file cfg) [])) cm))
         else
           Inr (trans, crypto_new (sc_crypto cfg)
             (Some (server_crypto_config (sc_tls_cert_file cfg) (sc_tls_key_file cfg) (sc_chacha20_psk cfg))))))"

definition no_client :: client where
  "no_client = \<lparr>cl_id = [], cl_session = 0, cl_proxies = [], cl_last_ping = 0\<rparr>"

definition no_proxy :: proxy where
  "no_proxy = \<lparr>px_name = [], px_port = 0, px_listening = False, px_client = 0, px_close_ch = False\<rparr>"

definition new_server :: "server_config \<Rightarrow> (nat \<Rightarrow> conn) \<Rightarrow> int \<Rightarrow> server" where
  "new_server cfg streams now =
     \<lparr>sv_auth = new_authenticator (sc_auth_tokens cfg), sv_clients = [], sv_proxies = [],
      sv_client = (\<lambda>_. no_client), sv_next_client = 0, sv_proxy = (\<lambda>_. no_proxy), sv_next_proxy = 0,
      sv_streams = streams, sv_runners = [], sv_stats = initial_stats now, sv_stopped = False,
      sv_listening = False, sv_wg = 0\<rparr>"

section \<open>Proxies and clients\<close>

text \<open>\<open>Proxy.Close\<close>: the channel is closed once, the listener each time.\<close>

definition proxy_close :: "nat \<Rightarrow> server \<Rightarrow> server" where
  "proxy_close p s =
     (let px = sv_proxy s p;
          px1 = (if px_close_ch px then px else px\<lparr>px_close_ch := True\<rparr>)
      in s\<lparr>sv_proxy := (sv_proxy s)(p := px1\<lparr>px_listening := False\<rparr>)\<rparr>)"

fun cleanup_proxies :: "(string \<times> nat) list \<Rightarrow> server \<Rightarrow> server" where
  "cleanup_proxies [] s = s"
| "cleanup_proxies ((name, p) # ps) s =
     (let s1 = proxy_close p s;
          s2 = s1\<lparr>sv_proxies := AList.delete (px_port (sv_proxy s1 p)) (sv_proxies s1)\<rparr>;
          s3 = s2\<lparr>sv_stats := DecActiveProxies (sv_stats s2)\<rparr>
      in cleanup_proxies ps s3)"

definition set_client :: "nat \<Rightarrow> client \<Rightarrow> server \<Rightarrow> server" where
  "set_client c cl s = s\<lparr>sv_client := (sv_client s)(c := cl)\<rparr>"

definition cleanup_client :: "nat \<Rightarrow> server \<Rightarrow> server" where
  "cleanup_client c s =
     (let s1 = cleanup_proxies (cl_proxies (sv_client s c)) s;
          s2 = set_client c ((sv_client s1 c)\<lparr>cl_proxies := []\<rparr>) s1
      in s2\<lparr>sv_clients := AList.delete (cl_id (sv_client s2 c)) (sv_clients s2)\<rparr>)"

definition set_stream :: "nat \<Rightarrow> conn \<Rightarrow> server \<Rightarrow> server" where
  "set_stream i st s = s\<lparr>sv_streams := (sv_streams s)(i := st)\<rparr>"

definition close_session :: "nat \<Rightarrow> server \<Rightarrow> server" where
  "close_session i s = set_stream i (conn_close (sv_streams s i)) s"

section \<open>Messages on a control stream\<close>

definition srv_recv :: "msgpack \<Rightarrow> nat \<Rightarrow> server \<Rightarrow> (message result \<times> server) option" where
  "srv_recv mp i s =
     map_option (\<lambda>(r, st). (r, set_stream i st s)) (recv_message mp live_read (sv_streams s i))"

definition srv_send :: "msgpack \<Rightarrow> nat \<Rightarrow> byte \<Rightarrow> payload \<Rightarrow> server \<Rightarrow> go_error option \<times> server" where
  "srv_send mp i typ p s =
     (case send_message mp live_write typ p (sv_streams s i) of (err, st) \<Rightarrow> (err, set_stream i st s))"

section \<open>Authentication (handleAuth)\<close>

definition auth_error :: "string \<Rightarrow> go_error" where
  "auth_error msg = ErrText (''auth error: '' @ msg)"

definition slice_panic :: "'a outcome" where
  "slice_panic = Panic ''slice bounds out of range''"

text \<open>The end of \<open>handleAuth\<close>: an old client of the same ID is cleaned up, the new one stored.\<close>

definition register_client :: "string \<Rightarrow> nat \<Rightarrow> int \<Rightarrow> server \<Rightarrow> nat \<times> server" where
  "register_client cid i now s =
     (let s1 = (case map_of (sv_clients s) cid of
                  None \<Rightarrow> s
                | Some old \<Rightarrow>
                    (let s0 = cleanup_client old s in close_session (cl_session (sv_client s0 old)) s0));
          c = sv_next_client s1;
          cl = \<lparr>cl_id = cid, cl_session = i, cl_proxies = [], cl_last_ping = now\<rparr>;
          s2 = (set_client c cl s1)\<lparr>sv_next_client := Suc c\<rparr>
      in (c, s2\<lparr>sv_clients := AList.update cid c (sv_clients s2)\<rparr>))"

definition handle_auth ::
  "msgpack \<Rightarrow> (bytes \<Rightarrow> bytes \<Rightarrow> bytes) \<Rightarrow> int \<times> int \<Rightarrow> nat \<Rightarrow> server
   \<Rightarrow> (nat result outcome \<times> server) option" where
  "handle_auth mp hm now i s =
     (case srv_recv mp i s of
        None \<Rightarrow> None
      | Some (Inl e, s1) \<Rightarrow> Some (Done (Inl e), s1)
      | Some (Inr msg, s1) \<Rightarrow>
          if msg_type msg \<noteq> MsgTypeAuth then Some (Done (Inl (auth_error ''invalid message type'')), s1)
          else
            (case decode_payload (mp_auth_request mp) msg of
               Inl e \<Rightarrow> Some (Done (Inl e), s1)
             | Inr req \<Rightarrow>
                 (case verify hm now (sv_auth s1) (auth_token req) (format_int (sint (auth_ts req)))
                         (auth_nonce req) (auth_sign req) of
                    (ok, au) \<Rightarrow>
                      (let s2 = s1\<lparr>sv_auth := au\<rparr>;
                           resp = (if ok then \<lparr>authr_ok = True, authr_message = []\<rparr>
                                   else \<lparr>authr_ok = False, authr_message = ''authentication failed''\<rparr>)
                       in if \<not> ok \<and> length (auth_token req) < 8 then Some (slice_panic, s2)
                          else
                            (case srv_send mp i MsgTypeAuthResp (PAuthResponse resp) s2 of
                               (Some e, s3) \<Rightarrow> Some (Done (Inl e), s3)
                             | (None, s3) \<Rightarrow>
                                 if \<not> ok then Some (Done (Inl (auth_error ''authentication failed'')), s3)
                                 else if length (auth_token req) < 8 then Some (slice_panic, s3)
                                 else
                                   (case register_client (take 8 (auth_token req) @ ''...'') i (fst now) s3 of
                                      (c, s4) \<Rightarrow> Some (Done (Inr c), s4)))))))"

section \<open>Proxy registration (handleNewProxy)\<close>

definition npr_fail :: "string \<Rightarrow> payload" where
  "npr_fail msg = PNewProxyResponse \<lparr>npr_ok = False, npr_message = msg, npr_remote_port = 0\<rparr>"

definition npr_success :: "int \<Rightarrow> payload" where
  "npr_success port = PNewProxyResponse \<lparr>npr_ok = True, npr_message = [], npr_remote_port = port\<rparr>"

text \<open>
  The check that the port is free and the registration are two steps: between them the code listens
  on the port. \<open>np_check\<close> is everything up to the listen, \<open>np_commit\<close> what follows a listen that
  succeeded (with port reuse on, it succeeds for a port the process already listens on).
\<close>

definition np_check :: "msgpack \<Rightarrow> nat \<Rightarrow> message \<Rightarrow> server \<Rightarrow> new_proxy_request option \<times> server" where
  "np_check mp i msg s =
     (case decode_payload (mp_new_proxy_request mp) msg of
        Inl e \<Rightarrow> (None, snd (srv_send mp i MsgTypeNewProxyResp (npr_fail ''invalid request'') s))
      | Inr req \<Rightarrow>
          if map_of (sv_proxies s) (npq_remote_port req) \<noteq> None then
            (None, snd (srv_send mp i MsgTypeNewProxyResp (npr_fail ''port already in use'') s))
          else (Some req, s))"

definition store_proxy :: "nat \<Rightarrow> new_proxy_request \<Rightarrow> server \<Rightarrow> nat \<times> server" where
  "store_proxy c req s =
     (let p = sv_next_proxy s;
          px = \<lparr>px_name = npq_name req, px_port = npq_remote_port req, px_listening = True, px_client = c,
                px_close_ch = False\<rparr>;
          s1 = s\<lparr>sv_proxy := (sv_proxy s)(p := px), sv_next_proxy := Suc p\<rparr>;
          s2 = s1\<lparr>sv_proxies := AList.update (npq_remote_port req) p (sv_proxies s1)\<rparr>;
          s3 = set_client c ((sv_client s2 c)
                 \<lparr>cl_proxies := AList.update (npq_name req) p (cl_proxies (sv_client s2 c))\<rparr>) s2
      in (p, s3\<lparr>sv_stats := IncActiveProxies (sv_stats s3)\<rparr>))"

definition unstore_proxy :: "nat \<Rightarrow> nat \<Rightarrow> new_proxy_request \<Rightarrow> server \<Rightarrow> server" where
  "unstore_proxy c p req s =
     (let s1 = s\<lparr>sv_proxy := (sv_proxy s)(p := (sv_proxy s p)\<lparr>px_listening := False\<rparr>)\<rparr>;
          s2 = s1\<lparr>sv_proxies := AList.delete (npq_remote_port req) (sv_proxies s1)\<rparr>;
          s3 = set_client c ((sv_client s2 c)
                 \<lparr>cl_proxies := AList.delete (npq_name req) (cl_proxies (sv_client s2 c))\<rparr>) s2
      in s3\<lparr>sv_stats := DecActiveProxies (sv_stats s3)\<rparr>)"

definition np_commit :: "msgpack \<Rightarrow> nat \<Rightarrow> nat \<Rightarrow> new_proxy_request \<Rightarrow> server \<Rightarrow> server" where
  "np_commit mp c i req s =
     (case store_proxy c req s of
        (p, s1) \<Rightarrow>
          (case srv_send mp i MsgTypeNewProxyResp (npr_success (npq_remote_port req)) s1 of
             (Some e, s2) \<Rightarrow> unstore_proxy c p req s2
           | (None, s2) \<Rightarrow> s2\<lparr>sv_runners := (p, i) # sv_runners s2\<rparr>))"

definition handle_new_proxy ::
  "msgpack \<Rightarrow> (int \<Rightarrow> go_error option) \<Rightarrow> nat \<Rightarrow> nat \<Rightarrow> message \<Rightarrow> server \<Rightarrow> server" where
  "handle_new_proxy mp listen c i msg s =
     (case np_check mp i msg s of
        (None, s1) \<Rightarrow> s1
      | (Some req, s1) \<Rightarrow>
          (case listen (npq_remote_port req) of
             Some e \<Rightarrow> snd (srv_send mp i MsgTypeNewProxyResp (npr_fail (error_text e)) s1)
           | None \<Rightarrow> np_commit mp c i req s1))"

section \<open>Control stream (handleControlStream)\<close>

definition control_iter ::
  "msgpack \<Rightarrow> (int \<Rightarrow> go_error option) \<Rightarrow> int \<times> int64 \<Rightarrow> nat \<Rightarrow> nat \<Rightarrow> server
   \<Rightarrow> (unit option \<times> server) option" where
  "control_iter mp listen now c i s =
     (case srv_recv mp i s of
        None \<Rightarrow> None
      | Some (Inl e, s1) \<Rightarrow> Some (Some (), s1)
      | Some (Inr msg, s1) \<Rightarrow>
          if msg_type msg = MsgTypeNewProxy then Some (None, handle_new_proxy mp listen c i msg s1)
          else if msg_type msg = MsgTypePing then
            (let s2 = set_client c ((sv_client s1 c)\<lparr>cl_last_ping := fst now\<rparr>) s1 in
             (case srv_send mp i MsgTypePong (PPong \<lparr>pong_ts = snd now\<rparr>) s2 of
                (Some e, s3) \<Rightarrow> Some (Some (), s3)
              | (None, s3) \<Rightarrow> Some (None, s3)))
          else Some (None, s1))"

definition handle_control_stream ::
  "msgpack \<Rightarrow> (int \<Rightarrow> go_error option) \<Rightarrow> int \<times> int64 \<Rightarrow> nat \<Rightarrow> nat \<Rightarrow> server \<Rightarrow> (unit \<times> server) option" where
  "handle_control_stream mp listen now c i s = go_loop (control_iter mp listen now c i) s"

section \<open>Accept loop of a proxy (runProxy)\<close>

text \<open>One round of the loop: a user connection starts a goroutine, an error ends the loop or not.\<close>

datatype proxy_accept = UserConn | AcceptError go_error

definition run_proxy_iter :: "nat \<Rightarrow> proxy_accept \<Rightarrow> server \<Rightarrow> unit option" where
  "run_proxy_iter p acc s =
     (case acc of
        UserConn \<Rightarrow> None
      | AcceptError e \<Rightarrow> if px_close_ch (sv_proxy s p) then Some () else None)"

text \<open>The deferred function.\<close>

definition run_proxy_exit :: "nat \<Rightarrow> server \<Rightarrow> server" where
  "run_proxy_exit p s =
     (let s1 = s\<lparr>sv_proxy := (sv_proxy s)(p := (sv_proxy s p)\<lparr>px_listening := False\<rparr>)\<rparr>;
          s2 = s1\<lparr>sv_proxies := AList.delete (px_port (sv_proxy s1 p)) (sv_proxies s1)\<rparr>
      in s2\<lparr>sv_stats := DecActiveProxies (sv_stats s2), sv_runners := AList.delete p (sv_runners s2)\<rparr>)"

section \<open>User connections (handleUserConnection)\<close>

text \<open>
  One user connection, in the pieces between which other goroutines run: the client is told; when
  \<open>AcceptStream\<close> of the client's session returns, the stream it returned is what the user is joined with,
  and the connection is counted; and when the forwarding ends it is counted no more. The connection ID is
  sent, and nothing else is done with it.
\<close>

definition user_request :: "nat \<Rightarrow> string \<Rightarrow> server \<Rightarrow> new_conn_request" where
  "user_request p conn_id s = \<lparr>ncq_proxy_name = px_name (sv_proxy s p), ncq_conn_id = conn_id\<rparr>"

definition user_notify :: "msgpack \<Rightarrow> nat \<Rightarrow> nat \<Rightarrow> string \<Rightarrow> server \<Rightarrow> go_error option \<times> server" where
  "user_notify mp p i conn_id s =
     srv_send mp i MsgTypeNewConn (PNewConnRequest (user_request p conn_id s)) s"

definition user_joining :: "'d result \<Rightarrow> server \<Rightarrow> 'd option \<times> server" where
  "user_joining accepted s =
     (case accepted of
        Inl e \<Rightarrow> (None, s)
      | Inr data_stream \<Rightarrow> (Some data_stream, s\<lparr>sv_stats := IncActiveConns (sv_stats s)\<rparr>))"

definition user_done :: "server \<Rightarrow> server" where
  "user_done s = s\<lparr>sv_stats := DecActiveConns (sv_stats s)\<rparr>"

text \<open>
  The whole handler. The session (\<open>accept\<close>) and the forwarding (\<open>join\<close>, the subject of Forward) are
  arguments; \<open>None\<close> is a call that never returns.
\<close>

definition handle_user_connection ::
  "msgpack \<Rightarrow> bytes \<Rightarrow> (nat \<Rightarrow> server \<Rightarrow> ('d result \<times> server) option) \<Rightarrow> ('d \<Rightarrow> server \<Rightarrow> server option)
   \<Rightarrow> nat \<Rightarrow> nat \<Rightarrow> server \<Rightarrow> server option" where
  "handle_user_connection mp rnd accept join p i s =
     (case user_notify mp p i (generate_nonce rnd) s of
        (Some e, s1) \<Rightarrow> Some s1
      | (None, s1) \<Rightarrow>
          (case accept (cl_session (sv_client s1 (px_client (sv_proxy s1 p)))) s1 of
             None \<Rightarrow> None
           | Some (accepted, s2) \<Rightarrow>
               (case user_joining accepted s2 of
                  (None, s3) \<Rightarrow> Some s3
                | (Some data_stream, s3) \<Rightarrow> map_option user_done (join data_stream s3))))"

section \<open>Connection handlers\<close>

text \<open>
  What comes before the authentication: the encryption, the session and the control stream. The result
  is the stream, or what was closed again: connections, and then sessions.
\<close>

definition setup_connection ::
  "('c \<Rightarrow> 'c result) \<Rightarrow> ('c \<Rightarrow> 'm result) \<Rightarrow> ('m \<Rightarrow> nat result) \<Rightarrow> 'c \<Rightarrow> nat result \<times> 'c list \<times> 'm list" where
  "setup_connection wrap mk accept conn =
     (case wrap conn of
        Inl e \<Rightarrow> (Inl e, [conn], [])
      | Inr crypt_conn \<Rightarrow>
          (case mk crypt_conn of
             Inl e \<Rightarrow> (Inl e, [crypt_conn], [])
           | Inr session \<Rightarrow>
               (case accept session of
                  Inl e \<Rightarrow> (Inl e, [], [session])
                | Inr st \<Rightarrow> (Inr st, [], []))))"

definition tunnel_error :: go_error where
  "tunnel_error = ErrText ''tunnel failed during setup''"

definition setup_tunnels ::
  "('c \<Rightarrow> 'c result) \<Rightarrow> ('c list \<Rightarrow> 'm result) \<Rightarrow> ('m \<Rightarrow> nat result) \<Rightarrow> 'c list
   \<Rightarrow> nat result \<times> 'c list \<times> 'm list" where
  "setup_tunnels wrap mk accept raw =
     (case wrap_tunnels wrap raw of
        (bundle, failed) \<Rightarrow>
          if None \<in> set bundle then (Inl tunnel_error, failed @ List.map_filter id bundle, [])
          else
            (case mk (List.map_filter id bundle) of
               Inl e \<Rightarrow> (Inl e, failed @ List.map_filter id bundle, [])
             | Inr session \<Rightarrow>
                 (case accept session of
                    Inl e \<Rightarrow> (Inl e, failed, [session])
                  | Inr st \<Rightarrow> (Inr st, failed, []))))"

text \<open>
  What follows a successful authentication, up to the control loop, and what follows the loop; the
  deferred calls come last.
\<close>

definition conn_done :: "server \<Rightarrow> server" where
  "conn_done s = s\<lparr>sv_wg := sv_wg s - 1\<rparr>"

definition conn_authenticated :: "server \<Rightarrow> server" where
  "conn_authenticated s = s\<lparr>sv_stats := IncActiveClients (sv_stats s)\<rparr>"

definition conn_finished :: "nat \<Rightarrow> nat \<Rightarrow> server \<Rightarrow> server" where
  "conn_finished c i s =
     (let s1 = close_session i (cleanup_client c s)
      in conn_done (s1\<lparr>sv_stats := DecActiveClients (sv_stats s1)\<rparr>))"

text \<open>
  The handler of a connection whose control stream is \<open>i\<close>, run without interruption: a panic is
  recovered from, and then nothing is closed. \<open>cancel\<close> is the end of the context of an MTMux session,
  called before the cleanup or else by a deferred call; the standard mode has none.
\<close>

definition handle_session ::
  "msgpack \<Rightarrow> (bytes \<Rightarrow> bytes \<Rightarrow> bytes) \<Rightarrow> (int \<Rightarrow> go_error option) \<Rightarrow> int \<times> int \<Rightarrow> int \<times> int64
   \<Rightarrow> (server \<Rightarrow> server) \<Rightarrow> nat \<Rightarrow> server \<Rightarrow> server option" where
  "handle_session mp hm listen now now' cancel i s =
     (case handle_auth mp hm now i s of
        None \<Rightarrow> None
      | Some (Panic m, s1) \<Rightarrow> Some (conn_done (cancel s1))
      | Some (Done (Inl e), s1) \<Rightarrow> Some (conn_done (cancel (close_session i s1)))
      | Some (Done (Inr c), s1) \<Rightarrow>
          (case handle_control_stream mp listen now' c i (conn_authenticated s1) of
             None \<Rightarrow> None
           | Some (_, s2) \<Rightarrow> Some (conn_finished c i (cancel s2))))"

definition handle_connection ::
  "msgpack \<Rightarrow> (bytes \<Rightarrow> bytes \<Rightarrow> bytes) \<Rightarrow> (int \<Rightarrow> go_error option) \<Rightarrow> int \<times> int \<Rightarrow> int \<times> int64 \<Rightarrow> nat \<Rightarrow> server
   \<Rightarrow> server option" where
  "handle_connection mp hm listen now now' i s = handle_session mp hm listen now now' (\<lambda>s. s) i s"

definition handle_connection_standard ::
  "msgpack \<Rightarrow> (bytes \<Rightarrow> bytes \<Rightarrow> bytes) \<Rightarrow> (int \<Rightarrow> go_error option) \<Rightarrow> int \<times> int \<Rightarrow> int \<times> int64
   \<Rightarrow> ('c \<Rightarrow> 'c result) \<Rightarrow> ('c \<Rightarrow> 'm result) \<Rightarrow> ('m \<Rightarrow> nat result) \<Rightarrow> 'c \<Rightarrow> server \<Rightarrow> server option" where
  "handle_connection_standard mp hm listen now now' wrap mk accept conn s =
     (case fst (setup_connection wrap mk accept conn) of
        Inl e \<Rightarrow> Some (conn_done s)
      | Inr i \<Rightarrow> handle_connection mp hm listen now now' i s)"

definition handle_connection_mtmux ::
  "msgpack \<Rightarrow> (bytes \<Rightarrow> bytes \<Rightarrow> bytes) \<Rightarrow> (int \<Rightarrow> go_error option) \<Rightarrow> int \<times> int \<Rightarrow> int \<times> int64
   \<Rightarrow> ('c \<Rightarrow> 'c result) \<Rightarrow> ('c list \<Rightarrow> 'm result) \<Rightarrow> ('m \<Rightarrow> nat result) \<Rightarrow> (server \<Rightarrow> server) \<Rightarrow> 'c list
   \<Rightarrow> server \<Rightarrow> server option" where
  "handle_connection_mtmux mp hm listen now now' wrap mk accept cancel raw s =
     (case fst (setup_tunnels wrap mk accept raw) of
        Inl e \<Rightarrow> Some (conn_done s)
      | Inr i \<Rightarrow> handle_session mp hm listen now now' cancel i s)"

section \<open>Start\<close>

text \<open>
  The accept loop of either mode: an error ends it once the server is stopped and is otherwise passed
  over, a connection starts a handler.
\<close>

definition start_iter :: "'c result \<Rightarrow> server \<Rightarrow> unit option \<times> 'c option \<times> server" where
  "start_iter acc s =
     (case acc of
        Inl e \<Rightarrow> if sv_stopped s then (Some (), None, s) else (None, None, s)
      | Inr conn \<Rightarrow> (None, Some conn, s\<lparr>sv_wg := sv_wg s + 1\<rparr>))"

text \<open>
  What \<open>Accept\<close> returns: while the listener is open, what the network has for it (\<open>None\<close> blocks);
  once it is closed, an error, whether the call was blocked or comes later, as \<open>net.Listener\<close>
  documents. (The listener of gnet may hand out connections that wait in its channel first.)
\<close>

definition closed_listener :: go_error where
  "closed_listener = ErrText ''use of closed network connection''"

definition listener_accept :: "'c result option \<Rightarrow> server \<Rightarrow> 'c result option" where
  "listener_accept offer s = (if sv_listening s then offer else Some (Inl closed_listener))"

text \<open>
  The loop, interleaved with the other goroutines: each entry says what the others do to the state while
  \<open>Accept\<close> blocks, and what the network has for it then. The result is the end of the loop, if it has
  ended, and the connections it started handlers for.
\<close>

fun accept_loop ::
  "((server \<Rightarrow> server) \<times> 'c result option) list \<Rightarrow> server \<Rightarrow> unit option \<times> 'c list \<times> server" where
  "accept_loop [] s = (None, [], s)"
| "accept_loop ((others, offer) # as) s =
     (case listener_accept offer (others s) of
        None \<Rightarrow> accept_loop as (others s)
      | Some acc \<Rightarrow>
          (case start_iter acc (others s) of
             (Some r, _, s1) \<Rightarrow> (Some r, [], s1)
           | (None, started, s1) \<Rightarrow>
               (case accept_loop as s1 of
                  (r, conns, s2) \<Rightarrow> (r, (case started of None \<Rightarrow> conns | Some c \<Rightarrow> c # conns), s2))))"

definition server_start ::
  "server_config \<Rightarrow> go_error option \<Rightarrow> ((server \<Rightarrow> server) \<times> 'c result option) list \<Rightarrow> server
   \<Rightarrow> (go_error option \<times> bool \<times> 'c list) option \<times> server" where
  "server_start cfg listen_err accepts s =
     (case listen_err of
        Some e \<Rightarrow> (Some (Some e, False, []), s)
      | None \<Rightarrow>
          (let dashboard = (sc_dashboard_addr cfg \<noteq> []) in
           case accept_loop accepts (s\<lparr>sv_listening := True\<rparr>) of
             (None, conns, s1) \<Rightarrow> (None, s1)
           | (Some _, conns, s1) \<Rightarrow> (Some (None, dashboard, conns), s1)))"

section \<open>Stop\<close>

text \<open>\<open>Stop\<close> up to its wait.\<close>

definition server_stop :: "server \<Rightarrow> server outcome" where
  "server_stop s =
     (if sv_stopped s then Panic ''close of closed channel''
      else
        (let s1 = s\<lparr>sv_stopped := True, sv_listening := False\<rparr>
         in Done (fold (\<lambda>(port, p). proxy_close p) (sv_proxies s1) s1)))"

text \<open>
  The wait at the end of \<open>Stop\<close>, over what the other goroutines do meanwhile: it returns as soon as the
  counter of the wait group is zero; \<open>None\<close> is that it still waits.
\<close>

fun stop_wait :: "(server \<Rightarrow> server) list \<Rightarrow> server \<Rightarrow> server option" where
  "stop_wait [] s = (if sv_wg s \<le> 0 then Some s else None)"
| "stop_wait (others # os) s = (if sv_wg s \<le> 0 then Some s else stop_wait os (others s))"

declare map_of_eq_Some_iff [simp del] Some_eq_map_of_iff [simp del]

section \<open>Frames\<close>

lemma set_stream_simps [simp]:
  "sv_auth (set_stream i st s) = sv_auth s" "sv_clients (set_stream i st s) = sv_clients s"
  "sv_proxies (set_stream i st s) = sv_proxies s" "sv_client (set_stream i st s) = sv_client s"
  "sv_next_client (set_stream i st s) = sv_next_client s" "sv_proxy (set_stream i st s) = sv_proxy s"
  "sv_next_proxy (set_stream i st s) = sv_next_proxy s" "sv_runners (set_stream i st s) = sv_runners s"
  "sv_stats (set_stream i st s) = sv_stats s" "sv_stopped (set_stream i st s) = sv_stopped s" "sv_wg (set_stream i st s) = sv_wg s"
  "sv_streams (set_stream i st s) j = (if j = i then st else sv_streams s j)"
  by (simp_all add: set_stream_def)

lemma close_session_simps [simp]:
  "sv_auth (close_session i s) = sv_auth s" "sv_clients (close_session i s) = sv_clients s"
  "sv_proxies (close_session i s) = sv_proxies s" "sv_client (close_session i s) = sv_client s"
  "sv_next_client (close_session i s) = sv_next_client s" "sv_proxy (close_session i s) = sv_proxy s"
  "sv_next_proxy (close_session i s) = sv_next_proxy s" "sv_runners (close_session i s) = sv_runners s"
  "sv_stats (close_session i s) = sv_stats s" "sv_stopped (close_session i s) = sv_stopped s" "sv_wg (close_session i s) = sv_wg s"
  by (simp_all add: close_session_def)

lemma set_client_simps [simp]:
  "sv_auth (set_client c cl s) = sv_auth s" "sv_clients (set_client c cl s) = sv_clients s"
  "sv_proxies (set_client c cl s) = sv_proxies s"
  "sv_client (set_client c cl s) d = (if d = c then cl else sv_client s d)"
  "sv_next_client (set_client c cl s) = sv_next_client s" "sv_proxy (set_client c cl s) = sv_proxy s"
  "sv_next_proxy (set_client c cl s) = sv_next_proxy s" "sv_runners (set_client c cl s) = sv_runners s"
  "sv_stats (set_client c cl s) = sv_stats s" "sv_stopped (set_client c cl s) = sv_stopped s" "sv_wg (set_client c cl s) = sv_wg s"
  "sv_streams (set_client c cl s) = sv_streams s"
  by (simp_all add: set_client_def)

lemma srv_send_frame: "srv_send mp i typ p s = (e, s') \<Longrightarrow> \<exists>st. s' = set_stream i st s"
  by (auto simp: srv_send_def split: prod.splits)

lemma srv_send_snd: "\<exists>st. snd (srv_send mp i typ p s) = set_stream i st s"
  using srv_send_frame [of mp i "typ" p s] by (metis prod.collapse)

lemma srv_recv_frame: "srv_recv mp i s = Some (r, s') \<Longrightarrow> \<exists>st. s' = set_stream i st s"
  by (auto simp: srv_recv_def)

lemma proxy_close_simps [simp]:
  "sv_auth (proxy_close p s) = sv_auth s" "sv_clients (proxy_close p s) = sv_clients s"
  "sv_proxies (proxy_close p s) = sv_proxies s" "sv_client (proxy_close p s) = sv_client s"
  "sv_next_client (proxy_close p s) = sv_next_client s" "sv_next_proxy (proxy_close p s) = sv_next_proxy s"
  "sv_runners (proxy_close p s) = sv_runners s" "sv_stats (proxy_close p s) = sv_stats s"
  "sv_stopped (proxy_close p s) = sv_stopped s" "sv_listening (proxy_close p s) = sv_listening s" "sv_wg (proxy_close p s) = sv_wg s" "sv_streams (proxy_close p s) = sv_streams s"
  "sv_proxy (proxy_close p s) q =
     (if q = p then (sv_proxy s p)\<lparr>px_close_ch := True, px_listening := False\<rparr> else sv_proxy s q)"
  by (simp_all add: proxy_close_def Let_def)

section \<open>Cleaning up\<close>

lemma cleanup_proxies_simps [simp]:
  "sv_auth (cleanup_proxies ps s) = sv_auth s" "sv_clients (cleanup_proxies ps s) = sv_clients s"
  "sv_client (cleanup_proxies ps s) = sv_client s"
  "sv_next_client (cleanup_proxies ps s) = sv_next_client s"
  "sv_next_proxy (cleanup_proxies ps s) = sv_next_proxy s"
  "sv_runners (cleanup_proxies ps s) = sv_runners s"
  "sv_stopped (cleanup_proxies ps s) = sv_stopped s" "sv_wg (cleanup_proxies ps s) = sv_wg s" "sv_streams (cleanup_proxies ps s) = sv_streams s"
  by (induction ps s rule: cleanup_proxies.induct) (simp_all add: Let_def)

lemma cleanup_proxies_heap:
  "sv_proxy (cleanup_proxies ps s) q =
     (if q \<in> set (map snd ps) then (sv_proxy s q)\<lparr>px_close_ch := True, px_listening := False\<rparr> else sv_proxy s q)"
proof (induction ps s rule: cleanup_proxies.induct)
  case (2 name p ps s)
  then show ?case by (simp add: Let_def)
qed simp

lemma cleanup_proxies_ports:
  "map_of (sv_proxies (cleanup_proxies ps s)) port =
     (if port \<in> set (map (\<lambda>(n, p). px_port (sv_proxy s p)) ps) then None else map_of (sv_proxies s) port)"
proof (induction ps arbitrary: s)
  case (Cons np ps)
  obtain name p where np: "np = (name, p)" by (cases np)
  define s3 where "s3 = (proxy_close p s)\<lparr>sv_proxies := AList.delete (px_port (sv_proxy s p)) (sv_proxies s),
      sv_stats := DecActiveProxies (sv_stats s)\<rparr>"
  have "cleanup_proxies (np # ps) s = cleanup_proxies ps s3" by (simp add: np s3_def Let_def)
  moreover have "px_port (sv_proxy s3 q) = px_port (sv_proxy s q)" for q by (simp add: s3_def)
  moreover have "map_of (sv_proxies s3) = (map_of (sv_proxies s))(px_port (sv_proxy s p) := None)"
    by (simp add: s3_def)
  ultimately show ?case using Cons.IH [of s3] by (simp add: np)
qed simp

lemma cleanup_proxies_distinct:
  "distinct (map fst (sv_proxies s)) \<Longrightarrow> distinct (map fst (sv_proxies (cleanup_proxies ps s)))"
  by (induction ps s rule: cleanup_proxies.induct) (simp_all add: Let_def)

lemma cleanup_proxies_active:
  "ActiveProxies (sv_stats (cleanup_proxies ps s)) = ActiveProxies (sv_stats s) - word_of_nat (length ps)"
  by (induction ps s rule: cleanup_proxies.induct) (simp_all add: Let_def DecActiveProxies_def)

lemma cleanup_client_simps [simp]:
  "sv_auth (cleanup_client c s) = sv_auth s"
  "sv_next_client (cleanup_client c s) = sv_next_client s"
  "sv_next_proxy (cleanup_client c s) = sv_next_proxy s"
  "sv_runners (cleanup_client c s) = sv_runners s"
  "sv_stopped (cleanup_client c s) = sv_stopped s" "sv_wg (cleanup_client c s) = sv_wg s" "sv_streams (cleanup_client c s) = sv_streams s"
  "sv_clients (cleanup_client c s) = AList.delete (cl_id (sv_client s c)) (sv_clients s)"
  "sv_proxies (cleanup_client c s) = sv_proxies (cleanup_proxies (cl_proxies (sv_client s c)) s)"
  "sv_proxy (cleanup_client c s) = sv_proxy (cleanup_proxies (cl_proxies (sv_client s c)) s)"
  "sv_stats (cleanup_client c s) = sv_stats (cleanup_proxies (cl_proxies (sv_client s c)) s)"
  "sv_client (cleanup_client c s) d =
     (if d = c then (sv_client s c)\<lparr>cl_proxies := []\<rparr> else sv_client s d)"
  by (simp_all add: cleanup_client_def Let_def)

end
