(* ===== verification/Server_Registry.thy ===== *)
theory Server_Registry
  imports Server
begin

text \<open>
  The server as a transition system: the registry invariant and its preservation by every handler,
  what the handlers do on a stream that is up, and the properties of the registries of clients and
  proxies, of authentication and of the statistics.
\<close>

section \<open>The registry invariant\<close>

definition clients_ok :: "server \<Rightarrow> bool" where
  "clients_ok s \<longleftrightarrow> distinct (map fst (sv_clients s))
     \<and> (\<forall>cid c. map_of (sv_clients s) cid = Some c \<longrightarrow> cl_id (sv_client s c) = cid \<and> c < sv_next_client s)"

definition proxies_ok :: "server \<Rightarrow> bool" where
  "proxies_ok s \<longleftrightarrow> distinct (map fst (sv_proxies s))
     \<and> (\<forall>port p. map_of (sv_proxies s) port = Some p \<longrightarrow> px_port (sv_proxy s p) = port \<and> p < sv_next_proxy s)
     \<and> (\<forall>p. px_close_ch (sv_proxy s p) \<longrightarrow> \<not> px_listening (sv_proxy s p))"

definition owned_ok :: "server \<Rightarrow> bool" where
  "owned_ok s \<longleftrightarrow>
     (\<forall>c. distinct (map fst (cl_proxies (sv_client s c)))
        \<and> (\<forall>name p. map_of (cl_proxies (sv_client s c)) name = Some p
             \<longrightarrow> p < sv_next_proxy s \<and> px_name (sv_proxy s p) = name \<and> px_client (sv_proxy s p) = c))"

definition registry_ok :: "server \<Rightarrow> bool" where
  "registry_ok s \<longleftrightarrow> clients_ok s \<and> proxies_ok s \<and> owned_ok s"

lemmas registry_defs = registry_ok_def clients_ok_def proxies_ok_def owned_ok_def

lemma registry_ok_frame [simp]:
  "registry_ok (set_stream i st s) = registry_ok s" "registry_ok (close_session i s) = registry_ok s"
  "registry_ok (s\<lparr>sv_stats := x\<rparr>) = registry_ok s" "registry_ok (s\<lparr>sv_runners := r\<rparr>) = registry_ok s"
  "registry_ok (s\<lparr>sv_auth := a\<rparr>) = registry_ok s" "registry_ok (s\<lparr>sv_stopped := b\<rparr>) = registry_ok s"
  "registry_ok (s\<lparr>sv_listening := b\<rparr>) = registry_ok s" "registry_ok (s\<lparr>sv_wg := w\<rparr>) = registry_ok s"
  "registry_ok (conn_done s) = registry_ok s"
  by (simp_all add: registry_defs conn_done_def)

lemma registry_ok_proxy_close: "registry_ok s \<Longrightarrow> registry_ok (proxy_close p s)"
  by (simp add: registry_defs)

lemma registry_ok_cleanup: "registry_ok s \<Longrightarrow> registry_ok (cleanup_client c s)"
  unfolding registry_ok_def
proof (intro conjI)
  assume ok: "clients_ok s \<and> proxies_ok s \<and> owned_ok s"
  then show "clients_ok (cleanup_client c s)" by (auto simp: clients_ok_def)
  from ok show "proxies_ok (cleanup_client c s)"
    by (auto simp: proxies_ok_def cleanup_proxies_heap cleanup_proxies_ports cleanup_proxies_distinct
        split: if_splits)
  from ok show "owned_ok (cleanup_client c s)" by (auto simp: owned_ok_def cleanup_proxies_heap)
qed

lemma registry_ok_register:
  assumes "registry_ok s" and "register_client cid i now s = (c, s')"
  shows "registry_ok s'"
proof -
  define s1 where "s1 = (case map_of (sv_clients s) cid of None \<Rightarrow> s
      | Some old \<Rightarrow> (let s0 = cleanup_client old s in close_session (cl_session (sv_client s0 old)) s0))"
  have s1: "registry_ok s1" using assms(1) registry_ok_cleanup
    by (auto simp: s1_def Let_def split: option.splits)
  define cl where "cl = \<lparr>cl_id = cid, cl_session = i, cl_proxies = [], cl_last_ping = now\<rparr>"
  have s': "s' = ((set_client (sv_next_client s1) cl s1)\<lparr>sv_next_client := Suc (sv_next_client s1)\<rparr>)
      \<lparr>sv_clients := AList.update cid (sv_next_client s1) (sv_clients s1)\<rparr>"
    using assms(2) unfolding register_client_def Let_def s1_def [symmetric, unfolded Let_def] cl_def by auto
  from s1 have "clients_ok s'" by (auto simp: registry_defs s' cl_def less_Suc_eq)
  moreover from s1 have "proxies_ok s'" by (auto simp: registry_defs s')
  moreover from s1 have "owned_ok s'" by (auto simp: registry_defs s' cl_def)
  ultimately show ?thesis by (simp add: registry_ok_def)
qed

lemma store_proxy_fields:
  assumes "store_proxy c req s = (p, s')"
  shows "p = sv_next_proxy s" "sv_next_proxy s' = Suc p" "sv_clients s' = sv_clients s"
    "sv_next_client s' = sv_next_client s" "sv_auth s' = sv_auth s" "sv_streams s' = sv_streams s"
    "sv_runners s' = sv_runners s" "sv_stats s' = IncActiveProxies (sv_stats s)"
    "sv_stopped s' = sv_stopped s"
    "sv_proxies s' = AList.update (npq_remote_port req) p (sv_proxies s)"
    "sv_proxy s' = (sv_proxy s)(p := \<lparr>px_name = npq_name req, px_port = npq_remote_port req,
       px_listening = True, px_client = c, px_close_ch = False\<rparr>)"
    "sv_client s' d = (if d = c then (sv_client s c)
       \<lparr>cl_proxies := AList.update (npq_name req) p (cl_proxies (sv_client s c))\<rparr> else sv_client s d)"
  using assms by (auto simp: store_proxy_def Let_def)

lemma registry_ok_store:
  assumes "registry_ok s" and "store_proxy c req s = (p, s')"
  shows "registry_ok s'"
proof -
  note f = store_proxy_fields [OF assms(2)]
  have fresh: "map_of (sv_proxies s) port \<noteq> Some p" "map_of (cl_proxies (sv_client s d)) name \<noteq> Some p"
    for port d name
    using assms(1) f(1) unfolding registry_defs by (metis less_irrefl)+
  from assms(1) have "clients_ok s'" by (simp add: registry_defs f(2-12))
  moreover have "proxies_ok s'"
    using assms(1) fresh f(1) by (simp add: registry_defs f(2-12) less_SucI)
  moreover have "owned_ok s'"
    using assms(1) fresh f(1) by (simp add: registry_defs f(2-12) less_SucI)
  ultimately show ?thesis by (simp add: registry_ok_def)
qed

lemma registry_ok_unstore:
  assumes "registry_ok s"
  shows "registry_ok (unstore_proxy c p req s)"
proof -
  from assms have "clients_ok (unstore_proxy c p req s)" by (auto simp: registry_defs unstore_proxy_def Let_def)
  moreover from assms have "proxies_ok (unstore_proxy c p req s)"
    by (auto simp: registry_defs unstore_proxy_def Let_def split: if_splits)
  moreover from assms have "owned_ok (unstore_proxy c p req s)"
    by (auto simp: registry_defs unstore_proxy_def Let_def split: if_splits)
  ultimately show ?thesis by (simp add: registry_ok_def)
qed

lemma registry_ok_exit:
  assumes "registry_ok s"
  shows "registry_ok (run_proxy_exit p s)"
proof -
  from assms have "clients_ok (run_proxy_exit p s)" by (auto simp: registry_defs run_proxy_exit_def Let_def)
  moreover from assms have "proxies_ok (run_proxy_exit p s)"
    by (auto simp: registry_defs run_proxy_exit_def Let_def split: if_splits)
  moreover from assms have "owned_ok (run_proxy_exit p s)"
    by (auto simp: registry_defs run_proxy_exit_def Let_def split: if_splits)
  ultimately show ?thesis by (simp add: registry_ok_def)
qed

section \<open>The server as a transition system\<close>

text \<open>
  One step is one handler of one goroutine, run under the locks it takes: an accepted connection, the
  authentication of a new session, one message of a control stream, the end of a connection handler, the end of an
  accept loop, or Stop. \<open>register\<close> is the second half of \<open>handleNewProxy\<close> on its own, for
  the case that the check of its first half was made in an earlier state.
\<close>

inductive srv_step ::
  "msgpack \<Rightarrow> (bytes \<Rightarrow> bytes \<Rightarrow> bytes) \<Rightarrow> server \<Rightarrow> server \<Rightarrow> bool" for mp hm where
  accept: "listener_accept offer s = Some (acc :: nat result) \<Longrightarrow> srv_step mp hm s (snd (snd (start_iter acc s)))"
| authenticate: "handle_auth mp hm now i s = Some (out, s1)
    \<Longrightarrow> s2 = (case out of Done (Inr c) \<Rightarrow> conn_authenticated s1 | Done (Inl e) \<Rightarrow> conn_done (close_session i s1)
        | Panic m \<Rightarrow> conn_done s1)
    \<Longrightarrow> srv_step mp hm s s2"
| control: "c < sv_next_client s \<Longrightarrow> cl_session (sv_client s c) = i
    \<Longrightarrow> control_iter mp listen now c i s = Some (r, s1) \<Longrightarrow> srv_step mp hm s s1"
| register: "c < sv_next_client s \<Longrightarrow> cl_session (sv_client s c) = i
    \<Longrightarrow> srv_step mp hm s (np_commit mp c i req s)"
| finish: "c < sv_next_client s \<Longrightarrow> cl_session (sv_client s c) = i
    \<Longrightarrow> srv_step mp hm s (conn_finished c i s)"
| runner_exit: "(p, i) \<in> set (sv_runners s) \<Longrightarrow> run_proxy_iter p (AcceptError e) s = Some ()
    \<Longrightarrow> srv_step mp hm s (run_proxy_exit p s)"
| stop: "server_stop s = Done s1 \<Longrightarrow> srv_step mp hm s s1"

lemma registry_ok_commit:
  assumes "registry_ok s"
  shows "registry_ok (np_commit mp c i req s)"
proof -
  obtain p s1 where st: "store_proxy c req s = (p, s1)" by fastforce
  obtain e s2 where snd: "srv_send mp i MsgTypeNewProxyResp (npr_success (npq_remote_port req)) s1 = (e, s2)"
    by fastforce
  from srv_send_frame [OF snd] registry_ok_store [OF assms st] have "registry_ok s2" by auto
  with st snd registry_ok_unstore show ?thesis
    by (auto simp: np_commit_def split: option.splits)
qed

lemma registry_ok_send: "registry_ok (snd (srv_send mp i t p s)) = registry_ok s"
  using srv_send_snd [of mp i t p s] by auto

lemma np_check_frame: "np_check mp i msg s = (r, s1) \<Longrightarrow> \<exists>st. s1 = set_stream i st s"
proof -
  have self: "\<exists>st. s = set_stream i st s" by (rule exI [of _ "sv_streams s i"]) (simp add: set_stream_def)
  assume "np_check mp i msg s = (r, s1)"
  with srv_send_snd [of mp i] self show ?thesis
    by (auto simp: np_check_def split: sum.splits if_splits)
qed

lemma registry_ok_new_proxy:
  assumes "registry_ok s"
  shows "registry_ok (handle_new_proxy mp listen c i msg s)"
proof -
  obtain r s1 where ch: "np_check mp i msg s = (r, s1)" by fastforce
  from np_check_frame [OF this] assms have "registry_ok s1" by auto
  with ch registry_ok_commit show ?thesis
    by (auto simp: handle_new_proxy_def registry_ok_send split: option.splits)
qed

lemma registry_ok_set_ping:
  "registry_ok s \<Longrightarrow> registry_ok (set_client c ((sv_client s c)\<lparr>cl_last_ping := t\<rparr>) s)"
  by (auto simp: registry_defs)

lemma registry_ok_control:
  assumes "registry_ok s" and "control_iter mp listen now c i s = Some (r, s1)"
  shows "registry_ok s1"
proof -
  from assms(2) obtain res s2 where rc: "srv_recv mp i s = Some (res, s2)"
    by (auto simp: control_iter_def split: option.splits)
  from srv_recv_frame [OF rc] assms(1) have ok: "registry_ok s2" by auto
  show ?thesis
  proof (cases res)
    case (Inl e)
    with assms(2) rc ok show ?thesis by (simp add: control_iter_def)
  next
    case (Inr msg)
    define s3 where "s3 = set_client c ((sv_client s2 c)\<lparr>cl_last_ping := fst now\<rparr>) s2"
    obtain e s4 where snd: "srv_send mp i MsgTypePong (PPong \<lparr>pong_ts = snd now\<rparr>) s3 = (e, s4)" by fastforce
    from srv_send_frame [OF snd] registry_ok_set_ping [OF ok, of c "fst now"]
    have "registry_ok s4" by (auto simp: s3_def)
    with Inr assms(2) rc ok snd registry_ok_new_proxy [OF ok] show ?thesis
      by (auto simp: control_iter_def Let_def s3_def [symmetric] split: if_splits option.splits)
  qed
qed

text \<open>What \<open>handleAuth\<close> did when it returned.\<close>

lemma handle_auth_cases:
  assumes "handle_auth mp hm now i s = Some (out, s1)"
  obtains
    (refused) st au where "case out of Done (Inr c) \<Rightarrow> False | _ \<Rightarrow> True"
      "s1 = (set_stream i st s)\<lparr>sv_auth := au\<rparr>"
  | (accepted) st and req :: auth_request and au and s2 :: server and c and msg st0 where "out = Done (Inr c)"
      "verify hm now (sv_auth s) (auth_token req) (format_int (sint (auth_ts req))) (auth_nonce req)
         (auth_sign req) = (True, au)"
      "8 \<le> length (auth_token req)" "s2 = (set_stream i st s)\<lparr>sv_auth := au\<rparr>"
      "register_client (take 8 (auth_token req) @ ''...'') i (fst now) s2 = (c, s1)"
      "recv_message mp live_read (sv_streams s i) = Some (Inr msg, st0)" "msg_type msg = MsgTypeAuth"
      "decode_payload (mp_auth_request mp) msg = Inr req"
proof -
  from assms obtain res s0 where rc: "srv_recv mp i s = Some (res, s0)"
    by (auto simp: handle_auth_def split: option.splits)
  then obtain st0 where recv: "recv_message mp live_read (sv_streams s i) = Some (res, st0)" and s0: "s0 = set_stream i st0 s"
    by (auto simp: srv_recv_def)
  have keep: "s0 = (set_stream i st0 s)\<lparr>sv_auth := sv_auth s\<rparr>" by (simp add: s0 set_stream_def)
  show thesis
  proof (cases res)
    case (Inl e)
    with assms rc keep show thesis by (intro refused [where st = st0 and au = "sv_auth s"]) (auto simp: handle_auth_def)
  next
    case msg: (Inr msg)
    show thesis
    proof (cases "msg_type msg = MsgTypeAuth")
      case False
      with assms rc keep msg show thesis by (intro refused [where st = st0 and au = "sv_auth s"]) (auto simp: handle_auth_def)
    next
      case is_auth: True
      show thesis
      proof (cases "decode_payload (mp_auth_request mp) msg")
        case (Inl e)
        with assms rc keep msg is_auth show thesis
          by (intro refused [where st = st0 and au = "sv_auth s"]) (auto simp: handle_auth_def)
      next
        case req: (Inr req)
        obtain ok au where ver: "verify hm now (sv_auth s0) (auth_token req) (format_int (sint (auth_ts req)))
            (auth_nonce req) (auth_sign req) = (ok, au)" by fastforce
        define s2 where "s2 = s0\<lparr>sv_auth := au\<rparr>"
        define resp where "resp = (if ok then \<lparr>authr_ok = True, authr_message = []\<rparr>
            else \<lparr>authr_ok = False, authr_message = ''authentication failed''\<rparr>)"
        obtain e s3 where snd: "srv_send mp i MsgTypeAuthResp (PAuthResponse resp) s2 = (e, s3)" by fastforce
        from srv_send_frame [OF snd] obtain st where s3: "s3 = set_stream i st s2" by blast
        have s3': "s3 = (set_stream i st s)\<lparr>sv_auth := au\<rparr>" by (simp add: s3 s2_def s0 set_stream_def)
        have s2': "s2 = (set_stream i st0 s)\<lparr>sv_auth := au\<rparr>" by (simp add: s2_def s0)
        have body: "(out, s1) =
            (if \<not> ok \<and> length (auth_token req) < 8 then (slice_panic, s2)
             else (case e of
                 Some e \<Rightarrow> (Done (Inl e), s3)
               | None \<Rightarrow>
                   if \<not> ok then (Done (Inl (auth_error ''authentication failed'')), s3)
                   else if length (auth_token req) < 8 then (slice_panic, s3)
                   else (case register_client (take 8 (auth_token req) @ ''...'') i (fst now) s3 of
                           (c, s4) \<Rightarrow> (Done (Inr c), s4))))"
          using assms rc msg is_auth req ver snd
          by (auto simp: handle_auth_def Let_def s2_def [symmetric] resp_def [symmetric]
              split: option.splits if_splits prod.splits)
        consider "s1 = s2" "out = slice_panic" | "s1 = s3" "case out of Done (Inr c) \<Rightarrow> False | _ \<Rightarrow> True"
          | c where "ok" "8 \<le> length (auth_token req)" "out = Done (Inr c)"
              "register_client (take 8 (auth_token req) @ ''...'') i (fst now) s3 = (c, s1)"
          using body by (auto simp: slice_panic_def split: if_splits option.splits prod.splits)
        then show thesis
        proof cases
          case 1
          with s2' show thesis by (intro refused [where st = st0 and au = au]) (auto simp: slice_panic_def)
        next
          case 2
          with s3' show thesis by (intro refused [where st = st and au = au]) auto
        next
          case 3
          with s3' ver s0 recv msg is_auth req show thesis
            by (intro accepted [where c = c and req = req and au = au and ?s2.0 = s3 and st = st and msg = msg and ?st0.0 = st0]) auto
        qed
      qed
    qed
  qed
qed

lemma registry_ok_auth:
  assumes "registry_ok s" and "handle_auth mp hm now i s = Some (out, s1)"
  shows "registry_ok s1"
proof (cases rule: handle_auth_cases [OF assms(2), case_names refused accepted])
  case (refused st au)
  with assms(1) show ?thesis by simp
next
  case (accepted st req au s2 c)
  have "registry_ok s2" using assms(1) accepted(4) by simp
  from registry_ok_register [OF this accepted(5)] show ?thesis .
qed

lemma registry_ok_close_all:
  "registry_ok s \<Longrightarrow> registry_ok (fold (\<lambda>(port, p). proxy_close p) ps s)"
  by (induction ps arbitrary: s) (auto simp: registry_ok_proxy_close)

lemma registry_ok_stop:
  assumes "registry_ok s" and "server_stop s = Done s1"
  shows "registry_ok s1"
proof -
  from assms(2) have "s1 = fold (\<lambda>(port, p). proxy_close p) (sv_proxies s)
      (s\<lparr>sv_stopped := True, sv_listening := False\<rparr>)"
    by (simp add: server_stop_def Let_def split: if_splits)
  then show ?thesis by (simp add: registry_ok_close_all assms(1))
qed

lemma registry_ok_step:
  assumes "srv_step mp hm s s1" and "registry_ok s"
  shows "registry_ok s1"
  using assms(1)
proof (cases rule: srv_step.cases)
  case (accept offer acc)
  with assms(2) show ?thesis by (auto simp: start_iter_def split: sum.splits)
next
  case (authenticate now i out s1')
  from registry_ok_auth [OF assms(2) authenticate(1)] have "registry_ok s1'" .
  with authenticate(2) show ?thesis
    by (auto simp: conn_authenticated_def split: outcome.splits sum.splits)
next
  case (control c i listen now r)
  from registry_ok_control [OF assms(2) control(3)] show ?thesis .
next
  case (register c i req)
  from registry_ok_commit [OF assms(2)] register(1) show ?thesis by simp
next
  case (finish c i)
  with registry_ok_cleanup [OF assms(2)] show ?thesis by (simp add: conn_finished_def Let_def)
next
  case (runner_exit p i e)
  from registry_ok_exit [OF assms(2)] runner_exit(1) show ?thesis by simp
next
  case stop
  from registry_ok_stop [OF assms(2) stop] show ?thesis .
qed

lemma registry_ok_new: "registry_ok (new_server cfg streams now)"
  by (simp add: registry_defs new_server_def no_client_def no_proxy_def)

interpretation server_run: step_invariant "srv_step mp hm" "\<lambda>s. \<exists>cfg streams now. s = new_server cfg streams now"
  registry_ok for mp hm
  by unfold_locales (auto simp: registry_ok_new intro: registry_ok_step)

section \<open>Sending and receiving on a stream that is up\<close>

text \<open>A stream on which every write succeeds.\<close>

definition stream_up :: "nat \<Rightarrow> server \<Rightarrow> bool" where
  "stream_up i s \<longleftrightarrow> conn_up (sv_streams s i)"

lemma srv_send_up:
  assumes "stream_up i s" and "sendable mp (t, p)"
  shows "\<exists>st. srv_send mp i t p s = (None, set_stream i st s) \<and> no_faults st \<and> \<not> closed st
    \<and> sent (cout st) = sent (cout (sv_streams s i)) @ msg_frame mp (msg_of mp (t, p))"
proof -
  from assms(1) have up: "no_faults (sv_streams s i)" "\<not> closed (sv_streams s i)" by (simp_all add: stream_up_def conn_up_def)
  from send_message_ok [OF up(1) assms(2)] send_live [OF up(2)] up(2) show ?thesis
    by (auto simp: srv_send_def)
qed

lemma srv_recv_returns: "\<exists>r st. srv_recv mp i s = Some (r, set_stream i st s)"
  using live_decode_returns [of mp "sv_streams s i"]
  by (auto simp: srv_recv_def recv_message_def)

lemma handle_auth_returns: "\<exists>out s1. handle_auth mp hm now i s = Some (out, s1)"
proof -
  obtain r st where rc: "srv_recv mp i s = Some (r, set_stream i st s)" using srv_recv_returns by blast
  show ?thesis
    by (cases r) (auto simp: handle_auth_def rc Let_def split: sum.splits prod.splits option.splits)
qed

lemma register_client_fields:
  assumes "register_client cid i now s = (c, s1)"
  shows "map_of (sv_clients s1) cid = Some c" "sv_client s1 c = \<lparr>cl_id = cid, cl_session = i, cl_proxies = [], cl_last_ping = now\<rparr>"
    "c = sv_next_client s" "sv_runners s1 = sv_runners s" "sv_next_proxy s1 = sv_next_proxy s"
  using assms by (auto simp: register_client_def Let_def split: option.splits)

lemma register_client_others:
  "register_client cid i now s = (c, s1) \<Longrightarrow>
     {d. sv_client s1 d \<noteq> sv_client s d} \<subseteq> {c} \<union> set_option (map_of (sv_clients s) cid)"
  by (auto simp: register_client_def Let_def split: option.splits if_splits)

text \<open>A stream that is up stays up when another one's session is closed.\<close>

lemma register_client_streams:
  assumes "register_client cid i now s = (c, s1)"
    and "\<forall>old. map_of (sv_clients s) cid = Some old \<longrightarrow> cl_session (sv_client s old) \<noteq> j"
  shows "sv_streams s1 j = sv_streams s j"
  using assms by (auto simp: register_client_def Let_def close_session_def split: option.splits)

lemma np_commit_up:
  assumes "stream_up i s" and "sendable mp (MsgTypeNewProxyResp, npr_success (npq_remote_port req))"
    and "store_proxy c req s = (p, s1)"
  shows "\<exists>st. np_commit mp c i req s = (set_stream i st s1)\<lparr>sv_runners := (p, i) # sv_runners s\<rparr>
    \<and> no_faults st \<and> \<not> closed st"
proof -
  note f = store_proxy_fields [OF assms(3)]
  have "stream_up i s1" using assms(1) by (simp add: stream_up_def conn_up_def f(6))
  from srv_send_up [OF this assms(2)] assms(3) show ?thesis
    by (auto simp: np_commit_def f(7))
qed

lemma unstore_fields:
  "sv_proxies (unstore_proxy c p req s) = AList.delete (npq_remote_port req) (sv_proxies s)"
  "sv_proxy (unstore_proxy c p req s) = (sv_proxy s)(p := (sv_proxy s p)\<lparr>px_listening := False\<rparr>)"
  "sv_client (unstore_proxy c p req s) d = (if d = c then (sv_client s c)
     \<lparr>cl_proxies := AList.delete (npq_name req) (cl_proxies (sv_client s c))\<rparr> else sv_client s d)"
  "sv_stats (unstore_proxy c p req s) = DecActiveProxies (sv_stats s)"
  "sv_runners (unstore_proxy c p req s) = sv_runners s"
  "sv_clients (unstore_proxy c p req s) = sv_clients s"
  by (simp_all add: unstore_proxy_def Let_def)

lemma srv_send_cong:
  "sv_streams s i = sv_streams s' i \<Longrightarrow> fst (srv_send mp i t p s) = fst (srv_send mp i t p s')"
  by (simp add: srv_send_def split: prod.splits)

text \<open>Registering several proxies one after the other, each answer sent.\<close>

fun register_all :: "msgpack \<Rightarrow> nat \<Rightarrow> nat \<Rightarrow> new_proxy_request list \<Rightarrow> server \<Rightarrow> server" where
  "register_all mp c i [] s = s"
| "register_all mp c i (req # reqs) s = register_all mp c i reqs (np_commit mp c i req s)"

lemma register_all_counts:
  assumes "stream_up i s" and "list_all (\<lambda>req. sendable mp (MsgTypeNewProxyResp, npr_success (npq_remote_port req))) reqs"
    and "distinct (map npq_name reqs)"
    and "set (map npq_name reqs) \<inter> fst ` set (cl_proxies (sv_client s c)) = {}"
  shows "ActiveProxies (sv_stats (register_all mp c i reqs s)) = ActiveProxies (sv_stats s) + word_of_nat (length reqs)
    \<and> length (cl_proxies (sv_client (register_all mp c i reqs s) c)) = length (cl_proxies (sv_client s c)) + length reqs"
  using assms
proof (induction reqs arbitrary: s)
  case Nil
  then show ?case by simp
next
  case (Cons req reqs)
  obtain p s1 where st: "store_proxy c req s = (p, s1)" by fastforce
  note f = store_proxy_fields [OF st]
  from np_commit_up [OF Cons.prems(1) _ st] Cons.prems(2) obtain x where
    s2: "np_commit mp c i req s = (set_stream i x s1)\<lparr>sv_runners := (p, i) # sv_runners s\<rparr>"
      "no_faults x" "\<not> closed x" by auto
  let ?s2 = "np_commit mp c i req s"
  have new: "npq_name req \<notin> fst ` set (cl_proxies (sv_client s c))" using Cons.prems(4) by auto
  then have upd: "cl_proxies (sv_client ?s2 c) = cl_proxies (sv_client s c) @ [(npq_name req, p)]"
    by (simp add: s2(1) f(12) alist_update_new)
  have "stream_up i ?s2" using s2 by (simp add: stream_up_def conn_up_def)
  moreover have "set (map npq_name reqs) \<inter> fst ` set (cl_proxies (sv_client ?s2 c)) = {}"
    using Cons.prems(3,4) upd by auto
  ultimately have "ActiveProxies (sv_stats (register_all mp c i reqs ?s2)) = ActiveProxies (sv_stats ?s2) + word_of_nat (length reqs)
    \<and> length (cl_proxies (sv_client (register_all mp c i reqs ?s2) c)) = length (cl_proxies (sv_client ?s2 c)) + length reqs"
    using Cons.IH [of ?s2] Cons.prems(2,3) by simp
  moreover have "ActiveProxies (sv_stats ?s2) = ActiveProxies (sv_stats s) + 1"
    by (simp add: s2(1) f(8) IncActiveProxies_def)
  ultimately show ?case using upd by simp
qed

lemma exits_active:
  "ActiveProxies (sv_stats (fold run_proxy_exit ps s)) = ActiveProxies (sv_stats s) - word_of_nat (length ps)"
  by (induction ps arbitrary: s) (simp_all add: run_proxy_exit_def Let_def DecActiveProxies_def)

text \<open>A message that is complete on a stream that is up is received, and the stream stays up.\<close>

lemma srv_recv_frame_up:
  assumes "stream_up i s" and "fits mp m" and "live_avail (sv_streams s i) = msg_frame mp m @ rest"
  shows "\<exists>st. srv_recv mp i s = Some (Inr m, set_stream i st s) \<and> no_faults st \<and> \<not> closed st
    \<and> cout st = cout (sv_streams s i) \<and> live_avail st = rest"
proof -
  from live_proto.recv_frame [OF TrueI assms(2,3)] obtain st where
    st: "recv_message mp live_read (sv_streams s i) = Some (Inr m, st)" "live_avail st = rest" by blast
  with recv_live_keeps [OF st(1)] assms(1) show ?thesis
    by (auto simp: srv_recv_def stream_up_def conn_up_def no_faults_def)
qed

lemma close_all_simps [simp]:
  "sv_streams (fold (\<lambda>(port, p). proxy_close p) ps s) = sv_streams s"
  "sv_clients (fold (\<lambda>(port, p). proxy_close p) ps s) = sv_clients s"
  "sv_client (fold (\<lambda>(port, p). proxy_close p) ps s) = sv_client s"
  "sv_proxies (fold (\<lambda>(port, p). proxy_close p) ps s) = sv_proxies s"
  "sv_stopped (fold (\<lambda>(port, p). proxy_close p) ps s) = sv_stopped s"
  "sv_wg (fold (\<lambda>(port, p). proxy_close p) ps s) = sv_wg s"
  "sv_listening (fold (\<lambda>(port, p). proxy_close p) ps s) = sv_listening s"
  by (induction ps arbitrary: s) (simp_all split: prod.splits)

lemma close_all_heap:
  "sv_proxy (fold (\<lambda>(port, p). proxy_close p) ps s) q =
     (if q \<in> set (map snd ps) then (sv_proxy s q)\<lparr>px_close_ch := True, px_listening := False\<rparr> else sv_proxy s q)"
  by (induction ps arbitrary: s) (auto split: prod.splits)

text \<open>A user connection is counted while it is forwarded, and no longer.\<close>

lemma user_connection_counted:
  assumes "\<And>k s s' r. accept k s = Some (r, s') \<Longrightarrow> ActiveConns (sv_stats s') = ActiveConns (sv_stats s)"
    and "\<And>st s s'. join st s = Some s' \<Longrightarrow> ActiveConns (sv_stats s') = ActiveConns (sv_stats s)"
    and "handle_user_connection mp rnd accept join p i s = Some s'"
  shows "ActiveConns (sv_stats s') = ActiveConns (sv_stats s)"
proof -
  obtain e s1 where nt: "user_notify mp p i (generate_nonce rnd) s = (e, s1)" by fastforce
  then have "sv_stats s1 = sv_stats s" by (auto simp: user_notify_def dest: srv_send_frame)
  with assms(3) nt show ?thesis
    by (auto simp: handle_user_connection_def user_joining_def user_done_def stats_defs Let_def
        split: option.splits sum.splits dest!: assms(1,2))
qed

section \<open>A sample server\<close>

text \<open>A server with one client and one proxy of it, all control streams idle, for evaluating the model.\<close>

definition sample_server :: server where
  "sample_server =
     \<lparr>sv_auth = new_authenticator [''secret-token''], sv_clients = [(''secret-t...'', 0)], sv_proxies = [(8080, 0)],
      sv_client = (\<lambda>_. no_client)(0 := \<lparr>cl_id = ''secret-t...'', cl_session = 0, cl_proxies = [(''web'', 0)],
        cl_last_ping = 0\<rparr>), sv_next_client = 1,
      sv_proxy = (\<lambda>_. no_proxy)(0 := \<lparr>px_name = ''web'', px_port = 8080, px_listening = True, px_client = 0,
        px_close_ch = False\<rparr>), sv_next_proxy = 1,
      sv_streams = (\<lambda>_. idle_conn []), sv_runners = [(0, 0)], sv_stats = initial_stats 0, sv_stopped = False,
      sv_listening = True, sv_wg = 1\<rparr>"

lemma sample_server_up: "stream_up i sample_server"
  by (simp add: stream_up_def conn_up_def sample_server_def) (simp add: idle_conn_def)

text \<open>A request that \<open>Verify\<close> accepts, on a stream that is up, registers the client.\<close>

lemma handle_auth_accepts:
  assumes "stream_up i s" and "fits mp m" and "live_avail (sv_streams s i) = msg_frame mp m @ rest"
    and "msg_type m = MsgTypeAuth" and "decode_payload (mp_auth_request mp) m = Inr req"
    and "8 \<le> length (auth_token req)"
    and "verify hm now (sv_auth s) (auth_token req) (format_int (sint (auth_ts req))) (auth_nonce req)
        (auth_sign req) = (True, au)"
    and "sendable mp (MsgTypeAuthResp, PAuthResponse \<lparr>authr_ok = True, authr_message = []\<rparr>)"
  shows "\<exists>st c s1. handle_auth mp hm now i s = Some (Done (Inr c), s1)
    \<and> register_client (take 8 (auth_token req) @ ''...'') i (fst now) ((set_stream i st s)\<lparr>sv_auth := au\<rparr>) = (c, s1)
    \<and> no_faults st \<and> \<not> closed st
    \<and> sent (cout st) = sent (cout (sv_streams s i))
        @ msg_frame mp (msg_of mp (MsgTypeAuthResp, PAuthResponse \<lparr>authr_ok = True, authr_message = []\<rparr>))"
proof -
  let ?ok = "PAuthResponse \<lparr>authr_ok = True, authr_message = []\<rparr>"
  from srv_recv_frame_up [OF assms(1-3)] obtain st where
    rc: "srv_recv mp i s = Some (Inr m, set_stream i st s)" and
    st: "no_faults st" "\<not> closed st" "cout st = cout (sv_streams s i)" by blast
  let ?s2 = "(set_stream i st s)\<lparr>sv_auth := au\<rparr>"
  have "stream_up i ?s2" using st by (simp add: stream_up_def conn_up_def)
  from srv_send_up [OF this assms(8)] obtain st2 where
    snd: "srv_send mp i MsgTypeAuthResp ?ok ?s2 = (None, set_stream i st2 ?s2)" and
    st2: "no_faults st2" "\<not> closed st2" "sent (cout st2) = sent (cout (sv_streams s i))
       @ msg_frame mp (msg_of mp (MsgTypeAuthResp, ?ok))"
    using st(3) by auto
  obtain c s1 where reg: "register_client (take 8 (auth_token req) @ ''...'') i (fst now)
      ((set_stream i st2 s)\<lparr>sv_auth := au\<rparr>) = (c, s1)" by fastforce
  have "set_stream i st2 ?s2 = (set_stream i st2 s)\<lparr>sv_auth := au\<rparr>" by (simp add: set_stream_def)
  with assms(4-7) rc snd reg st2 show ?thesis
    by (intro exI [of _ st2] exI [of _ c] exI [of _ s1]) (simp add: handle_auth_def Let_def)
qed

text \<open>An authentication request of that client, signed with a MAC that is the start of its data.\<close>

definition sample_mac :: "bytes \<Rightarrow> bytes \<Rightarrow> bytes" where
  "sample_mac k d = take 2 d"

definition sample_request :: "string \<Rightarrow> auth_request" where
  "sample_request token = \<lparr>auth_token = token, auth_ts = 5000, auth_nonce = ''n1'',
     auth_sign = sign sample_mac token ''5000'' ''n1'', auth_version = ''1.0.0''\<rparr>"

definition sample_auth_message :: "string \<Rightarrow> message" where
  "sample_auth_message token =
     \<lparr>msg_type = MsgTypeAuth, msg_payload = sample_payload (PAuthRequest (sample_request token))\<rparr>"

lemma sample_mac_sign: "length (sign sample_mac token ts nonce) \<le> 4"
  by (simp add: sign_def hex_encode_length sample_mac_def Let_def)

lemma sample_auth_decode:
  "length token < 256 \<Longrightarrow>
     decode_payload (mp_auth_request sample_msgpack) (sample_auth_message token) = Inr (sample_request token)"
  unfolding decode_payload_def sample_auth_message_def message.select_convs
  using sample_mac_sign [of token "''5000''" "''n1''"]
  by (intro sample_auth_request) (simp add: sample_request_def)

lemma sample_auth_fits: "length token < 256 \<Longrightarrow> fits sample_msgpack (sample_auth_message token)"
  using sample_mac_sign [of token "''5000''" "''n1''"]
  by (simp add: fits_def MaxMsgSize_def sample_msgpack_def sample_auth_message_def sample_request_def pack_str_def)
    (simp add: sample_eval)

lemma sample_auth_verify:
  assumes "sv_auth s = new_authenticator [token]"
  shows "\<exists>au. verify sample_mac (5000 * second, 5000 * second) (sv_auth s) (auth_token (sample_request token))
    (format_int (sint (auth_ts (sample_request token)))) (auth_nonce (sample_request token))
    (auth_sign (sample_request token)) = (True, au)"
proof -
  have "parse_int (format_int 5000) = Some 5000" and fmt: "format_int 5000 = ''5000''"
    by (simp add: parse_format_port) (simp add: sample_eval)
  then have "verify_check (5000 * second) (sv_auth s) token ''5000'' ''n1''"
    by (simp add: assms verify_check_iff valid_clock_def second_def in_window_def new_authenticator_token
        nc_exists_def) (simp add: new_authenticator_def new_nonce_cache_def)
  then show ?thesis
    by (simp add: sample_request_def fmt verify_def verify_commit_def Let_def)
qed

lemma sample_auth_ok_sendable:
  "sendable sample_msgpack (MsgTypeAuthResp, PAuthResponse \<lparr>authr_ok = True, authr_message = []\<rparr>)"
  by (rule sample_sendable) (simp add: MaxMsgSize_def sample_eval)

lemma sample_success_sendable: "sendable sample_msgpack (MsgTypeNewProxyResp, npr_success 8080)"
  "sendable sample_msgpack (MsgTypeNewProxyResp, npr_success 9000)"
  by (rule sample_sendable; simp add: npr_success_def MaxMsgSize_def sample_eval)+

definition sample_config :: server_config where
  "sample_config =
     \<lparr>sc_bind_addr = '':7000'', sc_dashboard_addr = [], sc_transport = ''net'', sc_crypto = ''none'',
      sc_tls_cert_file = [], sc_tls_key_file = [], sc_chacha20_psk = [], sc_quic_cert_file = [],
      sc_quic_key_file = [], sc_auth_tokens = [''secret-token''], sc_mtmux_enabled = False, sc_mtmux_tunnels = 0\<rparr>"

section \<open>Properties\<close>

text \<open>
  C3: In every state the server can reach, through any interleaving of its handlers, the registries are
  consistent: no client ID and no port is registered twice, what is registered under an ID or a port
  exists and has that ID or port, the proxies of a client carry the names they are filed under and
  point back to the client, and a proxy whose channel is closed does not listen.
\<close>
theorem server_registries_consistent:
  assumes "(srv_step mp hm)\<^sup>*\<^sup>* (new_server cfg streams now) s"
  shows "clients_ok s \<and> proxies_ok s \<and> owned_ok s"
  using server_run.reachable_ok [OF _ assms] by (auto simp: registry_ok_def)

theorem server_registries_consistent_witness:
  "\<exists>s. (srv_step sample_msgpack sample_mac)\<^sup>*\<^sup>*
       (new_server sample_config (\<lambda>_. idle_conn [msg_frame sample_msgpack (sample_auth_message ''secret-token'')]) 0) s
     \<and> clients_ok s \<and> proxies_ok s \<and> owned_ok s
     \<and> map_of (sv_clients s) ''secret-t...'' = Some 0 \<and> map_of (sv_proxies s) 8080 = Some 0"
proof -
  let ?m = "sample_auth_message ''secret-token''" and ?now = "(5000 * second, 5000 * second)"
  let ?s = "new_server sample_config (\<lambda>_. idle_conn [msg_frame sample_msgpack ?m]) 0"
  have up: "stream_up 0 ?s" by (simp add: stream_up_def conn_up_def new_server_def) (simp add: idle_conn_def)
  have av: "live_avail (sv_streams ?s 0) = msg_frame sample_msgpack ?m @ []"
    by (simp add: live_avail_def new_server_def) (simp add: idle_conn_def)
  have "sv_auth ?s = new_authenticator [''secret-token'']" by (simp add: new_server_def sample_config_def)
  from sample_auth_verify [OF this] obtain au where
    ver: "verify sample_mac ?now (sv_auth ?s) (auth_token (sample_request ''secret-token''))
    (format_int (sint (auth_ts (sample_request ''secret-token'')))) (auth_nonce (sample_request ''secret-token''))
    (auth_sign (sample_request ''secret-token'')) = (True, au)" by blast
  from handle_auth_accepts [OF up sample_auth_fits av _ sample_auth_decode _ ver sample_auth_ok_sendable] obtain st c s1 where
    au: "handle_auth sample_msgpack sample_mac ?now 0 ?s = Some (Done (Inr c), s1)" and
    reg: "register_client ''secret-t...'' 0 (5000 * second) ((set_stream 0 st ?s)\<lparr>sv_auth := au\<rparr>) = (c, s1)" and
    st: "no_faults st" "\<not> closed st"
    by (auto simp: sample_auth_message_def sample_request_def)
  have s1: "c = 0" "sv_client s1 0 = \<lparr>cl_id = ''secret-t...'', cl_session = 0, cl_proxies = [], cl_last_ping = 5000 * second\<rparr>"
    "sv_clients s1 = [(''secret-t...'', 0)]" "sv_next_client s1 = 1" "sv_proxies s1 = []" "sv_next_proxy s1 = 0"
    "sv_streams s1 0 = st"
    using reg by (auto simp: register_client_def Let_def new_server_def)
  let ?s1 = "conn_authenticated s1"
  let ?req = "\<lparr>npq_name = ''web'', npq_type = ''tcp'', npq_remote_port = 8080\<rparr>"
  have "srv_step sample_msgpack sample_mac ?s ?s1" by (rule srv_step.authenticate [OF au]) simp
  moreover have "srv_step sample_msgpack sample_mac ?s1 (np_commit sample_msgpack 0 0 ?req ?s1)"
    using s1 by (intro srv_step.register) (simp_all add: conn_authenticated_def)
  ultimately have run: "(srv_step sample_msgpack sample_mac)\<^sup>*\<^sup>* ?s (np_commit sample_msgpack 0 0 ?req ?s1)" by simp
  obtain p s2 where store: "store_proxy 0 ?req ?s1 = (p, s2)" by fastforce
  note f = store_proxy_fields [OF store]
  have "stream_up 0 ?s1" using st s1 by (simp add: stream_up_def conn_up_def conn_authenticated_def)
  from np_commit_up [OF this _ store, of sample_msgpack] sample_success_sendable(1) s1 f
  have "map_of (sv_clients (np_commit sample_msgpack 0 0 ?req ?s1)) ''secret-t...'' = Some 0"
    "map_of (sv_proxies (np_commit sample_msgpack 0 0 ?req ?s1)) 8080 = Some 0"
    by (auto simp: conn_authenticated_def)
  with run server_registries_consistent [OF run] show ?thesis by blast
qed

text \<open>
  C15: \<open>handleAuth\<close> always returns, and it registers a client only for the request it received: the message
  on the control stream is an authentication request, and \<open>Verify\<close> accepts the token, timestamp, nonce and
  signature of that very request. The client is then new, filed under the first eight characters of
  the token, with no proxies yet; every other client keeps its state, but for an old client of that ID.
  Every other outcome, a panic included, leaves clients and proxies as they were.
\<close>
theorem auth_registers_only_verified:
  "\<exists>out s1. handle_auth mp hm now i s = Some (out, s1)
    \<and> (case out of
         Done (Inr c) \<Rightarrow>
           (\<exists>msg st0 (req :: auth_request) au. recv_message mp live_read (sv_streams s i) = Some (Inr msg, st0)
             \<and> msg_type msg = MsgTypeAuth \<and> decode_payload (mp_auth_request mp) msg = Inr req
             \<and> verify hm now (sv_auth s) (auth_token req) (format_int (sint (auth_ts req)))
               (auth_nonce req) (auth_sign req) = (True, au)
             \<and> 8 \<le> length (auth_token req) \<and> sv_auth s1 = au
             \<and> c = sv_next_client s \<and> map_of (sv_clients s1) (take 8 (auth_token req) @ ''...'') = Some c
             \<and> sv_client s1 c = \<lparr>cl_id = take 8 (auth_token req) @ ''...'', cl_session = i, cl_proxies = [],
                  cl_last_ping = fst now\<rparr>
             \<and> {d. sv_client s1 d \<noteq> sv_client s d}
                 \<subseteq> {c} \<union> set_option (map_of (sv_clients s) (take 8 (auth_token req) @ ''...'')))
       | _ \<Rightarrow> sv_clients s1 = sv_clients s \<and> sv_client s1 = sv_client s \<and> sv_proxies s1 = sv_proxies s
             \<and> sv_proxy s1 = sv_proxy s \<and> sv_stats s1 = sv_stats s)"
proof -
  obtain out s1 where au: "handle_auth mp hm now i s = Some (out, s1)" using handle_auth_returns by blast
  show ?thesis
  proof (cases rule: handle_auth_cases [OF au, case_names refused accepted])
    case (refused st a)
    with au show ?thesis
      by (intro exI [of _ out] exI [of _ s1]) (auto split: outcome.splits sum.splits)
  next
    case (accepted st req a s2 c msg st0)
    have "sv_auth s1 = a"
      using accepted(4,5) by (auto simp: register_client_def Let_def split: option.splits)
    moreover have "c = sv_next_client s" using register_client_fields(3) [OF accepted(5)] accepted(4) by simp
    moreover have "{d. sv_client s1 d \<noteq> sv_client s d}
        \<subseteq> {c} \<union> set_option (map_of (sv_clients s) (take 8 (auth_token req) @ ''...''))"
      using register_client_others [OF accepted(5)] accepted(4) by simp
    ultimately show ?thesis using au accepted(1-3,6-8) register_client_fields(1,2) [OF accepted(5)]
      by (intro exI [of _ out] exI [of _ s1]) auto
  qed
qed

text \<open>
  The end of a client: every proxy filed under the client is closed and no longer listens, exactly
  their ports are removed from the registry, the client's ID is removed, the client's own list is
  emptied, no other client is touched, and the counter of active proxies falls by their number.
\<close>
theorem cleanup_client_complete:
  "let ps = cl_proxies (sv_client s c); s1 = cleanup_client c s in
     list_all (\<lambda>(name, p). px_close_ch (sv_proxy s1 p) \<and> \<not> px_listening (sv_proxy s1 p)) ps
   \<and> dom (map_of (sv_proxies s1)) = dom (map_of (sv_proxies s)) - set (map (\<lambda>(name, p). px_port (sv_proxy s p)) ps)
   \<and> map_of (sv_clients s1) = (map_of (sv_clients s))(cl_id (sv_client s c) := None)
   \<and> sv_client s1 = (sv_client s)(c := (sv_client s c)\<lparr>cl_proxies := []\<rparr>)
   \<and> ActiveProxies (sv_stats s1) = ActiveProxies (sv_stats s) - word_of_nat (length ps)"
proof -
  let ?ps = "cl_proxies (sv_client s c)"
  have "list_all (\<lambda>(name, p). p \<in> set (map snd ?ps)) ?ps" by (force simp: list_all_iff)
  then have "list_all (\<lambda>(name, p). px_close_ch (sv_proxy (cleanup_client c s) p)
      \<and> \<not> px_listening (sv_proxy (cleanup_client c s) p)) ?ps"
    by (auto simp: list_all_iff cleanup_proxies_heap)
  then show ?thesis
    by (auto simp: Let_def cleanup_proxies_ports cleanup_proxies_active fun_eq_iff dom_def split: if_splits)
qed

text \<open>
  C12: \<open>handleNewProxy\<close> on a request it can decode: a port in use, or one the system does not let it
  listen on, changes nothing but the control stream; otherwise, if the answer can be sent, the port
  is registered to a fresh listening proxy of the client, counted and served by a goroutine; and if
  the answer cannot be sent, the ports, the counter and the goroutines are as before and the new proxy
  does not listen, but the name is deleted from the client's list: a proxy that was filed under the same
  name before is not restored there. In no case is the registry of clients or another client touched.
\<close>
theorem new_proxy_result:
  assumes "decode_payload (mp_new_proxy_request mp) msg = Inr req"
  shows "let port = npq_remote_port req; p = sv_next_proxy s; s1 = handle_new_proxy mp listen c i msg s in
     sv_clients s1 = sv_clients s \<and> (sv_client s1)(c := no_client) = (sv_client s)(c := no_client)
   \<and> (if map_of (sv_proxies s) port \<noteq> None \<or> listen port \<noteq> None then \<exists>st. s1 = set_stream i st s
     else if fst (srv_send mp i MsgTypeNewProxyResp (npr_success port) s) = None then
       map_of (sv_proxies s1) = (map_of (sv_proxies s))(port \<mapsto> p)
       \<and> sv_proxy s1 = (sv_proxy s)(p := \<lparr>px_name = npq_name req, px_port = port, px_listening = True,
            px_client = c, px_close_ch = False\<rparr>)
       \<and> map_of (cl_proxies (sv_client s1 c)) = (map_of (cl_proxies (sv_client s c)))(npq_name req \<mapsto> p)
       \<and> sv_stats s1 = IncActiveProxies (sv_stats s) \<and> sv_runners s1 = (p, i) # sv_runners s
     else
       map_of (sv_proxies s1) = map_of (sv_proxies s)
       \<and> (\<exists>px. sv_proxy s1 = (sv_proxy s)(p := px) \<and> \<not> px_listening px)
       \<and> map_of (cl_proxies (sv_client s1 c)) = (map_of (cl_proxies (sv_client s c)))(npq_name req := None)
       \<and> sv_stats s1 = sv_stats s \<and> sv_runners s1 = sv_runners s)"
proof -
  let ?port = "npq_remote_port req"
  consider "map_of (sv_proxies s) ?port \<noteq> None" | e where "map_of (sv_proxies s) ?port = None" "listen ?port = Some e"
    | "map_of (sv_proxies s) ?port = None" "listen ?port = None" by blast
  then show ?thesis
  proof cases
    case 1
    with assms srv_send_snd [of mp i MsgTypeNewProxyResp "npr_fail ''port already in use''" s]
    show ?thesis by (fastforce simp: handle_new_proxy_def np_check_def Let_def)
  next
    case 2
    with assms srv_send_snd [of mp i MsgTypeNewProxyResp "npr_fail (error_text e)" s]
    show ?thesis by (fastforce simp: handle_new_proxy_def np_check_def Let_def)
  next
    case 3
    obtain p s2 where st: "store_proxy c req s = (p, s2)" by fastforce
    note f = store_proxy_fields [OF st]
    obtain e s3 where snd: "srv_send mp i MsgTypeNewProxyResp (npr_success ?port) s2 = (e, s3)" by fastforce
    from srv_send_frame [OF snd] obtain x where s3: "s3 = set_stream i x s2" by blast
    have e: "fst (srv_send mp i MsgTypeNewProxyResp (npr_success ?port) s) = e"
      using srv_send_cong [of s i s2 mp MsgTypeNewProxyResp "npr_success ?port"] f(6) snd by simp
    have run: "handle_new_proxy mp listen c i msg s =
        (case e of Some err \<Rightarrow> unstore_proxy c p req s3 | None \<Rightarrow> s3\<lparr>sv_runners := (p, i) # sv_runners s3\<rparr>)"
      using 3 assms st snd by (simp add: handle_new_proxy_def np_check_def np_commit_def split: option.splits)
    have "(map_of (sv_proxies s))(?port := None) = map_of (sv_proxies s)" using 3 by (simp add: fun_upd_idem)
    with 3 e run f s3 show ?thesis
      by (cases e) (auto simp: unstore_fields Let_def fun_eq_iff)
  qed
qed

text \<open>What \<open>np_commit\<close> leaves, whether the answer could be sent or not.\<close>

lemma np_commit_fields:
  "cl_proxies (sv_client (np_commit mp c i req s) c) \<in>
     {AList.update (npq_name req) (sv_next_proxy s) (cl_proxies (sv_client s c)),
      AList.delete (npq_name req) (AList.update (npq_name req) (sv_next_proxy s) (cl_proxies (sv_client s c)))}"
  "px_port (sv_proxy (np_commit mp c i req s) q) =
     (if q = sv_next_proxy s then npq_remote_port req else px_port (sv_proxy s q))"
  "q \<noteq> sv_next_proxy s \<Longrightarrow> sv_proxy (np_commit mp c i req s) q = sv_proxy s q"
  "port \<noteq> npq_remote_port req \<Longrightarrow> map_of (sv_proxies (np_commit mp c i req s)) port = map_of (sv_proxies s) port"
proof -
  obtain p s1 where st: "store_proxy c req s = (p, s1)" by fastforce
  note f = store_proxy_fields [OF st]
  obtain e s2 where snd: "srv_send mp i MsgTypeNewProxyResp (npr_success (npq_remote_port req)) s1 = (e, s2)" by fastforce
  from srv_send_frame [OF snd] obtain x where s2: "s2 = set_stream i x s1" by blast
  have run: "np_commit mp c i req s =
      (case e of Some err \<Rightarrow> unstore_proxy c p req s2 | None \<Rightarrow> s2\<lparr>sv_runners := (p, i) # sv_runners s2\<rparr>)"
    using st snd by (simp add: np_commit_def split: option.splits)
  show "cl_proxies (sv_client (np_commit mp c i req s) c) \<in>
     {AList.update (npq_name req) (sv_next_proxy s) (cl_proxies (sv_client s c)),
      AList.delete (npq_name req) (AList.update (npq_name req) (sv_next_proxy s) (cl_proxies (sv_client s c)))}"
    by (cases e) (simp_all add: run s2 f unstore_fields)
  show "px_port (sv_proxy (np_commit mp c i req s) q) =
     (if q = sv_next_proxy s then npq_remote_port req else px_port (sv_proxy s q))"
    by (cases e) (simp_all add: run s2 f unstore_fields)
  show "q \<noteq> sv_next_proxy s \<Longrightarrow> sv_proxy (np_commit mp c i req s) q = sv_proxy s q"
    by (cases e) (simp_all add: run s2 f unstore_fields)
  show "port \<noteq> npq_remote_port req \<Longrightarrow> map_of (sv_proxies (np_commit mp c i req s)) port = map_of (sv_proxies s) port"
    by (cases e) (simp_all add: run s2 f unstore_fields)
qed

theorem new_proxy_result_witness:
  "let msg = \<lparr>msg_type = MsgTypeNewProxy, msg_payload = sample_payload (PNewProxyRequest
         \<lparr>npq_name = ''api'', npq_type = ''tcp'', npq_remote_port = 9000\<rparr>)\<rparr>;
       s1 = handle_new_proxy sample_msgpack (\<lambda>_. None) 0 0 msg sample_server
   in map_of (sv_proxies s1) 9000 = Some 1 \<and> px_listening (sv_proxy s1 1) \<and> sv_runners s1 = [(1, 0), (0, 0)]"
proof -
  let ?req = "\<lparr>npq_name = ''api'', npq_type = ''tcp'', npq_remote_port = 9000\<rparr>"
  let ?msg = "\<lparr>msg_type = MsgTypeNewProxy, msg_payload = sample_payload (PNewProxyRequest ?req)\<rparr>"
  have dec: "decode_payload (mp_new_proxy_request sample_msgpack) ?msg = Inr ?req"
    unfolding decode_payload_def message.select_convs by (rule sample_new_proxy_request) simp_all
  have "fst (srv_send sample_msgpack 0 MsgTypeNewProxyResp (npr_success 9000) sample_server) = None"
    using srv_send_up [OF sample_server_up [of 0] sample_success_sendable(2)] by auto
  with new_proxy_result [OF dec, where listen = "\<lambda>_. None" and c = 0 and i = 0 and s = sample_server] show ?thesis
    by (simp add: Let_def sample_server_def)
qed

text \<open>
  C37: The counter of active proxies drifts: a client that registers \<open>k\<close> proxies raises it by
  \<open>k\<close>, but when the client is cleaned up and the accept loops end (which they then do) it falls by
  \<open>2 k\<close>, because the cleanup and the deferred function of each accept loop both count the proxy
  out. Each disconnected client leaves the counter lower by the number of its proxies, below zero.
\<close>
theorem proxy_counter_drifts:
  assumes "stream_up i s" and "list_all (\<lambda>req. sendable mp (MsgTypeNewProxyResp, npr_success (npq_remote_port req))) reqs"
    and "distinct (map npq_name reqs)" and "cl_proxies (sv_client s c) = []"
  shows "let s1 = register_all mp c i reqs s; ps = map snd (cl_proxies (sv_client s1 c)); s2 = cleanup_client c s1;
      s3 = fold run_proxy_exit ps s2
    in ActiveProxies (sv_stats s1) = ActiveProxies (sv_stats s) + word_of_nat (length reqs)
     \<and> list_all (\<lambda>p. run_proxy_iter p (AcceptError e) s2 = Some ()) ps
     \<and> ActiveProxies (sv_stats s3) = ActiveProxies (sv_stats s) - word_of_nat (length reqs)"
proof -
  from register_all_counts [OF assms(1-3), of c] assms(4) show ?thesis
    by (simp add: Let_def exits_active cleanup_proxies_active list_all_iff run_proxy_iter_def cleanup_proxies_heap)
qed

theorem proxy_counter_drifts_witness:
  "let reqs = [\<lparr>npq_name = ''api'', npq_type = ''tcp'', npq_remote_port = 9000\<rparr>];
       s1 = register_all sample_msgpack 1 0 reqs sample_server; ps = map snd (cl_proxies (sv_client s1 1));
       s3 = fold run_proxy_exit ps (cleanup_client 1 s1)
   in sint (ActiveProxies (sv_stats s3)) = -1"
proof -
  let ?req = "\<lparr>npq_name = ''api'', npq_type = ''tcp'', npq_remote_port = 9000\<rparr>"
  have "list_all (\<lambda>req. sendable sample_msgpack (MsgTypeNewProxyResp, npr_success (npq_remote_port req))) [?req]"
    using sample_success_sendable(2) by simp
  from proxy_counter_drifts [OF sample_server_up this, of 1] show ?thesis
    by (simp add: Let_def) (simp add: sample_server_def no_client_def initial_stats_def)
qed

text \<open>
  C19: A reconnecting client ends up half registered: its old connection is cleaned up and the new one
  stored under the same ID, its proxy registered again on the same port; but then the accept loop of
  the old proxy ends and takes the port out of the registry, and the old connection's handler ends
  and takes the ID out, while the new client is connected and its proxy listens. The port counts as
  free again, and the next reconnect finds no old client to clean up.
\<close>
theorem reconnect_loses_registration:
  assumes "map_of (sv_clients s) cid = Some c1" and "cl_id (sv_client s c1) = cid"
    and "map_of (cl_proxies (sv_client s c1)) name = Some p1" and "px_port (sv_proxy s p1) = port"
    and "c1 < sv_next_client s" and "p1 < sv_next_proxy s" and "(p1, i1) \<in> set (sv_runners s)"
    and "register_client cid i2 now s = (c2, s1)"
    and "stream_up i2 s1" and "npq_name req = name" and "npq_remote_port req = port"
    and "sendable mp (MsgTypeNewProxyResp, npr_success port)"
  shows "map_of (sv_proxies s1) port = None
    \<and> (\<exists>p2 s2 s3 s4. s2 = np_commit mp c2 i2 req s1 \<and> s3 = run_proxy_exit p1 s2 \<and> s4 = conn_finished c1 i1 s3
        \<and> run_proxy_iter p1 (AcceptError e) s2 = Some () \<and> (p1, i1) \<in> set (sv_runners s2)
        \<and> map_of (sv_proxies s2) port = Some p2 \<and> map_of (sv_clients s2) cid = Some c2
        \<and> map_of (sv_proxies s4) port = None \<and> map_of (sv_clients s4) cid = None
        \<and> px_listening (sv_proxy s4 p2) \<and> \<not> px_close_ch (sv_proxy s4 p2) \<and> px_port (sv_proxy s4 p2) = port
        \<and> map_of (cl_proxies (sv_client s4 c2)) name = Some p2 \<and> (p2, i2) \<in> set (sv_runners s4))"
proof -
  have s1: "sv_proxies s1 = sv_proxies (cleanup_proxies (cl_proxies (sv_client s c1)) s)"
    "sv_proxy s1 = sv_proxy (cleanup_proxies (cl_proxies (sv_client s c1)) s)"
    "sv_next_proxy s1 = sv_next_proxy s" "sv_runners s1 = sv_runners s" "c2 = sv_next_client s"
    "sv_client s1 c1 = (sv_client s c1)\<lparr>cl_proxies := []\<rparr>" "map_of (sv_clients s1) cid = Some c2"
    using assms(1,5,8) by (auto simp: register_client_def Let_def)
  have owned: "(name, p1) \<in> set (cl_proxies (sv_client s c1))" using assms(3) by (rule map_of_SomeD)
  then have mem: "port \<in> set (map (\<lambda>(n, p). px_port (sv_proxy s p)) (cl_proxies (sv_client s c1)))"
    "p1 \<in> set (map snd (cl_proxies (sv_client s c1)))" using assms(4) by force+
  have free: "map_of (sv_proxies s1) port = None" using mem(1) by (simp add: s1(1) cleanup_proxies_ports)
  have p1: "px_close_ch (sv_proxy s1 p1)" "px_port (sv_proxy s1 p1) = port"
    using mem(2) assms(4) by (simp_all only: s1(2) cleanup_proxies_heap if_True) simp_all
  obtain p2 t1 where st: "store_proxy c2 req s1 = (p2, t1)" by fastforce
  note f = store_proxy_fields [OF st]
  have "sendable mp (MsgTypeNewProxyResp, npr_success (npq_remote_port req))" using assms(11,12) by simp
  from np_commit_up [OF assms(9) this st] obtain x where
    s2: "np_commit mp c2 i2 req s1 = (set_stream i2 x t1)\<lparr>sv_runners := (p2, i2) # sv_runners s1\<rparr>" by blast
  have ne: "p1 \<noteq> p2" "c1 \<noteq> c2" using assms(5,6) s1(3,5) f(1) by auto
  let ?s2 = "np_commit mp c2 i2 req s1"
  let ?s3 = "run_proxy_exit p1 ?s2"
  let ?s4 = "conn_finished c1 i1 ?s3"
  have s3: "sv_proxies ?s3 = AList.delete port (sv_proxies ?s2)" "sv_clients ?s3 = sv_clients s1"
    "sv_client ?s3 = sv_client t1" "sv_runners ?s3 = AList.delete p1 (sv_runners ?s2)"
    "sv_proxy ?s3 p2 = sv_proxy t1 p2"
    using ne p1(2) by (simp_all add: run_proxy_exit_def Let_def s2 f(3,11))
  have c1: "sv_client ?s3 c1 = (sv_client s c1)\<lparr>cl_proxies := []\<rparr>" using s3(3) f(12) ne(2) s1(6) by simp
  then have s4: "sv_proxies ?s4 = sv_proxies ?s3" "sv_proxy ?s4 = sv_proxy ?s3"
    "sv_clients ?s4 = AList.delete cid (sv_clients ?s3)" "sv_client ?s4 c2 = sv_client ?s3 c2"
    "sv_runners ?s4 = sv_runners ?s3"
    using ne(2) assms(2) by (simp_all add: conn_finished_def conn_done_def Let_def)
  have "(p2, i2) \<in> set (AList.delete p1 (sv_runners ?s2))" using ne(1) by (intro delete_keeps_other) (simp_all add: s2)
  moreover have "run_proxy_iter p1 (AcceptError e) ?s2 = Some ()"
    using p1(1) ne(1) by (simp add: run_proxy_iter_def s2 f(11))
  moreover have "(p1, i1) \<in> set (sv_runners ?s2)" using assms(7) by (simp add: s2 s1(4))
  moreover have "map_of (sv_proxies ?s2) port = Some p2" "map_of (sv_clients ?s2) cid = Some c2"
    using assms(11) s1(7) by (simp_all add: s2 f(3,10))
  moreover have "map_of (sv_proxies ?s4) port = None" "map_of (sv_clients ?s4) cid = None"
    by (simp_all add: s4 s3)
  moreover have "px_listening (sv_proxy ?s4 p2)" "\<not> px_close_ch (sv_proxy ?s4 p2)" "px_port (sv_proxy ?s4 p2) = port"
    using assms(11) by (simp_all add: s4 s3 f(11))
  moreover have "map_of (cl_proxies (sv_client ?s4 c2)) name = Some p2"
    using assms(10) by (simp add: s4 s3 f(12))
  ultimately show ?thesis using free s4(5) s3(4) by (intro conjI exI [of _ p2] exI [of _ ?s2] exI [of _ ?s3]
        exI [of _ ?s4]) simp_all
qed

theorem reconnect_loses_registration_witness:
  "let req = \<lparr>npq_name = ''web'', npq_type = ''tcp'', npq_remote_port = 8080\<rparr>;
       (c2, s1) = register_client ''secret-t...'' 1 5 sample_server;
       s4 = conn_finished 0 0 (run_proxy_exit 0 (np_commit sample_msgpack c2 1 req s1))
   in map_of (sv_proxies s4) 8080 = None \<and> map_of (sv_clients s4) ''secret-t...'' = None
    \<and> (\<exists>p2. px_listening (sv_proxy s4 p2) \<and> px_port (sv_proxy s4 p2) = 8080)"
proof -
  obtain c2 s1 where reg: "register_client ''secret-t...'' 1 5 sample_server = (c2, s1)" by fastforce
  let ?req = "\<lparr>npq_name = ''web'', npq_type = ''tcp'', npq_remote_port = 8080\<rparr>"
  let ?s4 = "\<lambda>c2 s1. conn_finished 0 0 (run_proxy_exit 0 (np_commit sample_msgpack c2 1 ?req s1))"
  have "sv_streams s1 1 = sv_streams sample_server 1"
    using register_client_streams [OF reg, of 1] by (simp add: sample_server_def)
  with sample_server_up [of 1] have up: "stream_up 1 s1" by (simp add: stream_up_def conn_up_def)
  from reconnect_loses_registration [of sample_server "''secret-t...''" 0 "''web''" 0 8080 0 1 5 c2 s1 ?req
      sample_msgpack undefined, OF _ _ _ _ _ _ _ reg up] sample_success_sendable(1)
  have "\<exists>p2. map_of (sv_proxies (?s4 c2 s1)) 8080 = None \<and> map_of (sv_clients (?s4 c2 s1)) ''secret-t...'' = None
    \<and> px_listening (sv_proxy (?s4 c2 s1) p2) \<and> px_port (sv_proxy (?s4 c2 s1) p2) = 8080"
    by (auto simp: sample_server_def)
  then show ?thesis unfolding reg Let_def prod.case by blast
qed

text \<open>
  A client that registers a second proxy under a name it has used, on another port, loses hold of the
  first: whether the second registration succeeds or is rolled back, after the client is gone the
  first proxy still listens, its channel is open and its port stays registered.
\<close>
theorem same_name_leaks_first_proxy:
  assumes "owned_ok s" and "map_of (cl_proxies (sv_client s c)) (npq_name req) = Some p1"
    and "list_all (\<lambda>(name, p). name = npq_name req \<or> px_port (sv_proxy s p) \<noteq> port) (cl_proxies (sv_client s c))"
    and "map_of (sv_proxies s) port = Some p1" and "px_listening (sv_proxy s p1)" and "\<not> px_close_ch (sv_proxy s p1)"
    and "npq_remote_port req \<noteq> port"
  shows "let s1 = cleanup_client c (np_commit mp c i req s) in
     px_listening (sv_proxy s1 p1) \<and> \<not> px_close_ch (sv_proxy s1 p1) \<and> map_of (sv_proxies s1) port = Some p1"
proof -
  let ?name = "npq_name req" and ?L = "cl_proxies (sv_client s c)" and ?t = "np_commit mp c i req s"
  let ?L' = "cl_proxies (sv_client ?t c)"
  obtain p2 where p2: "p2 = sv_next_proxy s" by blast
  from assms(1,2) have p1: "p1 < sv_next_proxy s" "px_name (sv_proxy s p1) = ?name" by (auto simp: owned_ok_def)
  note f = np_commit_fields [where mp = mp and c = c and i = i and req = req and s = s]
  have old: "(n = ?name \<and> q = p2) \<or> (n \<noteq> ?name \<and> map_of ?L n = Some q)" if "(n, q) \<in> set ?L'" for n q
  proof -
    from assms(1) f(1) have "distinct (map fst ?L')" by (auto simp: owned_ok_def)
    with that have "map_of ?L' n = Some q" by simp
    with f(1) show ?thesis by (auto simp: p2 split: if_splits)
  qed
  have "p1 \<notin> set (map snd ?L')"
  proof
    assume "p1 \<in> set (map snd ?L')"
    then obtain n where "(n, p1) \<in> set ?L'" by auto
    from old [OF this] p1 p2 have "n \<noteq> ?name" "map_of ?L n = Some p1" by auto
    with assms(1) p1(2) show False by (auto simp: owned_ok_def)
  qed
  moreover have "port \<notin> set (map (\<lambda>(n, p). px_port (sv_proxy ?t p)) ?L')"
  proof
    assume "port \<in> set (map (\<lambda>(n, p). px_port (sv_proxy ?t p)) ?L')"
    then obtain n q where q: "(n, q) \<in> set ?L'" "px_port (sv_proxy ?t q) = port" by auto
    from q(2) f(2) assms(7) have "q \<noteq> p2" "px_port (sv_proxy s q) = port" by (auto simp: p2 split: if_splits)
    with old [OF q(1)] have "n \<noteq> ?name" "(n, q) \<in> set ?L" by (auto dest: map_of_SomeD)
    with assms(3) \<open>px_port (sv_proxy s q) = port\<close> show False by (auto simp: list_all_iff)
  qed
  moreover have "sv_proxy ?t p1 = sv_proxy s p1" using f(3) p1(1) by simp
  moreover have "map_of (sv_proxies ?t) port = Some p1" using f(4) assms(4,7) by simp
  ultimately show ?thesis using assms(5,6) by (simp add: Let_def cleanup_proxies_heap cleanup_proxies_ports)
qed

theorem same_name_leaks_first_proxy_witness:
  "let req = \<lparr>npq_name = ''web'', npq_type = ''tcp'', npq_remote_port = 9000\<rparr>;
       s1 = cleanup_client 0 (np_commit sample_msgpack 0 0 req sample_server)
   in px_listening (sv_proxy s1 0) \<and> map_of (sv_proxies s1) 8080 = Some 0"
proof -
  have "owned_ok sample_server" by (simp add: owned_ok_def sample_server_def no_client_def)
  from same_name_leaks_first_proxy [OF this, of 0 "\<lparr>npq_name = ''web'', npq_type = ''tcp'', npq_remote_port = 9000\<rparr>"
      0 8080 sample_msgpack 0] show ?thesis
    by (simp add: Let_def) (simp add: sample_server_def)
qed

text \<open>
  A configured token shorter than eight characters is accepted and then crashes the handler: the
  positive answer is sent, the slice of the token's first eight characters panics, and the recovery
  leaves no client registered, nothing counted and the session open. With such a token a wrong
  signature panics before any answer.
\<close>
theorem short_token_panics:
  assumes "stream_up i s" and "fits mp m" and "live_avail (sv_streams s i) = msg_frame mp m @ rest"
    and "msg_type m = MsgTypeAuth" and "decode_payload (mp_auth_request mp) m = Inr req"
    and "length (auth_token req) < 8"
    and "verify hm now (sv_auth s) (auth_token req) (format_int (sint (auth_ts req))) (auth_nonce req)
        (auth_sign req) = (ok, au)"
    and "sendable mp (MsgTypeAuthResp, PAuthResponse \<lparr>authr_ok = True, authr_message = []\<rparr>)"
  shows "\<exists>s1. handle_connection mp hm listen now now' i s = Some s1 \<and> \<not> closed (sv_streams s1 i)
    \<and> sent (cout (sv_streams s1 i)) = sent (cout (sv_streams s i))
        @ (if ok then msg_frame mp (msg_of mp (MsgTypeAuthResp, PAuthResponse \<lparr>authr_ok = True, authr_message = []\<rparr>))
           else [])
    \<and> sv_clients s1 = sv_clients s \<and> sv_stats s1 = sv_stats s"
proof -
  from srv_recv_frame_up [OF assms(1-3)] obtain st where
    rc: "srv_recv mp i s = Some (Inr m, set_stream i st s)" and
    st: "no_faults st" "\<not> closed st" "cout st = cout (sv_streams s i)" by blast
  let ?s2 = "(set_stream i st s)\<lparr>sv_auth := au\<rparr>"
  have "stream_up i ?s2" using st by (simp add: stream_up_def conn_up_def)
  from srv_send_up [OF this assms(8)] obtain st2 where
    "srv_send mp i MsgTypeAuthResp (PAuthResponse \<lparr>authr_ok = True, authr_message = []\<rparr>) ?s2
       = (None, set_stream i st2 ?s2)" "\<not> closed st2"
    "sent (cout st2) = sent (cout (sv_streams s i))
       @ msg_frame mp (msg_of mp (MsgTypeAuthResp, PAuthResponse \<lparr>authr_ok = True, authr_message = []\<rparr>))"
    using st(3) by auto
  with assms(4-7) rc st show ?thesis
    by (cases ok) (simp_all add: handle_connection_def handle_session_def handle_auth_def slice_panic_def conn_done_def Let_def)
qed

theorem short_token_panics_witness:
  "let s = sample_server\<lparr>sv_auth := new_authenticator [''short''],
         sv_streams := \<lambda>_. idle_conn [msg_frame sample_msgpack (sample_auth_message ''short'')]\<rparr>
   in \<exists>s1. handle_connection sample_msgpack sample_mac (\<lambda>_. None) (5000 * second, 5000 * second) (0, 0) 7 s = Some s1
     \<and> sent (cout (sv_streams s1 7)) \<noteq> [] \<and> \<not> closed (sv_streams s1 7)"
proof -
  let ?m = "sample_auth_message ''short''"
  let ?s = "sample_server\<lparr>sv_auth := new_authenticator [''short''],
         sv_streams := \<lambda>_. idle_conn [msg_frame sample_msgpack ?m]\<rparr>"
  have up: "stream_up 7 ?s" by (simp add: stream_up_def conn_up_def) (simp add: idle_conn_def)
  have av: "live_avail (sv_streams ?s 7) = msg_frame sample_msgpack ?m @ []"
    by (simp add: live_avail_def) (simp add: idle_conn_def)
  have "sv_auth ?s = new_authenticator [''short'']" by simp
  from sample_auth_verify [OF this] obtain au where
    ver: "verify sample_mac (5000 * second, 5000 * second) (sv_auth ?s) (auth_token (sample_request ''short''))
    (format_int (sint (auth_ts (sample_request ''short'')))) (auth_nonce (sample_request ''short''))
    (auth_sign (sample_request ''short'')) = (True, au)" by blast
  from short_token_panics [OF up sample_auth_fits av _ sample_auth_decode _ ver sample_auth_ok_sendable,
      where listen = "\<lambda>_. None" and now' = "(0, 0)"] show ?thesis
    by (auto simp: Let_def msg_frame_def frame_def length_prefix_def put_uint32_def sample_auth_message_def
        sample_request_def)
qed

text \<open>
  \<open>Stop\<close> closes every registered proxy, so that its accept loop ends at the next error, and the listener,
  so that the accept loop of the server ends at its next \<open>Accept\<close>, whatever the network has for it; but
  it closes no session: every client stays registered with its control stream open, and \<open>Stop\<close> waits for
  their handlers as long as the clients stay connected. A second \<open>Stop\<close> panics.
\<close>

lemma stop_closes_listener:
  assumes "sv_stopped s" and "\<not> sv_listening s"
  shows "accept_loop ((\<lambda>s. s, offer) # as) s = (Some (), [], s)"
  using assms by (simp add: start_iter_def listener_accept_def)

lemma stop_leaves_sessions_open:
  "case server_stop s of
     Panic m \<Rightarrow> sv_stopped s \<and> m = ''close of closed channel''
   | Done s1 \<Rightarrow>
       \<not> sv_stopped s \<and> sv_stopped s1 \<and> \<not> sv_listening s1
       \<and> list_all (\<lambda>(port, p). \<not> px_listening (sv_proxy s1 p) \<and> run_proxy_iter p (AcceptError e) s1 = Some ()) (sv_proxies s)
       \<and> sv_clients s1 = sv_clients s \<and> sv_client s1 = sv_client s \<and> sv_streams s1 = sv_streams s
       \<and> sv_wg s1 = sv_wg s \<and> server_stop s1 = Panic ''close of closed channel''"
proof (cases "sv_stopped s")
  case True
  then show ?thesis by (simp add: server_stop_def)
next
  case False
  have "list_all (\<lambda>(port, p). p \<in> snd ` set (sv_proxies s)) (sv_proxies s)" by (force simp: list_all_iff)
  with False show ?thesis
    by (auto simp: server_stop_def Let_def run_proxy_iter_def close_all_heap list_all_iff)
qed

end
