(* ===== verification/Client.thy ===== *)
theory Client
  imports Streams Auth Config Crypto Transport Mux
begin

text \<open>
  internal/client: the client's state, its connection attempt with authentication and registration,
  the control loop, the user connections, the keepalive and the reconnect loop. The control stream
  is passed explicitly where the code has set \<open>c.ctrlStream\<close>; goroutines the code starts are
  recorded in the state. Dialling, the multiplexed session, the local dial and the clock are arguments.
\<close>

section \<open>State (client.go, Client)\<close>

record session =
  ss_id :: nat
  ss_closed :: bool

text \<open>
  \<open>ct_pong_ch\<close> says whether the one-place pong channel is full, \<open>ct_wg\<close> counts the goroutines
  of the wait group and \<open>ct_spawned\<close> lists the requests \<open>handleNewConn\<close> was started with.
\<close>

record tunnel_client =
  ct_config :: client_config
  ct_session :: "session option"
  ct_ctrl :: "conn option"
  ct_proxies :: "(string \<times> expanded_proxy) list"
  ct_close_ch :: bool
  ct_reconnect :: bool
  ct_pong_ch :: bool
  ct_conn_close_ch :: bool
  ct_mtmux_cancel :: bool
  ct_wg :: int
  ct_spawned :: "new_conn_request list"

section \<open>Creation (New)\<close>

fun expand_all ::
  "proxy_config list \<Rightarrow> (string \<times> expanded_proxy) list \<Rightarrow> (string \<times> expanded_proxy) list result outcome" where
  "expand_all [] proxies = Done (Inr proxies)"
| "expand_all (p # ps) proxies =
     (case expand p of
        Panic m \<Rightarrow> Panic m
      | Done (Inl e) \<Rightarrow> Done (Inl e)
      | Done (Inr expanded) \<Rightarrow> expand_all ps (fold (\<lambda>ep. AList.update (ep_name ep) ep) expanded proxies))"

definition client_layers :: "client_config \<Rightarrow> 'cert transport \<times> 'cert crypto" where
  "client_layers cfg =
     (if cc_transport cfg = ''quic'' then
        (transport_new_with_quic ''quic''
           (Some \<lparr>qc_tls_config = None, qc_insecure_skip_verify = cc_quic_skip_verify cfg, qc_dial_timeout = 0\<rparr>),
         crypto_new ''none'' None)
      else
        (transport_new (cc_transport cfg),
         crypto_new (cc_crypto cfg)
           (Some \<lparr>cc_cert_file = [], cc_key_file = [], cc_ca_cert = cc_tls_ca_cert cfg,
                  cc_skip_verify = cc_tls_skip_verify cfg, cc_psk = cc_chacha20_psk cfg\<rparr>)))"

definition fresh_client :: "client_config \<Rightarrow> (string \<times> expanded_proxy) list \<Rightarrow> tunnel_client" where
  "fresh_client cfg proxies =
     \<lparr>ct_config = cfg, ct_session = None, ct_ctrl = None, ct_proxies = proxies, ct_close_ch = False,
      ct_reconnect = True, ct_pong_ch = False, ct_conn_close_ch = False, ct_mtmux_cancel = False,
      ct_wg = 0, ct_spawned = []\<rparr>"

definition new_client ::
  "client_config \<Rightarrow> (tunnel_client \<times> 'cert transport \<times> 'cert crypto) result outcome" where
  "new_client cfg =
     (case expand_all (cc_proxies cfg) [] of
        Panic m \<Rightarrow> Panic m
      | Done (Inl e) \<Rightarrow> Done (Inl e)
      | Done (Inr proxies) \<Rightarrow> Done (Inr (fresh_client cfg proxies, client_layers cfg)))"

section \<open>Errors\<close>

definition client_auth_error :: "string \<Rightarrow> go_error" where
  "client_auth_error msg = ErrText (''authentication failed: '' @ msg)"

definition proxy_error :: "string \<Rightarrow> string \<Rightarrow> go_error" where
  "proxy_error name msg = ErrText (''proxy '' @ name @ '' failed: '' @ msg)"

section \<open>Authentication (authenticate)\<close>

text \<open>The request, the send and the reading of the answer; the server acts between the two.\<close>

definition client_auth_request :: "(bytes \<Rightarrow> bytes \<Rightarrow> bytes) \<Rightarrow> int \<Rightarrow> bytes \<Rightarrow> string \<Rightarrow> auth_request" where
  "client_auth_request hm now rnd token =
     (let ts = unix now; nonce = generate_nonce rnd; sg = sign hm token (format_int (sint ts)) nonce
      in \<lparr>auth_token = token, auth_ts = ts, auth_nonce = nonce, auth_sign = sg, auth_version = ''1.0.0''\<rparr>)"

definition auth_send ::
  "msgpack \<Rightarrow> (bytes \<Rightarrow> bytes \<Rightarrow> bytes) \<Rightarrow> int \<Rightarrow> bytes \<Rightarrow> string \<Rightarrow> conn \<Rightarrow> go_error option \<times> conn" where
  "auth_send mp hm now rnd token st =
     send_message mp live_write MsgTypeAuth (PAuthRequest (client_auth_request hm now rnd token)) st"

definition auth_recv :: "msgpack \<Rightarrow> conn \<Rightarrow> (go_error option \<times> conn) option" where
  "auth_recv mp st =
     (case recv_message mp live_read st of
        None \<Rightarrow> None
      | Some (Inl e, st1) \<Rightarrow> Some (Some e, st1)
      | Some (Inr msg, st1) \<Rightarrow>
          if msg_type msg \<noteq> MsgTypeAuthResp then Some (Some (client_auth_error ''invalid response type''), st1)
          else
            (case decode_payload (mp_auth_response mp) msg of
               Inl e \<Rightarrow> Some (Some e, st1)
             | Inr resp \<Rightarrow>
                 if \<not> authr_ok resp then Some (Some (client_auth_error (authr_message resp)), st1)
                 else Some (None, st1)))"

definition authenticate ::
  "msgpack \<Rightarrow> (bytes \<Rightarrow> bytes \<Rightarrow> bytes) \<Rightarrow> int \<Rightarrow> bytes \<Rightarrow> string \<Rightarrow> conn \<Rightarrow> (go_error option \<times> conn) option" where
  "authenticate mp hm now rnd token st =
     (case auth_send mp hm now rnd token st of
        (Some e, st1) \<Rightarrow> Some (Some e, st1)
      | (None, st1) \<Rightarrow> auth_recv mp st1)"

section \<open>Registration (registerProxy)\<close>

definition reg_send :: "msgpack \<Rightarrow> expanded_proxy \<Rightarrow> conn \<Rightarrow> go_error option \<times> conn" where
  "reg_send mp px st =
     send_message mp live_write MsgTypeNewProxy
       (PNewProxyRequest \<lparr>npq_name = ep_name px, npq_type = ep_type px, npq_remote_port = ep_remote_port px\<rparr>) st"

definition reg_answer :: "msgpack \<Rightarrow> expanded_proxy \<Rightarrow> message \<Rightarrow> go_error option" where
  "reg_answer mp px msg =
     (if msg_type msg \<noteq> MsgTypeNewProxyResp then Some (proxy_error (ep_name px) ''invalid response type'')
      else
        (case decode_payload (mp_new_proxy_response mp) msg of
           Inl e \<Rightarrow> Some e
         | Inr resp \<Rightarrow> if \<not> npr_ok resp then Some (proxy_error (ep_name px) (npr_message resp)) else None))"

definition reg_recv :: "msgpack \<Rightarrow> expanded_proxy \<Rightarrow> conn \<Rightarrow> (go_error option \<times> conn) option" where
  "reg_recv mp px st =
     (case recv_message mp live_read st of
        None \<Rightarrow> None
      | Some (Inl e, st1) \<Rightarrow> Some (Some e, st1)
      | Some (Inr msg, st1) \<Rightarrow> Some (reg_answer mp px msg, st1))"

definition register_proxy :: "msgpack \<Rightarrow> expanded_proxy \<Rightarrow> conn \<Rightarrow> (go_error option \<times> conn) option" where
  "register_proxy mp px st =
     (case reg_send mp px st of
        (Some e, st1) \<Rightarrow> Some (Some e, st1)
      | (None, st1) \<Rightarrow> reg_recv mp px st1)"

text \<open>The registration loop of \<open>connect\<close>, over the proxies in the order the map yields them.\<close>

fun register_proxies :: "msgpack \<Rightarrow> expanded_proxy list \<Rightarrow> conn \<Rightarrow> (go_error option list \<times> conn) option" where
  "register_proxies mp [] st = Some ([], st)"
| "register_proxies mp (px # pxs) st =
     (case register_proxy mp px st of
        None \<Rightarrow> None
      | Some (err, st1) \<Rightarrow>
          (case register_proxies mp pxs st1 of None \<Rightarrow> None | Some (errs, st2) \<Rightarrow> Some (err # errs, st2)))"

section \<open>Control stream (handleControlStream)\<close>

definition dispatch :: "msgpack \<Rightarrow> message \<Rightarrow> tunnel_client \<Rightarrow> tunnel_client" where
  "dispatch mp msg c =
     (if msg_type msg = MsgTypeNewConn then
        (case decode_payload (mp_new_conn_request mp) msg of
           Inl e \<Rightarrow> c
         | Inr req \<Rightarrow> c\<lparr>ct_wg := ct_wg c + 1, ct_spawned := ct_spawned c @ [req]\<rparr>)
      else if msg_type msg = MsgTypePong then
        (if ct_pong_ch c then c else c\<lparr>ct_pong_ch := True\<rparr>)
      else c)"

definition client_control_iter ::
  "msgpack \<Rightarrow> conn \<times> tunnel_client \<Rightarrow> (unit option \<times> conn \<times> tunnel_client) option" where
  "client_control_iter mp x =
     (case recv_message mp live_read (fst x) of
        None \<Rightarrow> None
      | Some (Inl e, st) \<Rightarrow> Some (Some (), st, snd x)
      | Some (Inr msg, st) \<Rightarrow> Some (None, st, dispatch mp msg (snd x)))"

definition client_control_stream ::
  "msgpack \<Rightarrow> conn \<times> tunnel_client \<Rightarrow> (unit \<times> conn \<times> tunnel_client) option" where
  "client_control_stream mp x = go_loop (client_control_iter mp) x"

section \<open>User connections (handleNewConn)\<close>

text \<open>
  The data stream is opened before anything else, and the deferred calls close what was opened.
  The result says which streams and local connections were closed, in order, and whether the two were
  joined.
\<close>

datatype 'd nc_event = NcOpened 'd | NcDialled string | NcJoined | NcClosedLocal | NcClosedStream 'd

definition handle_new_conn ::
  "'d result \<Rightarrow> (string \<Rightarrow> 'l result) \<Rightarrow> new_conn_request \<Rightarrow> tunnel_client \<Rightarrow> 'd nc_event list \<times> tunnel_client" where
  "handle_new_conn opened dial req c =
     (let c1 = c\<lparr>ct_wg := ct_wg c - 1\<rparr> in
      case opened of
        Inl e \<Rightarrow> ([], c1)
      | Inr st \<Rightarrow>
          (case map_of (ct_proxies c) (ncq_proxy_name req) of
             None \<Rightarrow> ([NcOpened st, NcClosedStream st], c1)
           | Some px \<Rightarrow>
               (let addr = get_local_address px in
                case dial addr of
                  Inl e \<Rightarrow> ([NcOpened st, NcDialled addr, NcClosedStream st], c1)
                | Inr l \<Rightarrow>
                    ([NcOpened st, NcDialled addr, NcJoined, NcClosedLocal, NcClosedStream st], c1))))"

section \<open>Sessions and Stop\<close>

text \<open>Closing a session ends its streams.\<close>

definition close_sess :: "tunnel_client \<Rightarrow> tunnel_client" where
  "close_sess c =
     (case ct_session c of
        None \<Rightarrow> c
      | Some ss \<Rightarrow> c\<lparr>ct_session := Some (ss\<lparr>ss_closed := True\<rparr>), ct_ctrl := map_option conn_close (ct_ctrl c)\<rparr>)"

definition close_ctrl :: "tunnel_client \<Rightarrow> tunnel_client" where
  "close_ctrl c = c\<lparr>ct_ctrl := map_option conn_close (ct_ctrl c)\<rparr>"

text \<open>\<open>Stop\<close> up to its wait for the goroutines.\<close>

definition client_stop :: "tunnel_client \<Rightarrow> tunnel_client outcome" where
  "client_stop c =
     (let c1 = c\<lparr>ct_reconnect := False\<rparr> in
      if ct_close_ch c1 then Panic ''close of closed channel''
      else Done (close_sess (c1\<lparr>ct_close_ch := True\<rparr>)))"

text \<open>
  Its wait, over what the other goroutines do meanwhile: it returns as soon as the counter is zero;
  \<open>None\<close> is that it still waits.
\<close>

fun client_wait :: "(tunnel_client \<Rightarrow> tunnel_client) list \<Rightarrow> tunnel_client \<Rightarrow> tunnel_client option" where
  "client_wait [] c = (if ct_wg c \<le> 0 then Some c else None)"
| "client_wait (others # os) c = (if ct_wg c \<le> 0 then Some c else client_wait os (others c))"

definition trigger_reconnect :: "tunnel_client \<Rightarrow> tunnel_client" where
  "trigger_reconnect c = close_ctrl (close_sess c)"

section \<open>Keepalive\<close>

text \<open>
  One round: the ticker fires, a ping is sent, and the goroutine waits for the pong, the timeout or
  one of the close channels; \<open>ping_reply\<close> is what it meets (\<open>IdleClosed\<close> is a close channel that
  is ready before the ticker fires, and then no ping is sent). A round gives the end of the goroutine,
  if it ends, and the seconds it waited for the answer. The ticker runs on during the wait, which is
  shorter than its period, so a round starts every \<open>ping_interval\<close> seconds.
\<close>

definition ping_interval :: int where "ping_interval = 15"
definition pong_timeout :: int where "pong_timeout = 10"
definition max_pong_miss :: nat where "max_pong_miss = 3"

datatype ka_result = KaReconnect | KaStopped
datatype ping_reply = PongReceived | PongTimeout | ConnClosed | ClientClosed | IdleClosed

record ka_state =
  ka_stream :: conn
  ka_client :: tunnel_client
  ka_missed :: nat

definition ka_wait :: "ping_reply \<Rightarrow> ka_state \<Rightarrow> ka_result option \<times> ka_state" where
  "ka_wait reply k =
     (case reply of
        PongReceived \<Rightarrow> (None, k\<lparr>ka_missed := 0, ka_client := (ka_client k)\<lparr>ct_pong_ch := False\<rparr>\<rparr>)
      | PongTimeout \<Rightarrow>
          (let k1 = k\<lparr>ka_missed := ka_missed k + 1\<rparr> in
           if ka_missed k1 \<ge> max_pong_miss then
             (Some KaReconnect, k1\<lparr>ka_client := trigger_reconnect (ka_client k1)\<rparr>)
           else (None, k1))
      | _ \<Rightarrow> (Some KaStopped, k))"

definition ka_round :: "msgpack \<Rightarrow> int64 \<Rightarrow> ping_reply \<Rightarrow> ka_state \<Rightarrow> ka_result option \<times> ka_state" where
  "ka_round mp now reply k =
     (if reply = IdleClosed then (Some KaStopped, k) else
      case send_message mp live_write MsgTypePing (PPing \<lparr>ping_ts = now\<rparr>) (ka_stream k) of
        (err, st) \<Rightarrow>
          (let k1 = k\<lparr>ka_stream := st, ka_client := (ka_client k)\<lparr>ct_ctrl := Some st\<rparr>\<rparr> in
           case err of
             Some e \<Rightarrow> (Some KaReconnect, k1\<lparr>ka_client := trigger_reconnect (ka_client k1)\<rparr>)
           | None \<Rightarrow> ka_wait reply k1))"

text \<open>
  The loop: the answers to the pings in order, and the second at which the last tick was. The result
  carries the second at which the goroutine ended: that of its last tick, or ten seconds later if it
  ended by the third timeout.
\<close>

fun keepalive ::
  "msgpack \<Rightarrow> (int \<Rightarrow> int64) \<Rightarrow> int \<Rightarrow> ping_reply list \<Rightarrow> ka_state \<Rightarrow> (ka_result \<times> int) option \<times> ka_state" where
  "keepalive mp clock t [] k = (None, k)"
| "keepalive mp clock t (r # rs) k =
     (case ka_round mp (clock (t + ping_interval)) r k of
        (None, k1) \<Rightarrow> keepalive mp clock (t + ping_interval) rs k1
      | (Some res, k1) \<Rightarrow>
          (Some (res, t + ping_interval + (if r = PongTimeout \<and> ka_missed k1 = max_pong_miss then pong_timeout else 0)),
           k1\<lparr>ka_client := (ka_client k1)\<lparr>ct_wg := ct_wg (ka_client k1) - 1\<rparr>\<rparr>))"

section \<open>Connecting\<close>

text \<open>
  The session of a connection, and what the attempt closed again: the dialled connection when its
  encryption fails, the encrypted one when the session fails.
\<close>

definition connect_standard ::
  "(string \<Rightarrow> 'c result) \<Rightarrow> ('c \<Rightarrow> 'c result) \<Rightarrow> ('c \<Rightarrow> nat result) \<Rightarrow> string \<Rightarrow> nat result \<times> 'c list" where
  "connect_standard dial wrap mk addr =
     (case dial addr of
        Inl e \<Rightarrow> (Inl e, [])
      | Inr conn \<Rightarrow>
          (case wrap conn of
             Inl e \<Rightarrow> (Inl e, [conn])
           | Inr crypt_conn \<Rightarrow>
               (case mk crypt_conn of
                  Inl e \<Rightarrow> (Inl e, [crypt_conn])
                | Inr session \<Rightarrow> (Inr session, []))))"

definition connect_mtmux ::
  "(string \<Rightarrow> int \<Rightarrow> 'c list result) \<Rightarrow> ('c \<Rightarrow> 'c result) \<Rightarrow> ('c list \<Rightarrow> nat result) \<Rightarrow> string \<Rightarrow> int
   \<Rightarrow> nat option result \<times> 'c list" where
  "connect_mtmux dial wrap mk addr tunnels =
     (case dial addr tunnels of
        Inl e \<Rightarrow> (Inl e, [])
      | Inr raw \<Rightarrow>
          (case wrap_tunnels wrap raw of
             (bundle, closed_conns) \<Rightarrow>
               if None \<in> set bundle then (Inr None, closed_conns @ List.map_filter id bundle)
               else
                 (case mk (List.map_filter id bundle) of
                    Inl e \<Rightarrow> (Inl e, closed_conns @ List.map_filter id bundle)
                  | Inr session \<Rightarrow> (Inr (Some session), closed_conns))))"

text \<open>
  \<open>connect\<close>, in two parts: the session, and what is done with it. It is given the session its mode produced (\<open>setup\<close>, \<open>None\<close> being a nil session),
  the stream that session opens, and the order (\<open>order\<close>) in which the proxies are ranged over. The control
  loop is run without interruption by the keepalive. A panic is not recovered from.
\<close>

definition nil_panic :: "'a outcome" where
  "nil_panic = Panic ''invalid memory address or nil pointer dereference''"

definition connect_end :: "conn \<Rightarrow> tunnel_client \<Rightarrow> tunnel_client" where
  "connect_end st c =
     (let c1 = c\<lparr>ct_conn_close_ch := True\<rparr>;
          c2 = (if ct_mtmux_cancel c1 then c1\<lparr>ct_mtmux_cancel := False\<rparr> else c1)
      in close_sess (close_ctrl (c2\<lparr>ct_ctrl := Some st\<rparr>)))"

definition connect_session ::
  "msgpack \<Rightarrow> (bytes \<Rightarrow> bytes \<Rightarrow> bytes) \<Rightarrow> int \<Rightarrow> bytes \<Rightarrow> conn result
   \<Rightarrow> (expanded_proxy list \<Rightarrow> expanded_proxy list) \<Rightarrow> tunnel_client
   \<Rightarrow> (go_error option outcome \<times> tunnel_client) option" where
  "connect_session mp hm now rnd opened order c =
     (case opened of
        Inl e \<Rightarrow> Some (Done (Some e), close_sess c)
      | Inr st \<Rightarrow>
          (case authenticate mp hm now rnd (cc_token (ct_config c)) st of
             None \<Rightarrow> None
           | Some (Some e, st1) \<Rightarrow> Some (Done (Some e), close_sess (close_ctrl (c\<lparr>ct_ctrl := Some st1\<rparr>)))
           | Some (None, st1) \<Rightarrow>
               (case register_proxies mp (order (map snd (ct_proxies c))) st1 of
                  None \<Rightarrow> None
                | Some (errs, st2) \<Rightarrow>
                    (case client_control_stream mp (st2, c\<lparr>ct_ctrl := Some st2, ct_wg := ct_wg c + 1\<rparr>) of
                       None \<Rightarrow> None
                     | Some (_, st3, c2) \<Rightarrow> Some (Done None, connect_end st3 c2)))))"

definition connect ::
  "msgpack \<Rightarrow> (bytes \<Rightarrow> bytes \<Rightarrow> bytes) \<Rightarrow> int \<Rightarrow> bytes \<Rightarrow> nat option result \<Rightarrow> (nat \<Rightarrow> conn result)
   \<Rightarrow> (expanded_proxy list \<Rightarrow> expanded_proxy list) \<Rightarrow> tunnel_client
   \<Rightarrow> (go_error option outcome \<times> tunnel_client) option" where
  "connect mp hm now rnd setup open_stream order c =
     (let c0 = c\<lparr>ct_pong_ch := False, ct_conn_close_ch := False\<rparr> in
      case setup of
        Inl e \<Rightarrow> Some (Done (Some e), c0)
      | Inr None \<Rightarrow> Some (nil_panic, c0\<lparr>ct_session := None\<rparr>)
      | Inr (Some s) \<Rightarrow>
          connect_session mp hm now rnd (open_stream s) order
            (c0\<lparr>ct_session := Some \<lparr>ss_id = s, ss_closed = False\<rparr>,
                ct_mtmux_cancel := cc_mtmux_enabled (ct_config c0)\<rparr>))"

section \<open>The reconnect loop (Run)\<close>

text \<open>
  Delays are nanoseconds; the multiplication by 2.0 is exact in this range. Between two attempts the
  goroutine sleeps, and \<open>sleep\<close> is what the rest of the program does to the client meanwhile.
\<close>

record run_state =
  run_client :: tunnel_client
  run_delay :: int
  run_failures :: nat
  run_sleeps :: "int list"

definition min_delay :: int where "min_delay = 1 * second"
definition max_delay :: int where "max_delay = 60 * second"
definition backoff_factor :: int where "backoff_factor = 2"

definition run_start :: "tunnel_client \<Rightarrow> run_state" where
  "run_start c = \<lparr>run_client = c, run_delay = min_delay, run_failures = 0, run_sleeps = []\<rparr>"

definition backoff :: "go_error option \<Rightarrow> run_state \<Rightarrow> run_state" where
  "backoff err r =
     (case err of
        Some e \<Rightarrow>
          (let r1 = r\<lparr>run_failures := run_failures r + 1\<rparr> in
           if run_failures r1 > 1 then
             (let r2 = r1\<lparr>run_delay := run_delay r1 * backoff_factor\<rparr> in
              if run_delay r2 > max_delay then r2\<lparr>run_delay := max_delay\<rparr> else r2)
           else r1)
      | None \<Rightarrow> r\<lparr>run_failures := 0, run_delay := min_delay\<rparr>)"

definition run_iter ::
  "(tunnel_client \<Rightarrow> (go_error option outcome \<times> tunnel_client) option) \<Rightarrow> (tunnel_client \<Rightarrow> tunnel_client)
   \<Rightarrow> run_state \<Rightarrow> (unit outcome option \<times> run_state) option" where
  "run_iter conn_fn sleep r =
     (case conn_fn (run_client r) of
        None \<Rightarrow> None
      | Some (Panic m, c) \<Rightarrow> Some (Some (Panic m), r\<lparr>run_client := c\<rparr>)
      | Some (Done err, c) \<Rightarrow>
          (let r1 = backoff err (r\<lparr>run_client := c\<rparr>) in
           if ct_close_ch c then Some (Some (Done ()), r1)
           else if \<not> ct_reconnect c then Some (Some (Done ()), r1)
           else Some (None, r1\<lparr>run_client := sleep c, run_sleeps := run_sleeps r1 @ [run_delay r1]\<rparr>)))"

definition run ::
  "(tunnel_client \<Rightarrow> (go_error option outcome \<times> tunnel_client) option) \<Rightarrow> (tunnel_client \<Rightarrow> tunnel_client)
   \<Rightarrow> tunnel_client \<Rightarrow> (unit outcome \<times> run_state) option" where
  "run conn_fn sleep c = go_loop (run_iter conn_fn sleep) (run_start c)"

end
