(* ===== verification/Client_Runs.thy ===== *)
theory Client_Runs
  imports Client
begin

text \<open>
  What the operations of the client do over a run: the dispatch of control messages, the answers the
  registrations get, the delays of the reconnect loop, the rounds of the keepalive, the failure of a
  tunnel, and the invariant of the client's state.
\<close>

section \<open>Dispatch\<close>

lemma dispatch_fields:
  "ct_spawned (dispatch mp m c) = ct_spawned c @
     (if msg_type m = MsgTypeNewConn then
        (case decode_payload (mp_new_conn_request mp) m of Inl e \<Rightarrow> [] | Inr req \<Rightarrow> [req]) else [])"
  "ct_pong_ch (dispatch mp m c) = (ct_pong_ch c \<or> msg_type m = MsgTypePong)"
  "ct_proxies (dispatch mp m c) = ct_proxies c" "ct_session (dispatch mp m c) = ct_session c"
  "ct_ctrl (dispatch mp m c) = ct_ctrl c"
  "ct_config (dispatch mp m c) = ct_config c" "ct_close_ch (dispatch mp m c) = ct_close_ch c"
  "ct_reconnect (dispatch mp m c) = ct_reconnect c"
  "ct_mtmux_cancel (dispatch mp m c) = ct_mtmux_cancel c"
  "ct_conn_close_ch (dispatch mp m c) = ct_conn_close_ch c"
  "ct_wg (dispatch mp m c) - ct_wg c = int (length (ct_spawned (dispatch mp m c))) - int (length (ct_spawned c))"
  by (auto simp: dispatch_def msg_types split: sum.splits)

definition new_conns :: "msgpack \<Rightarrow> message list \<Rightarrow> new_conn_request list" where
  "new_conns mp ms =
     concat (map (\<lambda>m. case decode_payload (mp_new_conn_request mp) m of Inl e \<Rightarrow> [] | Inr req \<Rightarrow> [req])
       (filter (\<lambda>m. msg_type m = MsgTypeNewConn) ms))"

lemma fold_dispatch:
  "ct_spawned (fold (dispatch mp) ms c) = ct_spawned c @ new_conns mp ms"
  "ct_pong_ch (fold (dispatch mp) ms c) = (ct_pong_ch c \<or> MsgTypePong \<in> set (map msg_type ms))"
  "ct_proxies (fold (dispatch mp) ms c) = ct_proxies c"
  "ct_session (fold (dispatch mp) ms c) = ct_session c" "ct_config (fold (dispatch mp) ms c) = ct_config c"
  "ct_close_ch (fold (dispatch mp) ms c) = ct_close_ch c" "ct_reconnect (fold (dispatch mp) ms c) = ct_reconnect c"
  "ct_wg (fold (dispatch mp) ms c) - ct_wg c = int (length (new_conns mp ms))"
proof (induction ms arbitrary: c)
  case (Cons m ms)
  note d = dispatch_fields(1-10)
  case 1 show ?case using Cons.IH(1) by (simp add: d new_conns_def)
  case 2 show ?case using Cons.IH(2) by (auto simp: d)
  case 3 show ?case using Cons.IH(3) by (simp add: d)
  case 4 show ?case using Cons.IH(4) by (simp add: d)
  case 5 show ?case using Cons.IH(5) by (simp add: d)
  case 6 show ?case using Cons.IH(6) by (simp add: d)
  case 7 show ?case using Cons.IH(7) by (simp add: d)
  case (8 c) show ?case using Cons.IH(8) [of "dispatch mp m c"] dispatch_fields(11) [of mp m c]
    by (auto simp: d(1) new_conns_def split: sum.splits if_splits)
qed (simp_all add: new_conns_def)

lemma control_stream_frames:
  assumes "conn_up st" and "\<forall>m \<in> set ms. fits mp m" and "live_avail st = concat (map (msg_frame mp) ms)"
  shows "\<exists>st'. client_control_stream mp (st, c) = Some ((), st', fold (dispatch mp) ms c) \<and> conn_up st'
    \<and> cout st' = cout st"
  using assms
proof (induction ms arbitrary: st c)
  case Nil
  then obtain st' where "recv_message mp live_read st = Some (Inl (live_fin st), st')" "conn_up st'" "cout st' = cout st"
    using recv_up_end [of st mp] by auto
  then show ?case by (simp add: client_control_stream_def client_control_iter_def)
next
  case (Cons m ms)
  from recv_up [OF Cons.prems(1), of mp m "concat (map (msg_frame mp) ms)"] Cons.prems(2,3) obtain st1 where
    st1: "recv_message mp live_read st = Some (Inr m, st1)" "conn_up st1" "live_avail st1 = concat (map (msg_frame mp) ms)"
      "cout st1 = cout st" by auto
  then have "client_control_iter mp (st, c) = Some (None, st1, dispatch mp m c)"
    by (simp add: client_control_iter_def)
  then have "client_control_stream mp (st, c) = client_control_stream mp (st1, dispatch mp m c)"
    unfolding client_control_stream_def by (rule go_loop_again)
  with Cons.IH [OF st1(2) _ st1(3), of "dispatch mp m c"] Cons.prems(2) st1(4) show ?case by auto
qed

section \<open>Registration\<close>

lemma reg_send_up:
  assumes "conn_up st"
    and "sendable mp (MsgTypeNewProxy, PNewProxyRequest \<lparr>npq_name = ep_name px, npq_type = ep_type px,
      npq_remote_port = ep_remote_port px\<rparr>)"
  shows "\<exists>st'. reg_send mp px st = (None, st') \<and> conn_up st' \<and> live_avail st' = live_avail st"
  using send_up [OF assms] by (auto simp: reg_send_def)

definition px_sendable :: "msgpack \<Rightarrow> expanded_proxy \<Rightarrow> bool" where
  "px_sendable mp px \<longleftrightarrow>
     sendable mp (MsgTypeNewProxy, PNewProxyRequest \<lparr>npq_name = ep_name px, npq_type = ep_type px,
       npq_remote_port = ep_remote_port px\<rparr>)"

lemma register_proxy_message:
  assumes "conn_up st" and "px_sendable mp px" and "fits mp m" and "live_avail st = msg_frame mp m @ rest"
  shows "\<exists>st'. register_proxy mp px st = Some (reg_answer mp px m, st') \<and> conn_up st' \<and> live_avail st' = rest"
proof -
  from reg_send_up [OF assms(1)] assms(2) obtain st1 where
    st1: "reg_send mp px st = (None, st1)" "conn_up st1" "live_avail st1 = live_avail st"
    by (auto simp: px_sendable_def)
  from recv_up [OF st1(2) assms(3), of rest] st1(3) assms(4) obtain st2 where
    "recv_message mp live_read st1 = Some (Inr m, st2)" "conn_up st2" "live_avail st2 = rest" by auto
  with st1 show ?thesis by (simp add: register_proxy_def reg_recv_def)
qed

text \<open>Each registration is answered by the next message on the stream, whatever that is.\<close>

lemma register_proxies_messages:
  assumes "conn_up st" and "list_all (px_sendable mp) pxs" and "list_all (fits mp) ms" and "length ms = length pxs"
    and "live_avail st = concat (map (msg_frame mp) ms) @ rest"
  shows "\<exists>st'. register_proxies mp pxs st = Some (map2 (reg_answer mp) pxs ms, st') \<and> conn_up st' \<and> live_avail st' = rest"
  using assms
proof (induction pxs arbitrary: ms st)
  case Nil
  then show ?case by simp
next
  case (Cons px pxs)
  from Cons.prems(4) obtain m ms' where ms: "ms = m # ms'" by (cases ms) auto
  from register_proxy_message [OF Cons.prems(1), of mp px m "concat (map (msg_frame mp) ms') @ rest"] Cons.prems ms
  obtain st1 where st1: "register_proxy mp px st = Some (reg_answer mp px m, st1)" "conn_up st1"
    "live_avail st1 = concat (map (msg_frame mp) ms') @ rest" by auto
  from Cons.IH [OF st1(2) _ _ _ st1(3)] Cons.prems ms obtain st2 where
    "register_proxies mp pxs st1 = Some (map2 (reg_answer mp) pxs ms', st2)" "conn_up st2" "live_avail st2 = rest"
    by auto
  with st1 ms show ?case by simp
qed

section \<open>Reconnecting\<close>

fun run_iters ::
  "nat \<Rightarrow> (tunnel_client \<Rightarrow> (go_error option outcome \<times> tunnel_client) option) \<Rightarrow> (tunnel_client \<Rightarrow> tunnel_client)
   \<Rightarrow> run_state \<Rightarrow> run_state option" where
  "run_iters 0 conn_fn sleep r = Some r"
| "run_iters (Suc n) conn_fn sleep r =
     (case run_iter conn_fn sleep r of Some (None, r1) \<Rightarrow> run_iters n conn_fn sleep r1 | _ \<Rightarrow> None)"

text \<open>The delay after the \<open>k\<close>-th failure in a row.\<close>

definition backoff_delay :: "nat \<Rightarrow> int" where
  "backoff_delay k = min (2 ^ (k - 1)) 60 * second"

lemma backoff_failure:
  assumes "run_delay r = backoff_delay (run_failures r)"
  shows "run_failures (backoff (Some e) r) = Suc (run_failures r)"
    and "run_delay (backoff (Some e) r) = backoff_delay (Suc (run_failures r))"
proof -
  show "run_failures (backoff (Some e) r) = Suc (run_failures r)" by (simp add: backoff_def Let_def)
  obtain k where k: "run_failures r = k" by blast
  show "run_delay (backoff (Some e) r) = backoff_delay (Suc (run_failures r))"
  proof (cases k)
    case 0
    with assms k show ?thesis by (simp add: backoff_def backoff_delay_def Let_def)
  next
    case (Suc j)
    with assms k show ?thesis
      by (auto simp: backoff_def backoff_delay_def backoff_factor_def max_delay_def second_def Let_def min_def)
  qed
qed

lemma backoff_success: "run_failures (backoff None r) = 0" "run_delay (backoff None r) = backoff_delay 0"
  by (simp_all add: backoff_def min_delay_def backoff_delay_def)

lemma backoff_frame: "run_client (backoff e r) = run_client r" "run_sleeps (backoff e r) = run_sleeps r"
  by (simp_all add: backoff_def Let_def split: option.splits)

lemma run_iters_fail:
  assumes "\<And>c. \<exists>e c'. conn_fn c = Some (Done (Some e), c') \<and> \<not> ct_close_ch c' \<and> ct_reconnect c'"
    and "run_delay r = backoff_delay (run_failures r)"
  shows "\<exists>r'. run_iters n conn_fn sleep r = Some r'
    \<and> run_sleeps r' = run_sleeps r @ map (\<lambda>i. backoff_delay (Suc (run_failures r + i))) [0..<n]"
  using assms(2)
proof (induction n arbitrary: r)
  case (Suc n)
  from assms(1) [of "run_client r"] obtain e c' where
    c': "conn_fn (run_client r) = Some (Done (Some e), c')" "\<not> ct_close_ch c'" "ct_reconnect c'" by blast
  let ?r1 = "backoff (Some e) (r\<lparr>run_client := c'\<rparr>)"
  let ?r2 = "?r1\<lparr>run_client := sleep c', run_sleeps := run_sleeps ?r1 @ [run_delay ?r1]\<rparr>"
  have f: "run_failures ?r1 = Suc (run_failures r)" "run_delay ?r1 = backoff_delay (Suc (run_failures r))"
    using backoff_failure [of "r\<lparr>run_client := c'\<rparr>" e] Suc.prems by simp_all
  have "run_iter conn_fn sleep r = Some (None, ?r2)" using c' by (simp add: run_iter_def Let_def)
  moreover from Suc.IH [of ?r2] f obtain r' where "run_iters n conn_fn sleep ?r2 = Some r'"
    "run_sleeps r' = run_sleeps ?r2 @ map (\<lambda>i. backoff_delay (Suc (run_failures ?r2 + i))) [0..<n]" by auto
  moreover have "map (\<lambda>i. backoff_delay (Suc (run_failures r + i))) [0..<Suc n]
      = backoff_delay (Suc (run_failures r)) # map (\<lambda>i. backoff_delay (Suc (Suc (run_failures r) + i))) [0..<n]"
    by (subst upt_conv_Cons) (simp_all add: map_Suc_upt [symmetric] del: upt_Suc)
  ultimately show ?case using f by (simp add: backoff_frame del: upt_Suc)
qed simp

section \<open>Keepalive\<close>

definition ping_sendable :: "msgpack \<Rightarrow> bool" where
  "ping_sendable mp \<longleftrightarrow> (\<forall>t. sendable mp (MsgTypePing, PPing \<lparr>ping_ts = t\<rparr>))"

lemma ka_round_up:
  assumes "conn_up (ka_stream k)" and "ping_sendable mp" and "reply \<noteq> IdleClosed"
  shows "\<exists>st. conn_up st \<and> ka_round mp now reply k = ka_wait reply (k\<lparr>ka_stream := st,
    ka_client := (ka_client k)\<lparr>ct_ctrl := Some st\<rparr>\<rparr>)"
proof -
  from assms(2) have "sendable mp (MsgTypePing, PPing \<lparr>ping_ts = now\<rparr>)" by (simp add: ping_sendable_def)
  from send_up [OF assms(1) this] assms(3) show ?thesis by (auto simp: ka_round_def Let_def)
qed

abbreviation three_misses :: "ping_reply list" where
  "three_misses \<equiv> [PongTimeout, PongTimeout, PongTimeout]"

lemma three_misses_after:
  assumes "m < 3"
  shows "sublist three_misses (replicate m PongTimeout @ PongReceived # rs) \<longleftrightarrow> sublist three_misses rs"
proof -
  from assms consider "m = 0" | "m = 1" | "m = 2" by linarith
  then show ?thesis by cases (simp_all add: sublist_Cons_right numeral_2_eq_2)
qed

text \<open>
  The third miss in a row ends round \<open>length xs + 3\<close>, counted from \<open>m\<close> misses before the
  rounds \<open>rs\<close>, the last tick having been at \<open>t\<close>.
\<close>

definition lost_at :: "nat \<Rightarrow> int \<Rightarrow> ping_reply list \<Rightarrow> int \<Rightarrow> bool" where
  "lost_at m t rs u \<longleftrightarrow>
     (\<exists>xs ys. replicate m PongTimeout @ rs = xs @ three_misses @ ys
        \<and> \<not> sublist three_misses (xs @ [PongTimeout, PongTimeout])
        \<and> u = t + 15 * (int (length xs) + 3 - int m) + 10)"

lemma lost_pong:
  assumes "m < 3" and "lost_at 0 (t + 15) rs u"
  shows "lost_at m t (PongReceived # rs) u"
proof -
  from assms(2) obtain xs ys where
    h: "rs = xs @ three_misses @ ys" "\<not> sublist three_misses (xs @ [PongTimeout, PongTimeout])"
      "u = t + 15 + 15 * (int (length xs) + 3) + 10" by (auto simp: lost_at_def)
  let ?xs = "replicate m PongTimeout @ PongReceived # xs"
  have "\<not> sublist three_misses (?xs @ [PongTimeout, PongTimeout])"
    using three_misses_after [OF assms(1), of "xs @ [PongTimeout, PongTimeout]"] h(2) by simp
  with h(1,3) show ?thesis unfolding lost_at_def by (intro exI [of _ ?xs] exI [of _ ys]) simp
qed

lemma lost_miss: "lost_at (Suc m) (t + 15) rs u \<Longrightarrow> lost_at m t (PongTimeout # rs) u"
  unfolding lost_at_def by (elim exE conjE, intro exI conjI, simp add: replicate_app_Cons_same, assumption) simp

lemma lost_now: "lost_at 2 t (PongTimeout # rs) (t + 25)"
  unfolding lost_at_def
  by (rule exI [of _ "[]"], rule exI [of _ rs]) (simp add: numeral_2_eq_2 sublist_Cons_right)

lemma keepalive_runs:
  assumes "conn_up (ka_stream k)" and "ping_sendable mp" and "set rs \<subseteq> {PongReceived, PongTimeout}"
    and "ka_missed k < 3"
  shows "case fst (keepalive mp clock t rs k) of
      None \<Rightarrow> \<not> sublist three_misses (replicate (ka_missed k) PongTimeout @ rs)
    | Some (res, u) \<Rightarrow> res = KaReconnect \<and> lost_at (ka_missed k) t rs u"
  using assms
proof (induction rs arbitrary: k t)
  case Nil
  have "\<not> sublist three_misses (replicate (ka_missed k) PongTimeout)"
    using sublist_length_le [of three_misses "replicate (ka_missed k) PongTimeout"] Nil(4) by auto
  then show ?case by simp
next
  case (Cons r rs)
  obtain m where m: "m = ka_missed k" by blast
  from Cons.prems have "r \<noteq> IdleClosed" by auto
  from ka_round_up [OF Cons.prems(1,2) this] obtain st where st: "conn_up st"
    and rnd: "ka_round mp (clock (t + ping_interval)) r k
      = ka_wait r (k\<lparr>ka_stream := st, ka_client := (ka_client k)\<lparr>ct_ctrl := Some st\<rparr>\<rparr>)" by blast
  from Cons.prems(3,4) m consider (pong) "r = PongReceived" | (lost) "r = PongTimeout" "m = 2"
    | (miss) "r = PongTimeout" "m < 2" by fastforce
  then show ?case
  proof cases
    case pong
    then obtain k1 where k1: "ka_round mp (clock (t + ping_interval)) r k = (None, k1)" "ka_stream k1 = st"
      "ka_missed k1 = 0" using rnd by (simp add: ka_wait_def)
    with Cons.IH [of k1 "t + ping_interval"] st Cons.prems(2,3) pong show ?thesis
      using three_misses_after [OF Cons.prems(4)] lost_pong [OF Cons.prems(4)]
      by (auto simp: ping_interval_def split: option.splits)
  next
    case lost
    then obtain k1 where "ka_round mp (clock (t + ping_interval)) r k = (Some KaReconnect, k1)" "ka_missed k1 = 3"
      using rnd m by (simp add: ka_wait_def max_pong_miss_def Let_def)
    with lost lost_now [of t rs] m show ?thesis
      by (simp add: max_pong_miss_def ping_interval_def pong_timeout_def add.assoc)
  next
    case miss
    then obtain k1 where k1: "ka_round mp (clock (t + ping_interval)) r k = (None, k1)" "ka_stream k1 = st"
      "ka_missed k1 = Suc m" using rnd m by (simp add: ka_wait_def max_pong_miss_def Let_def)
    with Cons.IH [of k1 "t + ping_interval"] st Cons.prems(2,3) miss show ?thesis
      using lost_miss [of m t rs] m
      by (auto simp: ping_interval_def replicate_app_Cons_same split: option.splits)
  qed
qed

lemma ka_wait_session:
  "ka_wait r k = (res, k1) \<Longrightarrow> ct_session (ka_client k1) =
     (if res = Some KaReconnect then map_option (\<lambda>ss. ss\<lparr>ss_closed := True\<rparr>) (ct_session (ka_client k))
      else ct_session (ka_client k))"
  by (auto simp: ka_wait_def Let_def trigger_reconnect_def close_ctrl_def close_sess_def
      split: ping_reply.splits if_splits option.splits)

lemma ka_round_session:
  assumes "ka_round mp now r k = (res, k1)"
  shows "ct_session (ka_client k1) =
     (if res = Some KaReconnect then map_option (\<lambda>ss. ss\<lparr>ss_closed := True\<rparr>) (ct_session (ka_client k))
      else ct_session (ka_client k))"
  using assms
  by (auto simp: ka_round_def Let_def trigger_reconnect_def close_ctrl_def close_sess_def
      split: if_splits option.splits prod.splits dest: ka_wait_session)

lemma keepalive_session:
  "keepalive mp clock t rs k = (out, k1) \<Longrightarrow> ct_session (ka_client k1) =
     (if map_option fst out = Some KaReconnect
      then map_option (\<lambda>ss. ss\<lparr>ss_closed := True\<rparr>) (ct_session (ka_client k)) else ct_session (ka_client k))"
proof (induction rs arbitrary: k t)
  case (Cons r rs)
  obtain res k2 where rnd: "ka_round mp (clock (t + ping_interval)) r k = (res, k2)" by fastforce
  from ka_round_session [OF rnd] Cons rnd show ?case
    by (cases res) auto
qed simp

lemma keepalive_all_lost:
  assumes "conn_up (ka_stream k)" and "ping_sendable mp" and "ka_missed k = 0"
  shows "fst (keepalive mp clock t (replicate n PongReceived @ three_misses) k) = Some (KaReconnect, t + 15 * int n + 55)"
  using assms
proof (induction n arbitrary: k t)
  case 0
  have "\<exists>u. fst (keepalive mp clock t three_misses k) = Some (KaReconnect, u) \<and> lost_at 0 t three_misses u"
    using keepalive_runs [OF 0(1,2), where clock = clock and t = t and rs = three_misses] 0(3)
    by (auto split: option.splits)
  then show ?case by (auto simp: lost_at_def Cons_eq_append_conv)
next
  case (Suc n)
  from ka_round_up [OF Suc.prems(1,2), of PongReceived "clock (t + ping_interval)"] obtain k1 where
    "ka_round mp (clock (t + ping_interval)) PongReceived k = (None, k1)" "conn_up (ka_stream k1)" "ka_missed k1 = 0"
    by (auto simp: ka_wait_def)
  with Suc.IH [of k1 "t + ping_interval"] Suc.prems(2) show ?case by (simp add: ping_interval_def)
qed

section \<open>Connecting\<close>

lemma wrap_tunnels_nth:
  "wrap_tunnels wrap raw = (map (\<lambda>c. case wrap c of Inl e \<Rightarrow> None | Inr w \<Rightarrow> Some w) raw,
     filter (\<lambda>c. case wrap c of Inl e \<Rightarrow> True | Inr w \<Rightarrow> False) raw)"
  by (induction raw) (auto split: sum.splits)

section \<open>The client as a transition system\<close>

text \<open>What no operation but \<open>Stop\<close> changes.\<close>

definition setup_of :: "tunnel_client \<Rightarrow> client_config \<times> (string \<times> expanded_proxy) list \<times> bool \<times> bool" where
  "setup_of c = (ct_config c, ct_proxies c, ct_close_ch c, ct_reconnect c)"

lemma setup_simps [simp]:
  "setup_of (c\<lparr>ct_session := x1\<rparr>) = setup_of c" "setup_of (c\<lparr>ct_ctrl := x2\<rparr>) = setup_of c"
  "setup_of (c\<lparr>ct_pong_ch := x3\<rparr>) = setup_of c" "setup_of (c\<lparr>ct_conn_close_ch := x4\<rparr>) = setup_of c"
  "setup_of (c\<lparr>ct_mtmux_cancel := x5\<rparr>) = setup_of c" "setup_of (c\<lparr>ct_wg := x6\<rparr>) = setup_of c"
  "setup_of (c\<lparr>ct_spawned := x7\<rparr>) = setup_of c"
  "setup_of (close_sess c) = setup_of c" "setup_of (close_ctrl c) = setup_of c"
  "setup_of (trigger_reconnect c) = setup_of c" "setup_of (connect_end st c) = setup_of c"
  "setup_of (dispatch mp m c) = setup_of c"
  by (simp_all add: setup_of_def close_sess_def close_ctrl_def trigger_reconnect_def connect_end_def dispatch_fields
      Let_def split: option.splits)

lemma control_stream_setup:
  assumes "client_control_stream mp x = Some (r, x')"
  shows "setup_of (snd x') = setup_of (snd x)"
  using assms unfolding client_control_stream_def
  by (induction rule: go_loop_induct)
    (auto simp: client_control_iter_def split: option.splits sum.splits)

lemma connect_session_setup:
  assumes "connect_session mp hm now rnd opened order c = Some (out, c')"
  shows "setup_of c' = setup_of c"
proof (cases opened)
  case (Inl e)
  with assms show ?thesis by (auto simp: connect_session_def)
next
  case (Inr st)
  show ?thesis
  proof (cases "authenticate mp hm now rnd (cc_token (ct_config c)) st")
    case None
    with Inr assms show ?thesis by (simp add: connect_session_def)
  next
    case (Some y)
    obtain e st1 where y: "y = (e, st1)" by fastforce
    show ?thesis
    proof (cases e)
      case None
      with Inr Some y assms obtain errs st2 r st3 c2 where
        "client_control_stream mp (st2, c\<lparr>ct_ctrl := Some st2, ct_wg := ct_wg c + 1\<rparr>) = Some (r, st3, c2)"
        "c' = connect_end st3 c2"
        by (auto simp: connect_session_def split: option.splits)
      then show ?thesis by (auto dest: control_stream_setup)
    next
      case (Some e)
      with Inr \<open>authenticate _ _ _ _ _ _ = _\<close> y assms show ?thesis by (auto simp: connect_session_def)
    qed
  qed
qed

lemma connect_setup:
  assumes "connect mp hm now rnd setup open_stream order c = Some (out, c')"
  shows "setup_of c' = setup_of c"
  using assms
  by (auto simp: connect_def Let_def dest: connect_session_setup split: sum.splits option.splits)

lemma keepalive_setup: "setup_of (ka_client (snd (keepalive mp clock t rs k))) = setup_of (ka_client k)"
proof (induction rs arbitrary: k t)
  case (Cons r rs)
  have w: "setup_of (ka_client (snd (ka_wait r k))) = setup_of (ka_client k)" for k
    by (simp add: ka_wait_def Let_def split: ping_reply.splits)
  have f: "setup_of (ka_client (snd (ka_round mp now r k))) = setup_of (ka_client k)" for now k
    by (simp add: ka_round_def Let_def w split: option.splits prod.splits)
  obtain res k1 where rnd: "ka_round mp (clock (t + ping_interval)) r k = (res, k1)" by fastforce
  with f [of "clock (t + ping_interval)" k] Cons.IH [where k = k1] show ?case by (cases res) simp_all
qed simp

lemma new_conn_setup: "setup_of (snd (handle_new_conn opened dial req c)) = setup_of c"
  by (simp add: handle_new_conn_def Let_def split: sum.splits option.splits)

inductive client_step :: "msgpack \<Rightarrow> (bytes \<Rightarrow> bytes \<Rightarrow> bytes) \<Rightarrow> tunnel_client \<Rightarrow> tunnel_client \<Rightarrow> bool" for mp hm where
  connecting: "connect mp hm now rnd setup open_stream order c = Some (out, c') \<Longrightarrow> client_step mp hm c c'"
| new_conn: "client_step mp hm c (snd (handle_new_conn (opened :: nat result) (dial :: string \<Rightarrow> nat result) req c))"
| pinging: "client_step mp hm c
    (ka_client (snd (keepalive mp clock t rs \<lparr>ka_stream = st, ka_client = c, ka_missed = n\<rparr>)))"
| stopping: "client_stop c = Done c' \<Longrightarrow> client_step mp hm c c'"

definition proxy_ok :: "string \<times> expanded_proxy \<Rightarrow> bool" where
  "proxy_ok x \<longleftrightarrow> ep_name (snd x) = fst x \<and> 1 \<le> ep_local_port (snd x) \<and> ep_local_port (snd x) \<le> 65535
     \<and> 1 \<le> ep_remote_port (snd x) \<and> ep_remote_port (snd x) \<le> 65535"

definition client_ok :: "client_config \<Rightarrow> tunnel_client \<Rightarrow> bool" where
  "client_ok cfg c \<longleftrightarrow> ct_config c = cfg \<and> distinct (map fst (ct_proxies c)) \<and> list_all proxy_ok (ct_proxies c)
     \<and> (ct_close_ch c \<longleftrightarrow> \<not> ct_reconnect c)"

lemma client_ok_setup: "setup_of c' = setup_of c \<Longrightarrow> client_ok cfg c' = client_ok cfg c"
  by (simp add: client_ok_def setup_of_def)

lemma client_ok_step:
  assumes "client_step mp hm c c'" and "client_ok cfg c"
  shows "client_ok cfg c'"
  using assms(1)
proof cases
  case connecting
  with assms(2) client_ok_setup connect_setup show ?thesis by blast
next
  case new_conn
  with assms(2) show ?thesis by (simp add: client_ok_setup [OF new_conn_setup])
next
  case pinging
  with assms(2) show ?thesis by (simp add: client_ok_setup [OF keepalive_setup])
next
  case stopping
  with assms(2) show ?thesis
    by (auto simp: client_stop_def client_ok_def close_sess_def Let_def split: if_splits option.splits)
qed

lemma expand_proxies_ok:
  assumes "expand p = Done (Inr eps)"
  shows "list_all (\<lambda>ep. proxy_ok (ep_name ep, ep)) eps"
proof -
  from expand_Inr [OF assms] obtain l r where
    lr: "parse_port_range (pc_local_port p) = Inr l" "parse_port_range (pc_remote_port p) = Inr r" "count l = count r"
    by blast
  note valid = lr(1,2) [THEN parse_port_range_valid]
  from expand_done [OF lr] assms have "int (length eps) = count l"
    and nth: "\<forall>i < length eps. ep_local_port (eps ! i) = pr_start l + int i
      \<and> ep_remote_port (eps ! i) = pr_start r + int i" by auto
  with lr(3) valid have "int (length eps) = pr_end l - pr_start l + 1" "int (length eps) = pr_end r - pr_start r + 1"
    by (simp_all add: count_def)
  with nth valid have "proxy_ok (ep_name (eps ! i), eps ! i)" if "i < length eps" for i
    using that by (simp add: proxy_ok_def valid_range_def)
  then show ?thesis by (simp add: list_all_length)
qed

lemma update_all_ok:
  assumes "list_all (\<lambda>ep. proxy_ok (ep_name ep, ep)) eps" and "list_all proxy_ok al" and "distinct (map fst al)"
  shows "list_all proxy_ok (fold (\<lambda>ep. AList.update (ep_name ep) ep) eps al)
    \<and> distinct (map fst (fold (\<lambda>ep. AList.update (ep_name ep) ep) eps al))"
  using assms
proof (induction eps arbitrary: al)
  case (Cons ep eps)
  have "list_all proxy_ok (AList.update (ep_name ep) ep al)"
    using Cons.prems(1,2) set_update_subset [of "ep_name ep" ep al] by (auto simp: list_all_iff)
  with Cons show ?case by simp
qed simp

lemma expand_all_ok:
  assumes "expand_all ps al = Done (Inr al')" and "list_all proxy_ok al" and "distinct (map fst al)"
  shows "list_all proxy_ok al' \<and> distinct (map fst al')"
  using assms
proof (induction ps arbitrary: al)
  case (Cons p ps)
  then obtain eps where "expand p = Done (Inr eps)"
    and "expand_all ps (fold (\<lambda>ep. AList.update (ep_name ep) ep) eps al) = Done (Inr al')"
    by (auto split: outcome.splits sum.splits)
  with Cons.IH update_all_ok [OF expand_proxies_ok Cons.prems(2,3)] show ?case by blast
qed simp

lemma new_client_ok:
  assumes "new_client cfg = Done (Inr (c, layers))"
  shows "client_ok cfg c"
  using assms expand_all_ok [of "cc_proxies cfg" "[]"]
  by (auto simp: new_client_def client_ok_def fresh_client_def split: outcome.splits sum.splits)

section \<open>A sample client\<close>

interpretation client_run: step_invariant "client_step mp hm"
  "\<lambda>c. \<exists>layers :: 'cert transport \<times> 'cert crypto. new_client cfg = Done (Inr (c, layers))" "client_ok cfg" for mp hm cfg
  by unfold_locales (use new_client_ok client_ok_step in blast)+

definition sample_client_config :: client_config where
  "sample_client_config =
     \<lparr>cc_server_addr = ''server:7000'', cc_transport = ''net'', cc_crypto = ''none'', cc_token = ''secret-token'',
      cc_tls_ca_cert = [], cc_tls_skip_verify = False, cc_chacha20_psk = [], cc_quic_skip_verify = False,
      cc_mtmux_enabled = False, cc_mtmux_tunnels = 0,
      cc_proxies = [\<lparr>pc_name = ''web'', pc_type = ''tcp'', pc_local_addr = ''127.0.0.1'',
        pc_local_port = ''8000-8002'', pc_remote_port = ''6000-6002''\<rparr>]\<rparr>"

definition sample_proxy :: "string \<Rightarrow> int \<Rightarrow> expanded_proxy" where
  "sample_proxy name port =
     \<lparr>ep_name = name, ep_type = ''tcp'', ep_local_addr = ''127.0.0.1'', ep_local_port = port, ep_remote_port = port\<rparr>"

lemma idle_conn_closed [simp]: "closed (idle_conn bss) = False"
  by (simp add: idle_conn_def)

lemma idle_conn_up: "conn_up (idle_conn bss)"
  by (simp add: conn_up_def)

section \<open>Properties\<close>

text \<open>
  C22: In every state a client can reach from \<open>New\<close>, through connection attempts, user connections,
  keepalive rounds and \<open>Stop\<close> in any order, its configuration is that of the file, every proxy is
  filed once and under its own name with ports between 1 and 65535, and the two flags \<open>Run\<close> tests
  agree.
\<close>
theorem client_well_formed:
  assumes "new_client cfg = Done (Inr (c0, layers))" and "(client_step mp hm)\<^sup>*\<^sup>* c0 c"
  shows "ct_config c = cfg \<and> distinct (map fst (ct_proxies c)) \<and> list_all proxy_ok (ct_proxies c)
    \<and> (ct_close_ch c \<longleftrightarrow> \<not> ct_reconnect c)"
proof -
  from assms(1) have "\<exists>layers :: 'a transport \<times> 'a crypto. new_client cfg = Done (Inr (c0, layers))" by blast
  from client_run.reachable_ok [OF this assms(2)] have "client_ok cfg c" .
  then show ?thesis by (simp add: client_ok_def)
qed

theorem client_well_formed_witness:
  "\<exists>c0 c. (\<exists>layers :: string transport \<times> string crypto. new_client sample_client_config = Done (Inr (c0, layers)))
    \<and> (client_step sample_msgpack (\<lambda>k d. d))\<^sup>*\<^sup>* c0 c \<and> ct_close_ch c \<and> ct_config c = sample_client_config
    \<and> list_all proxy_ok (ct_proxies c)"
proof -
  let ?p = "\<lparr>pc_name = ''web'', pc_type = ''tcp'', pc_local_addr = ''127.0.0.1'',
             pc_local_port = ''8000-8002'', pc_remote_port = ''6000-6002''\<rparr>"
  have l: "parse_port_range (pc_local_port ?p) = Inr \<lparr>pr_start = 8000, pr_end = 8002\<rparr>"
    and r: "parse_port_range (pc_remote_port ?p) = Inr \<lparr>pr_start = 6000, pr_end = 6002\<rparr>"
    by code_simp+
  from expand_done [OF l r] obtain eps where eps: "expand ?p = Done (Inr eps)" by (auto simp: count_def)
  let ?c0 = "fresh_client sample_client_config (fold (\<lambda>ep. AList.update (ep_name ep) ep) eps [])"
  have new: "new_client sample_client_config
      = Done (Inr (?c0, client_layers sample_client_config :: string transport \<times> string crypto))"
    using eps by (simp add: new_client_def sample_client_config_def)
  obtain c where "client_stop ?c0 = Done c" "ct_close_ch c"
    by (simp add: client_stop_def fresh_client_def close_sess_def)
  then have run: "(client_step sample_msgpack (\<lambda>k d. d))\<^sup>*\<^sup>* ?c0 c" by (blast intro: client_step.stopping)
  from client_well_formed [OF new run] new run \<open>ct_close_ch c\<close> show ?thesis by blast
qed

text \<open>
  C16: The control loop of the client: from a stream that carries complete messages and then ends, it
  starts one user connection for every decodable request, in order, fills the pong channel if a pong
  arrived, passes over every other message, and returns at the end of the stream.
\<close>
theorem control_loop_dispatches:
  assumes "conn_up st" and "\<forall>m \<in> set ms. fits mp m" and "live_avail st = concat (map (msg_frame mp) ms)"
  shows "\<exists>st' c'. client_control_stream mp (st, c) = Some ((), st', c')
    \<and> ct_spawned c' = ct_spawned c @ new_conns mp ms \<and> ct_wg c' = ct_wg c + int (length (new_conns mp ms))
    \<and> ct_pong_ch c' = (ct_pong_ch c \<or> MsgTypePong \<in> set (map msg_type ms))
    \<and> setup_of c' = setup_of c \<and> cout st' = cout st"
proof -
  from control_stream_frames [OF assms] obtain st' where
    "client_control_stream mp (st, c) = Some ((), st', fold (dispatch mp) ms c)" "cout st' = cout st" by blast
  then show ?thesis
    using fold_dispatch [of mp ms c] control_stream_setup [of mp "(st, c)"] by fastforce
qed

theorem control_loop_dispatches_witness:
  "let req = \<lparr>ncq_proxy_name = ''web'', ncq_conn_id = ''c1''\<rparr>;
       ms = [\<lparr>msg_type = MsgTypePong, msg_payload = []\<rparr>,
             \<lparr>msg_type = MsgTypeNewConn, msg_payload = sample_payload (PNewConnRequest req)\<rparr>];
       st = idle_conn [concat (map (msg_frame sample_msgpack) ms)]
   in \<exists>st' c'. client_control_stream sample_msgpack (st, fresh_client sample_client_config []) = Some ((), st', c')
        \<and> ct_spawned c' = [req] \<and> ct_pong_ch c'"
proof -
  let ?req = "\<lparr>ncq_proxy_name = ''web'', ncq_conn_id = ''c1''\<rparr>"
  let ?ms = "[\<lparr>msg_type = MsgTypePong, msg_payload = []\<rparr>,
             \<lparr>msg_type = MsgTypeNewConn, msg_payload = sample_payload (PNewConnRequest ?req)\<rparr>]"
  let ?st = "idle_conn [concat (map (msg_frame sample_msgpack) ?ms)]"
  have "new_conns sample_msgpack ?ms = [?req]"
    using sample_new_conn_request [of ?req]
    by (simp add: new_conns_def msg_types decode_payload_def del: sample_payload.simps)
  moreover have "\<forall>m \<in> set ?ms. fits sample_msgpack m"
    by (simp add: fits_def MaxMsgSize_def sample_eval)
  ultimately show ?thesis
    using control_loop_dispatches [of ?st ?ms sample_msgpack "fresh_client sample_client_config []"] idle_conn_up
    by (auto simp: Let_def live_avail_def fresh_client_def idle_conn_closed simp del: sample_payload.simps)
qed

text \<open>
  C20: A user that connects while the client is still registering puts the registration out of step: the
  proxy whose answer the notification overtakes is reported as failed, every later proxy is judged
  by the answer to the proxy before it, and the last answer is left on the stream.
\<close>
theorem notification_shifts_registration:
  assumes "conn_up st" and "list_all (px_sendable mp) (pxs @ px # qxs)"
    and "list_all (fits mp) (as @ n # bs @ [b])" and "length as = length pxs" and "length bs = length qxs"
    and "msg_type n = MsgTypeNewConn"
    and "live_avail st = concat (map (msg_frame mp) (as @ n # bs @ [b]))"
  shows "\<exists>st'. register_proxies mp (pxs @ px # qxs) st =
      Some (map2 (reg_answer mp) pxs as @ Some (proxy_error (ep_name px) ''invalid response type'')
        # map2 (reg_answer mp) qxs bs, st')
    \<and> live_avail st' = msg_frame mp b"
proof -
  have "reg_answer mp px n = Some (proxy_error (ep_name px) ''invalid response type'')"
    using assms(6) by (simp add: reg_answer_def msg_types)
  with register_proxies_messages [OF assms(1,2), of "as @ n # bs" "msg_frame mp b"] assms(3-5,7) show ?thesis by auto
qed

theorem notification_shifts_registration_witness:
  "let web = sample_proxy ''web'' 8080; api = sample_proxy ''api'' 9090;
       ok = \<lparr>msg_type = MsgTypeNewProxyResp, msg_payload = sample_payload (PNewProxyResponse
              \<lparr>npr_ok = True, npr_message = [], npr_remote_port = 8080\<rparr>)\<rparr>;
       nc = \<lparr>msg_type = MsgTypeNewConn, msg_payload = []\<rparr>;
       st = idle_conn [concat (map (msg_frame sample_msgpack) [ok, nc, ok])]
   in \<exists>st'. register_proxies sample_msgpack [web, api] st
        = Some ([None, Some (ErrText ''proxy api failed: invalid response type'')], st')"
proof -
  let ?web = "sample_proxy ''web'' 8080" and ?api = "sample_proxy ''api'' 9090"
  let ?resp = "\<lparr>npr_ok = True, npr_message = [], npr_remote_port = 8080\<rparr>"
  let ?ok = "\<lparr>msg_type = MsgTypeNewProxyResp, msg_payload = sample_payload (PNewProxyResponse ?resp)\<rparr>"
  let ?nc = "\<lparr>msg_type = MsgTypeNewConn, msg_payload = []\<rparr>"
  let ?st = "idle_conn [concat (map (msg_frame sample_msgpack) [?ok, ?nc, ?ok])]"
  have "list_all (px_sendable sample_msgpack) [?web, ?api]"
    by (simp add: px_sendable_def sample_proxy_def) (intro conjI sample_sendable; simp add: MaxMsgSize_def sample_eval)
  moreover have "list_all (fits sample_msgpack) [?ok, ?nc, ?ok]"
    by (simp add: fits_def MaxMsgSize_def sample_eval)
  moreover have "reg_answer sample_msgpack ?web ?ok = None"
    using sample_new_proxy_response [of ?resp]
    by (simp add: reg_answer_def decode_payload_def del: sample_payload.simps)
  ultimately show ?thesis
    using notification_shifts_registration [of ?st sample_msgpack "[?web]" ?api "[]" "[?ok]" ?nc "[]" ?ok] idle_conn_up
    by (auto simp: Let_def live_avail_def idle_conn_closed proxy_error_def sample_proxy_def simp del: sample_payload.simps)
qed

text \<open>
  C23: The delays between failed attempts double from one second to at most sixty: after \<open>n\<close> failures in
  a row the client has slept 1, 2, 4, ..., 32, 60, 60, ... seconds; and a successful attempt resets
  the delay to one second.
\<close>
theorem reconnect_backoff:
  assumes "\<forall>c. \<exists>e c'. conn_fn c = Some (Done (Some e), c') \<and> \<not> ct_close_ch c' \<and> ct_reconnect c'"
  shows "(\<exists>r. run_iters n conn_fn sleep (run_start c) = Some r
        \<and> run_sleeps r = map (\<lambda>i. min (2 ^ i) 60 * 1000000000) [0..<n])
    \<and> backoff None r0 = r0\<lparr>run_failures := 0, run_delay := 1000000000\<rparr>"
proof -
  have "run_delay (run_start c) = backoff_delay (run_failures (run_start c))"
    by (simp add: run_start_def min_delay_def backoff_delay_def)
  with run_iters_fail [of conn_fn "run_start c" n sleep] assms show ?thesis
    by (auto simp: run_start_def backoff_delay_def second_def backoff_def min_delay_def)
qed

theorem reconnect_backoff_witness:
  "\<exists>r. run_iters 8 (\<lambda>c. Some (Done (Some EOF), fresh_client sample_client_config [])) (\<lambda>c. c)
        (run_start (fresh_client sample_client_config [])) = Some r
      \<and> run_sleeps r = map (\<lambda>i. i * 1000000000) [1, 2, 4, 8, 16, 32, 60, 60]"
proof -
  have "[0..<8] = [0, 1, 2, 3, 4, 5, 6, 7 :: nat]" by (simp add: upt_rec)
  with reconnect_backoff [of "\<lambda>c. Some (Done (Some EOF), fresh_client sample_client_config [])" 8 "\<lambda>c. c"
      "fresh_client sample_client_config []"] show ?thesis
    by (simp add: fresh_client_def)
qed

text \<open>
  \<open>Stop\<close> during the sleep between two attempts does not stop the client: the wait group can be
  empty, so that \<open>Stop\<close> returns, and yet \<open>Run\<close> makes the next attempt, and only returns when that
  attempt has ended.
\<close>
theorem stop_during_backoff_connects:
  assumes "conn_fn c = Some (Done (Some e), c1)" and "\<not> ct_close_ch c1" and "ct_reconnect c1"
    and "client_stop c1 = Done c2"
    and "conn_fn c2 = Some (Done err, c3)" and "setup_of c3 = setup_of c2"
  shows "ct_wg c2 = ct_wg c1
    \<and> (\<exists>r. run conn_fn (\<lambda>c. case client_stop c of Done c' \<Rightarrow> c' | Panic m \<Rightarrow> c) c = Some (Done (), r) \<and> run_client r = c3)"
proof -
  let ?sleep = "\<lambda>c. case client_stop c of Done c' \<Rightarrow> c' | Panic m \<Rightarrow> c"
  let ?r1 = "backoff (Some e) ((run_start c)\<lparr>run_client := c1\<rparr>)"
  let ?r2 = "?r1\<lparr>run_client := c2, run_sleeps := run_sleeps ?r1 @ [run_delay ?r1]\<rparr>"
  have c2: "ct_wg c2 = ct_wg c1" "ct_close_ch c2"
    using assms(4) by (auto simp: client_stop_def close_sess_def Let_def split: if_splits option.splits)
  with assms(6) have "ct_close_ch c3" by (simp add: setup_of_def)
  have "run_iter conn_fn ?sleep (run_start c) = Some (None, ?r2)"
    using assms(1-4) by (simp add: run_iter_def run_start_def Let_def)
  then have "run conn_fn ?sleep c = go_loop (run_iter conn_fn ?sleep) ?r2"
    unfolding run_def by (rule go_loop_again)
  also have "run_iter conn_fn ?sleep ?r2 = Some (Some (Done ()), backoff err (?r2\<lparr>run_client := c3\<rparr>))"
    using assms(5) \<open>ct_close_ch c3\<close> by (simp add: run_iter_def Let_def)
  then have "go_loop (run_iter conn_fn ?sleep) ?r2 = Some (Done (), backoff err (?r2\<lparr>run_client := c3\<rparr>))"
    by simp
  finally show ?thesis using c2(1) by (simp add: backoff_frame)
qed

theorem stop_during_backoff_connects_witness:
  "let c = fresh_client sample_client_config [];
       attempt = (\<lambda>c. connect sample_msgpack (\<lambda>k d. d) 0 [] (if ct_close_ch c then Inr (Some 1) else Inl EOF)
         (\<lambda>n. Inl EOF) id c)
   in \<exists>r. run attempt (\<lambda>c. case client_stop c of Done c' \<Rightarrow> c' | Panic m \<Rightarrow> c) c = Some (Done (), r)
        \<and> ct_session (run_client r) = Some \<lparr>ss_id = 1, ss_closed = True\<rparr>"
proof -
  let ?c = "fresh_client sample_client_config []"
  let ?attempt = "\<lambda>c. connect sample_msgpack (\<lambda>k d. d) 0 [] (if ct_close_ch c then Inr (Some 1) else Inl EOF)
         (\<lambda>n. Inl EOF) id c"
  obtain c1 where c1: "?attempt ?c = Some (Done (Some EOF), c1)" "\<not> ct_close_ch c1" "ct_reconnect c1" "ct_session c1 = None"
    by (simp add: connect_def fresh_client_def)
  then obtain c2 where c2: "client_stop c1 = Done c2" "ct_close_ch c2"
    by (simp add: client_stop_def close_sess_def)
  then obtain c3 where c3: "?attempt c2 = Some (Done (Some EOF), c3)"
    "ct_session c3 = Some \<lparr>ss_id = 1, ss_closed = True\<rparr>"
    by (simp add: connect_def connect_session_def close_sess_def)
  from stop_during_backoff_connects [of ?attempt, OF c1(1-3) c2(1) c3(1) connect_setup [OF c3(1)]] c3(2)
  show ?thesis by (auto simp: Let_def)
qed

text \<open>
  C17: The keepalive reconnects, and closes the session, exactly when three pings in a row stay
  unanswered, ten seconds after the third of them; with answers until the \<open>n\<close>-th ping and none after
  it that is 55 seconds after the \<open>n\<close>-th tick.
\<close>
theorem keepalive_detects_loss:
  assumes "conn_up (ka_stream k)" and "ping_sendable mp" and "ka_missed k = 0"
    and "set rs \<subseteq> {PongReceived, PongTimeout}"
  shows "(case keepalive mp clock 0 rs k of
      (None, k') \<Rightarrow> \<not> sublist [PongTimeout, PongTimeout, PongTimeout] rs
        \<and> ct_session (ka_client k') = ct_session (ka_client k)
    | (Some (res, u), k') \<Rightarrow> res = KaReconnect
        \<and> (\<exists>xs ys. rs = xs @ [PongTimeout, PongTimeout, PongTimeout] @ ys
            \<and> \<not> sublist [PongTimeout, PongTimeout, PongTimeout] (xs @ [PongTimeout, PongTimeout])
            \<and> u = 15 * (int (length xs) + 3) + 10)
        \<and> ct_session (ka_client k') = map_option (\<lambda>ss. ss\<lparr>ss_closed := True\<rparr>) (ct_session (ka_client k)))
    \<and> fst (keepalive mp clock 0 (replicate n PongReceived @ [PongTimeout, PongTimeout, PongTimeout]) k)
        = Some (KaReconnect, 15 * int n + 55)"
proof
  obtain out k1 where kp: "keepalive mp clock 0 rs k = (out, k1)" by fastforce
  show "case keepalive mp clock 0 rs k of
      (None, k') \<Rightarrow> \<not> sublist [PongTimeout, PongTimeout, PongTimeout] rs
        \<and> ct_session (ka_client k') = ct_session (ka_client k)
    | (Some (res, u), k') \<Rightarrow> res = KaReconnect
        \<and> (\<exists>xs ys. rs = xs @ [PongTimeout, PongTimeout, PongTimeout] @ ys
            \<and> \<not> sublist [PongTimeout, PongTimeout, PongTimeout] (xs @ [PongTimeout, PongTimeout])
            \<and> u = 15 * (int (length xs) + 3) + 10)
        \<and> ct_session (ka_client k') = map_option (\<lambda>ss. ss\<lparr>ss_closed := True\<rparr>) (ct_session (ka_client k))"
    using keepalive_runs [OF assms(1,2,4), where clock = clock and t = 0] assms(3) keepalive_session [OF kp]
    by (cases out) (auto simp: lost_at_def kp)
  show "fst (keepalive mp clock 0 (replicate n PongReceived @ three_misses) k) = Some (KaReconnect, 15 * int n + 55)"
    using keepalive_all_lost [OF assms(1,2), where clock = clock and t = 0 and n = n] assms(3) by simp
qed

theorem keepalive_detects_loss_witness:
  "fst (keepalive sample_msgpack (\<lambda>t. 0) 0 (replicate 2 PongReceived @ [PongTimeout, PongTimeout, PongTimeout])
      \<lparr>ka_stream = idle_conn [], ka_client = fresh_client sample_client_config [], ka_missed = 0\<rparr>)
    = Some (KaReconnect, 85)"
proof -
  have "ping_sendable sample_msgpack"
    unfolding ping_sendable_def
  proof (intro allI sample_sendable)
    fix t :: int64
    show "length (sample_payload (PPing \<lparr>ping_ts = t\<rparr>)) < MaxMsgSize"
      using format_int_length [OF int64_range, of t] by (simp add: pack_str_def MaxMsgSize_def)
  qed
  from keepalive_detects_loss [OF _ this, where n = 2 and rs = "[]" and clock = "\<lambda>t. 0"
      and k = "\<lparr>ka_stream = idle_conn [], ka_client = fresh_client sample_client_config [], ka_missed = 0\<rparr>"]
    idle_conn_up show ?thesis by simp
qed

text \<open>
  C38: In MTMux mode a tunnel whose encryption fails crashes the client: the error of the dial, which is
  nil, is returned with a nil session, and \<open>connect\<close> calls a method of it. All tunnels have been
  closed by then.
\<close>
theorem failed_tunnel_crashes_client:
  assumes "dial addr n = Inr raw" and "t \<in> set raw" and "wrap t = Inl e"
  shows "case connect_mtmux dial wrap mk addr n of (r, closed_conns) \<Rightarrow>
      (\<exists>c'. connect mp hm now rnd r open_stream order c
        = Some (Panic ''invalid memory address or nil pointer dereference'', c'))
      \<and> length closed_conns = length raw"
proof -
  have len: "length (filter (\<lambda>c. case wrap c of Inl e \<Rightarrow> True | Inr w \<Rightarrow> False) raw)
      + length (List.map_filter id (map (\<lambda>c. case wrap c of Inl e \<Rightarrow> None | Inr w \<Rightarrow> Some w) raw)) = length raw"
    by (induction raw) (auto simp: List.map_filter_def split: sum.splits)
  have "None \<in> set (map (\<lambda>c. case wrap c of Inl e \<Rightarrow> None | Inr w \<Rightarrow> Some w) raw)"
    using assms(2,3) by force
  with assms(1) len show ?thesis
    by (simp add: connect_mtmux_def wrap_tunnels_nth connect_def nil_panic_def Let_def)
qed

theorem failed_tunnel_crashes_client_witness:
  "let r = connect_mtmux (\<lambda>addr n. Inr [1, 2, 3 :: nat]) (\<lambda>t. if t = 2 then Inl EOF else Inr t) (\<lambda>ts. Inr 0) ''server:7000'' 3
   in fst r = Inr None \<and> length (snd r) = 3
    \<and> (\<exists>m c'. connect sample_msgpack (\<lambda>k d. d) 0 [] (fst r) (\<lambda>n. Inl EOF) id (fresh_client sample_client_config [])
        = Some (Panic m, c'))"
proof -
  let ?r = "connect_mtmux (\<lambda>addr n. Inr [1, 2, 3 :: nat]) (\<lambda>t. if t = 2 then Inl EOF else Inr t) (\<lambda>ts. Inr 0) ''server:7000'' 3"
  have "fst ?r = Inr None" by (simp add: connect_mtmux_def)
  moreover from failed_tunnel_crashes_client [where dial = "\<lambda>addr n. Inr [1, 2, 3 :: nat]" and addr = "''server:7000''" and n = 3
      and raw = "[1, 2, 3]" and t = 2 and wrap = "\<lambda>t. if t = 2 then Inl EOF else Inr t" and e = EOF
      and mk = "\<lambda>ts. Inr 0" and mp = sample_msgpack and hm = "\<lambda>k d. d" and now = 0 and rnd = "[]"
      and open_stream = "\<lambda>n. Inl EOF" and order = id and c = "fresh_client sample_client_config []"]
  have "length (snd ?r) = 3 \<and> (\<exists>c'. connect sample_msgpack (\<lambda>k d. d) 0 [] (fst ?r) (\<lambda>n. Inl EOF) id
      (fresh_client sample_client_config []) = Some (Panic ''invalid memory address or nil pointer dereference'', c'))"
    by (cases ?r) simp
  ultimately show ?thesis by (auto simp: Let_def)
qed

end
