(* ===== verification/Server_Session.thy ===== *)
theory Server_Session
  imports Server_Registry
begin

text \<open>
  The life of one client connection on the server: the handler always returns, whatever the client
  sends, and what it leaves behind.
\<close>

section \<open>Messages on the control stream\<close>

lemma srv_recv_rank:
  "srv_recv mp i s = Some (Inr m, s1) \<Longrightarrow> conn_rank (sv_streams s1 i) < conn_rank (sv_streams s i)"
  by (auto simp: srv_recv_def dest: recv_live_rank)

lemma srv_send_cin: "srv_send mp i t p s = (e, s1) \<Longrightarrow> cin (sv_streams s1 i) = cin (sv_streams s i)"
  by (auto simp: srv_send_def dest: send_live_cin split: prod.splits)

section \<open>What the control loop leaves alone\<close>

definition ctl_view :: "nat \<Rightarrow> nat \<Rightarrow> server \<Rightarrow> int \<times> (string \<times> nat) list \<times> nat \<times> (nat \<Rightarrow> client) \<times> string \<times> nat \<times> int64 \<times> (nat \<Rightarrow> conn option)" where
  "ctl_view c i s = (sv_wg s, sv_clients s, sv_next_client s, (sv_client s)(c := no_client), cl_id (sv_client s c),
     cl_session (sv_client s c), ActiveClients (sv_stats s), (\<lambda>j. Some (sv_streams s j))(i := None))"

lemma ctl_view_set_stream [simp]: "ctl_view c i (set_stream i st s) = ctl_view c i s"
  by (auto simp: ctl_view_def set_stream_def)

lemma ctl_view_runners [simp]: "ctl_view c i (s\<lparr>sv_runners := r\<rparr>) = ctl_view c i s"
  by (simp add: ctl_view_def)

lemma ctl_view_store: "store_proxy c req s = (p, s1) \<Longrightarrow> ctl_view c i s1 = ctl_view c i s \<and> sv_streams s1 = sv_streams s"
  by (auto simp: store_proxy_def Let_def ctl_view_def IncActiveProxies_def set_client_def)

lemma ctl_view_unstore: "ctl_view c i (unstore_proxy c p req s) = ctl_view c i s \<and> sv_streams (unstore_proxy c p req s) = sv_streams s"
  by (auto simp: unstore_proxy_def Let_def ctl_view_def DecActiveProxies_def set_client_def)

lemma ctl_view_send: "srv_send mp i t p s = (e, s1) \<Longrightarrow> ctl_view c i s1 = ctl_view c i s"
  using srv_send_frame by fastforce

lemma send_snd_view:
  "ctl_view c i (snd (srv_send mp i t p s)) = ctl_view c i s"
  "cin (sv_streams (snd (srv_send mp i t p s)) i) = cin (sv_streams s i)"
  by (metis ctl_view_send srv_send_cin prod.collapse)+

lemma np_commit_view:
  "ctl_view c i (np_commit mp c i req s) = ctl_view c i s
   \<and> cin (sv_streams (np_commit mp c i req s) i) = cin (sv_streams s i)"
proof -
  obtain p s1 where st: "store_proxy c req s = (p, s1)" by fastforce
  obtain e s2 where snd: "srv_send mp i MsgTypeNewProxyResp (npr_success (npq_remote_port req)) s1 = (e, s2)"
    by fastforce
  note facts = ctl_view_store [OF st, of i] ctl_view_send [OF snd, of c] srv_send_cin [OF snd]
    ctl_view_unstore [of c i p req s2]
  show ?thesis using facts by (cases e) (simp_all add: np_commit_def st snd)
qed

lemma np_check_view:
  "np_check mp i msg s = (r, s1) \<Longrightarrow> ctl_view c i s1 = ctl_view c i s \<and> cin (sv_streams s1 i) = cin (sv_streams s i)"
  using send_snd_view by (auto simp: np_check_def split: sum.splits if_splits)

lemma handle_new_proxy_view:
  "ctl_view c i (handle_new_proxy mp listen c i msg s) = ctl_view c i s
   \<and> cin (sv_streams (handle_new_proxy mp listen c i msg s) i) = cin (sv_streams s i)"
proof -
  obtain r s1 where ch: "np_check mp i msg s = (r, s1)" by fastforce
  note v = np_check_view [OF ch, of c]
  show ?thesis
    using v send_snd_view np_commit_view [of c i mp _ s1]
    by (auto simp: handle_new_proxy_def ch split: option.splits)
qed

lemma ctl_view_ping: "ctl_view c i (set_client c ((sv_client s c)\<lparr>cl_last_ping := t\<rparr>) s) = ctl_view c i s"
  by (auto simp: ctl_view_def set_client_def)

lemma control_iter_view:
  assumes "control_iter mp listen now c i s = Some (r, s1)"
  shows "ctl_view c i s1 = ctl_view c i s \<and> (r = None \<longrightarrow> conn_rank (sv_streams s1 i) < conn_rank (sv_streams s i))"
proof -
  from assms obtain res s2 where rc: "srv_recv mp i s = Some (res, s2)"
    by (auto simp: control_iter_def split: option.splits)
  from srv_recv_frame [OF rc] have v: "ctl_view c i s2 = ctl_view c i s" by auto
  show ?thesis
  proof (cases res)
    case (Inl e)
    with assms rc v show ?thesis by (auto simp: control_iter_def)
  next
    case (Inr msg)
    from srv_recv_rank [of mp i s msg s2] rc Inr have rank: "conn_rank (sv_streams s2 i) < conn_rank (sv_streams s i)" by simp
    define s3 where "s3 = set_client c ((sv_client s2 c)\<lparr>cl_last_ping := fst now\<rparr>) s2"
    have s3: "ctl_view c i s3 = ctl_view c i s2" "cin (sv_streams s3 i) = cin (sv_streams s2 i)"
      by (simp_all add: s3_def ctl_view_ping)
    obtain e s4 where snd: "srv_send mp i MsgTypePong (PPong \<lparr>pong_ts = snd now\<rparr>) s3 = (e, s4)" by fastforce
    from ctl_view_send [OF snd, of c] srv_send_cin [OF snd] s3 have s4: "ctl_view c i s4 = ctl_view c i s2"
      "cin (sv_streams s4 i) = cin (sv_streams s2 i)" by simp_all
    from Inr assms rc v rank s4 handle_new_proxy_view [of c i mp listen msg s2] snd show ?thesis
      by (auto simp: control_iter_def Let_def s3_def [symmetric] split: if_splits option.splits)
  qed
qed

lemma handle_control_stream_returns: "\<exists>s1. handle_control_stream mp listen now c i s = Some ((), s1)"
proof -
  have "\<exists>r s1. control_iter mp listen now c i s = Some (r, s1)
      \<and> (r = None \<longrightarrow> conn_rank (sv_streams s1 i) < conn_rank (sv_streams s i))" for s
  proof -
    from srv_recv_returns [of mp i s] have "control_iter mp listen now c i s \<noteq> None"
      by (auto simp: control_iter_def Let_def split: sum.splits prod.splits option.splits)
    with control_iter_view [of mp listen now c i s] show ?thesis by fastforce
  qed
  from go_loop_returns [where iter = "control_iter mp listen now c i", OF this, of s]
  show ?thesis by (auto simp: handle_control_stream_def)
qed

lemma handle_control_stream_view:
  assumes "handle_control_stream mp listen now c i s = Some (r, s1)"
  shows "ctl_view c i s1 = ctl_view c i s"
  using assms unfolding handle_control_stream_def
  by (induction rule: go_loop_induct) (use control_iter_view in fastforce)+

section \<open>What the control loop adds\<close>

text \<open>
  During the control loop of client \<open>c\<close> nothing that was registered before is taken away and no proxy
  that existed before changes: what the loop files under \<open>c\<close> are new proxies, on ports that were free.
\<close>

definition only_adds :: "nat \<Rightarrow> server \<Rightarrow> server \<Rightarrow> bool" where
  "only_adds c s0 s \<longleftrightarrow> map_of (sv_proxies s0) \<subseteq>\<^sub>m map_of (sv_proxies s) \<and> sv_next_proxy s0 \<le> sv_next_proxy s
     \<and> {p. sv_proxy s p \<noteq> sv_proxy s0 p} \<subseteq> {sv_next_proxy s0..}
     \<and> (\<forall>(name, p) \<in> set (cl_proxies (sv_client s c)).
          sv_next_proxy s0 \<le> p \<and> map_of (sv_proxies s0) (px_port (sv_proxy s p)) = None)"

lemma only_adds_set_stream [simp]: "only_adds c s0 (set_stream i st s) = only_adds c s0 s"
  by (simp add: only_adds_def)

lemma only_adds_runners [simp]: "only_adds c s0 (s\<lparr>sv_runners := r\<rparr>) = only_adds c s0 s"
  by (simp add: only_adds_def)

lemma only_adds_ping:
  "only_adds c s0 (set_client c ((sv_client s c)\<lparr>cl_last_ping := t\<rparr>) s) = only_adds c s0 s"
  by (simp add: only_adds_def)

lemma only_adds_store:
  assumes "only_adds c s0 s" and "map_of (sv_proxies s) (npq_remote_port req) = None" and "store_proxy c req s = (p, s1)"
  shows "only_adds c s0 s1 \<and> sv_next_proxy s0 \<le> p \<and> map_of (sv_proxies s0) (npq_remote_port req) = None"
proof -
  note f = store_proxy_fields [OF assms(3)]
  from assms(1,2) have free: "map_of (sv_proxies s0) (npq_remote_port req) = None"
    by (auto simp: only_adds_def map_le_def dom_def)
  have filed: "set (cl_proxies (sv_client s1 c)) \<subseteq> insert (npq_name req, p) (set (cl_proxies (sv_client s c)))"
    using set_update_subset by (simp add: f(12))
  have "map_of (sv_proxies s0) \<subseteq>\<^sub>m map_of (sv_proxies s1)"
    using assms(1) free by (auto simp: only_adds_def f(10) map_le_def)
  moreover have "{q. sv_proxy s1 q \<noteq> sv_proxy s0 q} \<subseteq> {sv_next_proxy s0..}"
    using assms(1) by (auto simp: only_adds_def f(1,11))
  moreover have "\<forall>(name, q) \<in> set (cl_proxies (sv_client s1 c)).
      sv_next_proxy s0 \<le> q \<and> map_of (sv_proxies s0) (px_port (sv_proxy s1 q)) = None"
    using assms(1) filed free by (auto simp: only_adds_def f(1,11))
  ultimately show ?thesis using assms(1) free by (simp add: only_adds_def f(1,2))
qed

lemma only_adds_unstore:
  assumes "only_adds c s0 s" and "sv_next_proxy s0 \<le> p" and "map_of (sv_proxies s0) (npq_remote_port req) = None"
  shows "only_adds c s0 (unstore_proxy c p req s)"
proof -
  have "map_of (sv_proxies s0) \<subseteq>\<^sub>m map_of (sv_proxies (unstore_proxy c p req s))"
    using assms(1,3) by (auto simp: only_adds_def unstore_fields map_le_def dom_def)
  moreover have "{q. sv_proxy (unstore_proxy c p req s) q \<noteq> sv_proxy s0 q} \<subseteq> {sv_next_proxy s0..}"
    using assms(1,2) by (auto simp: only_adds_def unstore_fields)
  moreover have "set (cl_proxies (sv_client (unstore_proxy c p req s) c)) \<subseteq> set (cl_proxies (sv_client s c))"
    by (auto simp: unstore_fields AList.delete_eq)
  then have "\<forall>(name, q) \<in> set (cl_proxies (sv_client (unstore_proxy c p req s) c)).
      sv_next_proxy s0 \<le> q \<and> map_of (sv_proxies s0) (px_port (sv_proxy (unstore_proxy c p req s) q)) = None"
    using assms(1) by (fastforce simp: only_adds_def unstore_fields)
  ultimately show ?thesis using assms(1) by (simp add: only_adds_def unstore_proxy_def Let_def)
qed

lemma only_adds_new_proxy:
  assumes "only_adds c s0 s"
  shows "only_adds c s0 (handle_new_proxy mp listen c i msg s)"
proof -
  obtain r s1 where ch: "np_check mp i msg s = (r, s1)" by fastforce
  from np_check_frame [OF ch] assms have s1: "only_adds c s0 s1" by auto
  have other: "only_adds c s0 (snd (srv_send mp i t p s1))" for t p
    using srv_send_snd [of mp i t p s1] s1 by auto
  show ?thesis
  proof (cases r)
    case None
    with ch s1 show ?thesis by (simp add: handle_new_proxy_def)
  next
    case (Some req)
    with ch have free: "map_of (sv_proxies s1) (npq_remote_port req) = None"
      by (auto simp: np_check_def split: sum.splits if_splits)
    obtain p s2 where st: "store_proxy c req s1 = (p, s2)" by fastforce
    note added = only_adds_store [OF s1 free st]
    obtain e s3 where snd: "srv_send mp i MsgTypeNewProxyResp (npr_success (npq_remote_port req)) s2 = (e, s3)" by fastforce
    from srv_send_frame [OF snd] added have "only_adds c s0 s3" by auto
    with added only_adds_unstore [OF this, of p req] have "only_adds c s0 (np_commit mp c i req s1)"
      by (cases e) (simp_all add: np_commit_def st snd)
    with ch Some other show ?thesis by (auto simp: handle_new_proxy_def split: option.splits)
  qed
qed

lemma only_adds_control:
  assumes "control_iter mp listen now c i s = Some (r, s1)" and "only_adds c s0 s"
  shows "only_adds c s0 s1"
proof -
  from assms(1) obtain res s2 where rc: "srv_recv mp i s = Some (res, s2)"
    by (auto simp: control_iter_def split: option.splits)
  from srv_recv_frame [OF rc] assms(2) have s2: "only_adds c s0 s2" by auto
  show ?thesis
  proof (cases res)
    case (Inl e)
    with assms(1) rc s2 show ?thesis by (simp add: control_iter_def)
  next
    case (Inr msg)
    define s3 where "s3 = set_client c ((sv_client s2 c)\<lparr>cl_last_ping := fst now\<rparr>) s2"
    obtain e s4 where snd: "srv_send mp i MsgTypePong (PPong \<lparr>pong_ts = snd now\<rparr>) s3 = (e, s4)" by fastforce
    from srv_send_frame [OF snd] s2 have "only_adds c s0 s4" by (auto simp: s3_def only_adds_ping)
    with Inr assms(1) rc s2 snd only_adds_new_proxy [OF s2] show ?thesis
      by (auto simp: control_iter_def Let_def s3_def [symmetric] split: if_splits option.splits)
  qed
qed

lemma only_adds_control_stream:
  assumes "handle_control_stream mp listen now c i s = Some (r, s1)" and "only_adds c s0 s"
  shows "only_adds c s0 s1"
  using assms unfolding handle_control_stream_def
  by (induction rule: go_loop_induct) (use only_adds_control in blast)+

section \<open>The end of a client\<close>

text \<open>
  The specification of the end of a client: its ID and the ports of its proxies leave the registries, its
  proxies are closed, its list is emptied, and nothing else changes. \<open>cleanupClient\<close> implements it.
\<close>

definition without_client :: "nat \<Rightarrow> server \<Rightarrow> server" where
  "without_client c s =
     (let owned = map snd (cl_proxies (sv_client s c)) in
      s\<lparr>sv_clients := filter (\<lambda>(cid, d). cid \<noteq> cl_id (sv_client s c)) (sv_clients s),
        sv_client := (sv_client s)(c := (sv_client s c)\<lparr>cl_proxies := []\<rparr>),
        sv_proxies := filter (\<lambda>(port, p). port \<notin> px_port ` sv_proxy s ` set owned) (sv_proxies s),
        sv_proxy := (\<lambda>p. if p \<in> set owned then (sv_proxy s p)\<lparr>px_close_ch := True, px_listening := False\<rparr> else sv_proxy s p)\<rparr>)"

lemma cleanup_proxies_filter:
  "sv_proxies (cleanup_proxies ps s) = filter (\<lambda>(port, p). port \<notin> px_port ` sv_proxy s ` set (map snd ps)) (sv_proxies s)"
proof (induction ps arbitrary: s)
  case (Cons np ps)
  obtain name p where np: "np = (name, p)" by (cases np)
  define s3 where "s3 = (proxy_close p s)\<lparr>sv_proxies := AList.delete (px_port (sv_proxy s p)) (sv_proxies s),
      sv_stats := DecActiveProxies (sv_stats s)\<rparr>"
  have step: "cleanup_proxies (np # ps) s = cleanup_proxies ps s3" by (simp add: np s3_def Let_def)
  have ports: "px_port (sv_proxy s3 q) = px_port (sv_proxy s q)" for q by (simp add: s3_def)
  have "sv_proxies s3 = filter (\<lambda>(port, q). port \<noteq> px_port (sv_proxy s p)) (sv_proxies s)"
    by (simp add: s3_def AList.delete_eq case_prod_unfold eq_commute)
  then show ?case unfolding step Cons.IH
    by (simp add: np ports image_image conj_commute case_prod_unfold)
qed simp

lemma cleanup_listening: "sv_listening (cleanup_proxies ps s) = sv_listening s"
  by (induction ps s rule: cleanup_proxies.induct) (simp_all add: Let_def proxy_close_def)

lemma cleanup_client_spec: "\<exists>st. cleanup_client c s = (without_client c s)\<lparr>sv_stats := st\<rparr>"
proof (intro exI [of _ "sv_stats (cleanup_client c s)"] server.equality)
  show "sv_listening (cleanup_client c s) = sv_listening ((without_client c s)\<lparr>sv_stats := sv_stats (cleanup_client c s)\<rparr>)"
    by (simp add: cleanup_client_def without_client_def set_client_def cleanup_listening Let_def)
  show "sv_clients (cleanup_client c s) = sv_clients ((without_client c s)\<lparr>sv_stats := sv_stats (cleanup_client c s)\<rparr>)"
    by (simp add: without_client_def Let_def AList.delete_eq case_prod_unfold eq_commute)
  show "sv_proxies (cleanup_client c s) = sv_proxies ((without_client c s)\<lparr>sv_stats := sv_stats (cleanup_client c s)\<rparr>)"
    by (simp add: without_client_def Let_def cleanup_proxies_filter)
  show "sv_proxy (cleanup_client c s) = sv_proxy ((without_client c s)\<lparr>sv_stats := sv_stats (cleanup_client c s)\<rparr>)"
    by (simp add: without_client_def Let_def cleanup_proxies_heap fun_eq_iff)
  show "sv_client (cleanup_client c s) = sv_client ((without_client c s)\<lparr>sv_stats := sv_stats (cleanup_client c s)\<rparr>)"
    by (simp add: without_client_def Let_def fun_eq_iff)
qed (simp_all add: without_client_def Let_def)

section \<open>The end of a connection\<close>

lemma cleanup_proxies_clients:
  "ActiveClients (sv_stats (cleanup_proxies ps s)) = ActiveClients (sv_stats s)"
  by (induction ps s rule: cleanup_proxies.induct) (simp_all add: Let_def DecActiveProxies_def)

lemma register_client_counts:
  "register_client cid i now s = (c, s1) \<Longrightarrow>
     sv_wg s1 = sv_wg s \<and> ActiveClients (sv_stats s1) = ActiveClients (sv_stats s)"
  by (auto simp: register_client_def Let_def set_client_def close_session_def set_stream_def cleanup_proxies_clients
      split: option.splits)

lemma conn_authenticated_simps [simp]:
  "sv_wg (conn_authenticated s) = sv_wg s" "sv_clients (conn_authenticated s) = sv_clients s"
  "sv_client (conn_authenticated s) = sv_client s"
  "ActiveClients (sv_stats (conn_authenticated s)) = ActiveClients (sv_stats s) + 1"
  by (simp_all add: conn_authenticated_def IncActiveClients_def)

lemma conn_finished_fields:
  "sv_wg (conn_finished c i s) = sv_wg s - 1" "sv_clients (conn_finished c i s) = sv_clients (cleanup_client c s)"
  "sv_client (conn_finished c i s) = sv_client (cleanup_client c s)"
  "sv_proxy (conn_finished c i s) = sv_proxy (cleanup_client c s)"
  "sv_proxies (conn_finished c i s) = sv_proxies (cleanup_client c s)"
  "ActiveClients (sv_stats (conn_finished c i s)) = ActiveClients (sv_stats s) - 1"
  "closed (sv_streams (conn_finished c i s) i)"
  by (simp_all add: conn_finished_def Let_def conn_done_def DecActiveClients_def cleanup_proxies_clients
      close_session_def conn_close_def)

lemma handle_connection_refused:
  assumes "handle_auth mp hm now i s = Some (out, s0)" and "case out of Done (Inr c) \<Rightarrow> False | _ \<Rightarrow> True"
    and "s0 = (set_stream i st s)\<lparr>sv_auth := au\<rparr>"
  shows "\<exists>s1. handle_connection mp hm listen now now' i s = Some s1 \<and> sv_wg s1 = sv_wg s - 1
    \<and> sv_stats s1 = sv_stats s \<and> sv_clients s1 = sv_clients s \<and> sv_client s1 = sv_client s
    \<and> sv_proxies s1 = sv_proxies s \<and> sv_proxy s1 = sv_proxy s \<and> {j. sv_streams s1 j \<noteq> sv_streams s j} \<subseteq> {i}
    \<and> (case out of Panic m \<Rightarrow> True | Done r \<Rightarrow> closed (sv_streams s1 i))"
  using assms
  by (auto simp: handle_connection_def handle_session_def conn_done_def close_session_def conn_close_def set_stream_def
      split: outcome.splits sum.splits)

lemma handle_connection_accepted:
  assumes "handle_auth mp hm now i s = Some (Done (Inr c), s0)"
  shows "\<exists>s1 s2. handle_control_stream mp listen now' c i (conn_authenticated s0) = Some ((), s2)
    \<and> ctl_view c i s2 = ctl_view c i (conn_authenticated s0)
    \<and> handle_connection mp hm listen now now' i s = Some s1 \<and> s1 = conn_finished c i s2"
proof -
  obtain s2 where s2: "handle_control_stream mp listen now' c i (conn_authenticated s0) = Some ((), s2)"
    using handle_control_stream_returns by blast
  with handle_control_stream_view [OF s2] assms show ?thesis
    by (simp add: handle_connection_def handle_session_def)
qed

text \<open>What is left of the state when an old client of the ID, if there is one, is gone.\<close>

definition without_old :: "string \<Rightarrow> server \<Rightarrow> server" where
  "without_old cid s = (case map_of (sv_clients s) cid of None \<Rightarrow> s | Some old \<Rightarrow> without_client old s)"

lemma without_client_frame:
  "sv_next_proxy (without_client c s) = sv_next_proxy s" "sv_next_client (without_client c s) = sv_next_client s"
  "sv_streams (without_client c s) = sv_streams s" "cl_session (sv_client (without_client c s) d) = cl_session (sv_client s d)"
  by (simp_all add: without_client_def Let_def)

lemma without_old_set_stream:
  "without_old cid ((set_stream i st s)\<lparr>sv_auth := au\<rparr>) = (set_stream i st (without_old cid s))\<lparr>sv_auth := au\<rparr>"
  by (simp add: without_old_def without_client_def set_stream_def Let_def cong: if_cong split: option.splits)

lemma register_client_spec:
  assumes "register_client cid i now s = (c, s1)"
  shows "map_of (sv_clients s1) = (map_of (sv_clients (without_old cid s)))(cid \<mapsto> c)"
    "sv_client s1 = (sv_client (without_old cid s))(c := \<lparr>cl_id = cid, cl_session = i, cl_proxies = [], cl_last_ping = now\<rparr>)"
    "sv_proxies s1 = sv_proxies (without_old cid s)" "sv_proxy s1 = sv_proxy (without_old cid s)"
    "sv_next_proxy s1 = sv_next_proxy s"
    "{j. sv_streams s1 j \<noteq> sv_streams s j} \<subseteq> (\<lambda>old. cl_session (sv_client s old)) ` set_option (map_of (sv_clients s) cid)"
proof -
  define t where "t = (case map_of (sv_clients s) cid of None \<Rightarrow> s
      | Some old \<Rightarrow> (let s0 = cleanup_client old s in close_session (cl_session (sv_client s0 old)) s0))"
  have reg: "s1 = ((set_client (sv_next_client t) \<lparr>cl_id = cid, cl_session = i, cl_proxies = [], cl_last_ping = now\<rparr> t)
      \<lparr>sv_next_client := Suc (sv_next_client t)\<rparr>)\<lparr>sv_clients := AList.update cid (sv_next_client t) (sv_clients t)\<rparr>"
    "c = sv_next_client t"
    using assms unfolding register_client_def Let_def t_def [symmetric, unfolded Let_def] by auto
  have fields: "sv_clients t = sv_clients (without_old cid s) \<and> sv_client t = sv_client (without_old cid s)
    \<and> sv_proxies t = sv_proxies (without_old cid s) \<and> sv_proxy t = sv_proxy (without_old cid s)
    \<and> sv_next_proxy t = sv_next_proxy s
    \<and> {j. sv_streams t j \<noteq> sv_streams s j} \<subseteq> (\<lambda>old. cl_session (sv_client s old)) ` set_option (map_of (sv_clients s) cid)"
  proof (cases "map_of (sv_clients s) cid")
    case (Some old)
    from cleanup_client_spec [of old s] obtain st where cl: "cleanup_client old s = (without_client old s)\<lparr>sv_stats := st\<rparr>" by blast
    have "t = close_session (cl_session (sv_client s old)) ((without_client old s)\<lparr>sv_stats := st\<rparr>)"
      by (simp add: t_def Some Let_def cl without_client_frame)
    with Some show ?thesis
      by (auto simp: without_old_def without_client_frame close_session_def split: if_splits)
  qed (simp_all add: t_def without_old_def)
  show "map_of (sv_clients s1) = (map_of (sv_clients (without_old cid s)))(cid \<mapsto> c)"
    "sv_client s1 = (sv_client (without_old cid s))(c := \<lparr>cl_id = cid, cl_session = i, cl_proxies = [], cl_last_ping = now\<rparr>)"
    "sv_proxies s1 = sv_proxies (without_old cid s)" "sv_proxy s1 = sv_proxy (without_old cid s)"
    "sv_next_proxy s1 = sv_next_proxy s"
    "{j. sv_streams s1 j \<noteq> sv_streams s j} \<subseteq> (\<lambda>old. cl_session (sv_client s old)) ` set_option (map_of (sv_clients s) cid)"
    using fields by (simp_all add: reg set_client_def)
qed

text \<open>The whole session of an accepted client, from its registration to its end.\<close>

lemma accepted_session_frame:
  assumes "register_client cid i now s = (c, s0)"
    and "handle_control_stream mp listen now' c i (conn_authenticated s0) = Some ((), s2)"
  defines "t \<equiv> without_old cid s" and "s1 \<equiv> conn_finished c i s2"
  shows "map_of (sv_clients s1) = (map_of (sv_clients t))(cid := None)"
    "sv_client s1 = (sv_client t)(c := sv_client s1 c)"
    "map_of (sv_proxies t) \<subseteq>\<^sub>m map_of (sv_proxies s1)"
    "{p. sv_proxy s1 p \<noteq> sv_proxy t p} \<subseteq> {sv_next_proxy s..}"
    "{j. sv_streams s1 j \<noteq> sv_streams s j} \<subseteq> {i} \<union> (\<lambda>old. cl_session (sv_client s old)) ` set_option (map_of (sv_clients s) cid)"
proof -
  note reg = register_client_spec [OF assms(1), folded t_def]
  from cleanup_client_spec [of c s2] obtain st where cl: "cleanup_client c s2 = (without_client c s2)\<lparr>sv_stats := st\<rparr>" by blast
  have fin: "sv_clients s1 = sv_clients (without_client c s2)" "sv_client s1 = sv_client (without_client c s2)"
    "sv_proxies s1 = sv_proxies (without_client c s2)" "sv_proxy s1 = sv_proxy (without_client c s2)"
    by (simp_all only: s1_def conn_finished_fields cl) simp_all
  have streams: "sv_streams s1 j = sv_streams s2 j" if "j \<noteq> i" for j
    using that by (simp add: s1_def conn_finished_def conn_done_def close_session_def Let_def)
  from handle_control_stream_view [OF assms(2)] reg(2) have v: "sv_clients s2 = sv_clients s0"
    "(sv_client s2)(c := no_client) = (sv_client s0)(c := no_client)" "cl_id (sv_client s2 c) = cid"
    by (simp_all add: ctl_view_def)
  have view: "sv_clients s2 = sv_clients s0" "(sv_client s2)(c := x) = (sv_client s0)(c := x)"
    "cl_id (sv_client s2 c) = cid" for x
    using v(1,3) arg_cong [OF v(2), of "\<lambda>f. f(c := x)"] by simp_all
  have others: "sv_streams s2 j = sv_streams s0 j" if "j \<noteq> i" for j
  proof -
    from handle_control_stream_view [OF assms(2)] have "((\<lambda>j. Some (sv_streams s2 j))(i := None)) j = ((\<lambda>j. Some (sv_streams s0 j))(i := None)) j"
      by (simp add: ctl_view_def conn_authenticated_def)
    with that show ?thesis by simp
  qed
  have "only_adds c s0 (conn_authenticated s0)"
    using reg(2) by (simp add: only_adds_def conn_authenticated_def)
  from only_adds_control_stream [OF assms(2) this] have adds: "only_adds c s0 s2" .
  show "map_of (sv_clients s1) = (map_of (sv_clients t))(cid := None)"
    using reg(1) by (simp add: fin(1) without_client_def Let_def view map_of_filter_neq)
  show "sv_client s1 = (sv_client t)(c := sv_client s1 c)"
    using view(2) reg(2) by (simp add: fin(2) without_client_def Let_def)
  show "map_of (sv_proxies t) \<subseteq>\<^sub>m map_of (sv_proxies s1)"
    using adds by (fastforce simp: fin(3) without_client_def Let_def only_adds_def map_le_def dom_def map_of_filter_key
        reg(3) [symmetric])
  show "{p. sv_proxy s1 p \<noteq> sv_proxy t p} \<subseteq> {sv_next_proxy s..}"
    using adds by (fastforce simp: fin(4) without_client_def Let_def only_adds_def reg(4,5) [symmetric] split: if_splits)
  show "{j. sv_streams s1 j \<noteq> sv_streams s j} \<subseteq> {i} \<union> (\<lambda>old. cl_session (sv_client s old)) ` set_option (map_of (sv_clients s) cid)"
    using reg(6) streams others by fastforce
qed

text \<open>
  C5: A connection always ends: whatever bytes the client sends before its stream ends, cut as the network
  likes, and whatever the listens and the writes answer, the handler returns, takes itself out of the wait
  group and leaves the counter of active clients as it was. A client that was refused has changed nothing
  but its own stream. A client that was accepted is gone: its stream is closed, its ID and the ports of its
  proxies are free, and the proxies it had are closed and no longer listen. And nothing else was touched,
  apart from the old client that was filed under the same ID (\<open>without_old\<close> is the state without it):
  the other IDs and clients, every port that was registered before, every proxy that existed before, and
  every stream but its own and the old client's are as they were.
\<close>
theorem connection_always_ends:
  "\<exists>s1. handle_connection mp hm listen now now' i s = Some s1 \<and> sv_wg s1 = sv_wg s - 1
    \<and> ActiveClients (sv_stats s1) = ActiveClients (sv_stats s)
    \<and> (case handle_auth mp hm now i s of
         Some (Done (Inr c), s0) \<Rightarrow>
           closed (sv_streams s1 i)
           \<and> (\<exists>s2. handle_control_stream mp listen now' c i (conn_authenticated s0) = Some ((), s2)
               \<and> list_all (\<lambda>(name, p). px_close_ch (sv_proxy s1 p) \<and> \<not> px_listening (sv_proxy s1 p)
                     \<and> map_of (sv_proxies s1) (px_port (sv_proxy s2 p)) = None) (cl_proxies (sv_client s2 c))
               \<and> sv_client s1 c = (sv_client s2 c)\<lparr>cl_proxies := []\<rparr>)
           \<and> (let cid = cl_id (sv_client s0 c); t = without_old cid s in
               map_of (sv_clients s1) = (map_of (sv_clients t))(cid := None)
               \<and> sv_client s1 = (sv_client t)(c := sv_client s1 c)
               \<and> map_of (sv_proxies t) \<subseteq>\<^sub>m map_of (sv_proxies s1)
               \<and> {p. sv_proxy s1 p \<noteq> sv_proxy t p} \<subseteq> {sv_next_proxy s..}
               \<and> {j. sv_streams s1 j \<noteq> sv_streams s j}
                   \<subseteq> {i} \<union> (\<lambda>old. cl_session (sv_client s old)) ` set_option (map_of (sv_clients s) cid))
       | Some (out, s0) \<Rightarrow>
           sv_clients s1 = sv_clients s \<and> sv_client s1 = sv_client s \<and> sv_proxies s1 = sv_proxies s
           \<and> sv_proxy s1 = sv_proxy s \<and> {j. sv_streams s1 j \<noteq> sv_streams s j} \<subseteq> {i}
           \<and> (case out of Panic m \<Rightarrow> True | Done r \<Rightarrow> closed (sv_streams s1 i)))"
proof -
  obtain out s0 where au: "handle_auth mp hm now i s = Some (out, s0)" using handle_auth_returns by blast
  show ?thesis
  proof (cases rule: handle_auth_cases [OF au, case_names refused accepted])
    case (refused st a)
    from handle_connection_refused [OF au refused, of listen now'] au refused(1) show ?thesis
      by (auto split: outcome.splits sum.splits)
  next
    case (accepted st req a s3 c)
    note au' = au [unfolded accepted(1)]
    from handle_connection_accepted [OF au', of listen now'] obtain s1 s2 where
      s2: "handle_control_stream mp listen now' c i (conn_authenticated s0) = Some ((), s2)"
      and view: "ctl_view c i s2 = ctl_view c i (conn_authenticated s0)"
      and s1: "handle_connection mp hm listen now now' i s = Some s1" "s1 = conn_finished c i s2" by blast
    from register_client_counts [OF accepted(5)] accepted(4)
    have s0: "sv_wg s0 = sv_wg s" "ActiveClients (sv_stats s0) = ActiveClients (sv_stats s)"
      by (simp_all add: set_stream_def)
    from view have v: "sv_wg s2 = sv_wg s0" "ActiveClients (sv_stats s2) = ActiveClients (sv_stats s0) + 1"
      by (simp_all add: ctl_view_def)
    note cl = cleanup_client_complete [of s2 c, unfolded Let_def]
    from cl have proxies: "list_all (\<lambda>(name, p). px_close_ch (sv_proxy s1 p) \<and> \<not> px_listening (sv_proxy s1 p)
        \<and> map_of (sv_proxies s1) (px_port (sv_proxy s2 p)) = None) (cl_proxies (sv_client s2 c))"
      by (force simp: s1(2) conn_finished_fields list_all_iff dom_def set_eq_iff)
    have own: "sv_client s1 c = (sv_client s2 c)\<lparr>cl_proxies := []\<rparr>" using cl by (simp add: s1(2) conn_finished_fields)
    have counts: "sv_wg s1 = sv_wg s - 1" "ActiveClients (sv_stats s1) = ActiveClients (sv_stats s)"
      "closed (sv_streams s1 i)"
      using v s0 by (simp_all add: s1(2) conn_finished_fields)
    let ?cid = "take 8 (auth_token req) @ ''...''"
    have cid: "cl_id (sv_client s0 c) = ?cid" using register_client_fields(2) [OF accepted(5)] by simp
    note frame = accepted_session_frame [OF accepted(5) s2, folded s1(2)]
    have start: "without_old ?cid s3 = (set_stream i st (without_old ?cid s))\<lparr>sv_auth := a\<rparr>"
      unfolding accepted(4) by (rule without_old_set_stream)
    have streams: "{j. sv_streams s1 j \<noteq> sv_streams s j}
        \<subseteq> {i} \<union> (\<lambda>old. cl_session (sv_client s old)) ` set_option (map_of (sv_clients s) ?cid)"
      using frame(5) accepted(4) by (auto split: if_splits)
    show ?thesis
      using s2 streams frame(1-4) unfolding start
      by (intro exI [of _ s1]) (simp add: au' s1(1) counts own proxies cid accepted(4))
  qed
qed

end
