(* ===== verification/Client_Session.thy ===== *)
theory Client_Session
  imports Client_Runs
begin

text \<open>
  The life of one connection attempt on the client: it always returns, whatever the server sends, and
  what it leaves behind.
\<close>

section \<open>Every part returns\<close>

lemma auth_recv_returns: "\<exists>err st1. auth_recv mp st = Some (err, st1)"
  using recv_live_returns [of mp st] by (auto simp: auth_recv_def split: sum.splits)

lemma authenticate_returns: "\<exists>err st1. authenticate mp hm now rnd token st = Some (err, st1)"
  using auth_recv_returns by (auto simp: authenticate_def split: prod.splits option.splits)

lemma register_proxy_returns: "\<exists>err st1. register_proxy mp px st = Some (err, st1)"
proof -
  obtain err st1 where "reg_send mp px st = (err, st1)" by fastforce
  with recv_live_returns [of mp st1] show ?thesis
    by (cases err) (auto simp: register_proxy_def reg_recv_def split: sum.splits)
qed

lemma register_proxies_returns: "\<exists>errs st1. register_proxies mp pxs st = Some (errs, st1) \<and> length errs = length pxs"
proof (induction pxs arbitrary: st)
  case (Cons px pxs)
  obtain err st1 where "register_proxy mp px st = Some (err, st1)" using register_proxy_returns by blast
  with Cons.IH [of st1] show ?case by auto
qed simp

lemma client_control_stream_returns: "\<exists>st1 c1. client_control_stream mp (st, c) = Some ((), st1, c1)"
proof -
  have "\<exists>r y. client_control_iter mp x = Some (r, y) \<and> (r = None \<longrightarrow> conn_rank (fst y) < conn_rank (fst x))" for x
  proof -
    obtain res st1 where rc: "recv_message mp live_read (fst x) = Some (res, st1)" using recv_live_returns by blast
    show ?thesis by (cases res) (use rc recv_live_rank in \<open>auto simp: client_control_iter_def\<close>)
  qed
  from go_loop_returns [where iter = "client_control_iter mp" and rank = "\<lambda>x. conn_rank (fst x)", OF this, of "(st, c)"]
  show ?thesis by (auto simp: client_control_stream_def)
qed

section \<open>What the control loop leaves alone\<close>

definition loop_view :: "tunnel_client \<Rightarrow> session option \<times> bool \<times> int" where
  "loop_view c = (ct_session c, ct_mtmux_cancel c, ct_wg c - int (length (ct_spawned c)))"

lemma loop_view_dispatch [simp]: "loop_view (dispatch mp m c) = loop_view c"
  using dispatch_fields(11) [of mp m c] by (simp add: loop_view_def dispatch_fields(4,9))

lemma control_stream_view:
  assumes "client_control_stream mp x = Some (r, y)"
  shows "loop_view (snd y) = loop_view (snd x)"
  using assms unfolding client_control_stream_def
  by (induction rule: go_loop_induct) (auto simp: client_control_iter_def split: option.splits sum.splits)

section \<open>The end of an attempt\<close>

definition attempt_over :: "nat \<Rightarrow> conn result \<Rightarrow> go_error option \<Rightarrow> tunnel_client \<Rightarrow> tunnel_client \<Rightarrow> bool" where
  "attempt_over s opened err c c1 \<longleftrightarrow>
     ct_session c1 = Some \<lparr>ss_id = s, ss_closed = True\<rparr>
   \<and> (case opened of
        Inl e \<Rightarrow> err = Some e
      | Inr st \<Rightarrow> \<exists>st1. ct_ctrl c1 = Some st1 \<and> closed st1)
   \<and> ct_wg c1 - ct_wg c = int (length (ct_spawned c1)) - int (length (ct_spawned c)) + (if err = None then 1 else 0)
   \<and> (if err = None then ct_conn_close_ch c1 \<and> \<not> ct_mtmux_cancel c1 else \<not> ct_conn_close_ch c1)"

lemma connect_session_over:
  assumes "ct_session c = Some \<lparr>ss_id = s, ss_closed = False\<rparr>" and "\<not> ct_conn_close_ch c"
  shows "\<exists>err c1. connect_session mp hm now rnd opened order c = Some (Done err, c1) \<and> attempt_over s opened err c c1"
proof (cases opened)
  case (Inl e)
  with assms show ?thesis by (simp add: connect_session_def attempt_over_def close_sess_def)
next
  case (Inr st)
  obtain err st1 where au: "authenticate mp hm now rnd (cc_token (ct_config c)) st = Some (err, st1)"
    using authenticate_returns by blast
  show ?thesis
  proof (cases err)
    case (Some e)
    with Inr au assms show ?thesis
      by (simp add: connect_session_def attempt_over_def close_sess_def close_ctrl_def conn_close_def)
  next
    case None
    obtain errs st2 where reg: "register_proxies mp (order (map snd (ct_proxies c))) st1 = Some (errs, st2)"
      using register_proxies_returns by blast
    let ?c = "c\<lparr>ct_ctrl := Some st2, ct_wg := ct_wg c + 1\<rparr>"
    obtain st3 c2 where ctl: "client_control_stream mp (st2, ?c) = Some ((), st3, c2)"
      using client_control_stream_returns by blast
    from control_stream_view [OF ctl] have "ct_session c2 = ct_session c"
      "ct_wg c2 - int (length (ct_spawned c2)) = ct_wg c + 1 - int (length (ct_spawned c))"
      by (simp_all add: loop_view_def)
    then have "attempt_over s opened None c (connect_end st3 c2)"
      using Inr assms by (simp add: attempt_over_def connect_end_def close_sess_def close_ctrl_def conn_close_def Let_def)
    with Inr au None reg ctl show ?thesis by (simp add: connect_session_def)
  qed
qed

text \<open>
  C6: An attempt of the client always ends: whatever the server sends before its stream ends, cut as the network likes, and
  whichever write fails, \<open>connect\<close> returns. Without a session it returns the error of the dial (or
  panics on the nil session of failed tunnels); with one, the session and the control stream are closed
  afterwards, the wait group has grown by the goroutines started (a keepalive exactly if the client was
  accepted, and then it has been told to stop), and the configuration, the proxies and the flags of
  \<open>Run\<close> are what they were.
\<close>
theorem attempt_always_ends:
  "\<exists>out c1. connect mp hm now rnd setup open_stream order c = Some (out, c1) \<and> setup_of c1 = setup_of c
    \<and> (case setup of
         Inl e \<Rightarrow> out = Done (Some e) \<and> ct_session c1 = ct_session c \<and> ct_wg c1 = ct_wg c
       | Inr None \<Rightarrow> (\<exists>m. out = Panic m)
       | Inr (Some s) \<Rightarrow> \<exists>err. out = Done err \<and> attempt_over s (open_stream s) err c c1)"
proof (cases "setup")
  case (Inl e)
  then show ?thesis by (simp add: connect_def Let_def)
next
  case (Inr o')
  show ?thesis
  proof (cases o')
    case None
    with Inr show ?thesis by (simp add: connect_def Let_def nil_panic_def)
  next
    case (Some s)
    let ?c = "c\<lparr>ct_pong_ch := False, ct_conn_close_ch := False, ct_session := Some \<lparr>ss_id = s, ss_closed = False\<rparr>,
      ct_mtmux_cancel := cc_mtmux_enabled (ct_config c)\<rparr>"
    obtain err c1 where c1: "connect_session mp hm now rnd (open_stream s) order ?c = Some (Done err, c1)"
      "attempt_over s (open_stream s) err ?c c1"
      using connect_session_over [of ?c s mp hm now rnd "open_stream s" order] by auto
    from connect_session_setup [OF c1(1)] have "setup_of c1 = setup_of c" by simp
    moreover from c1(2) have "attempt_over s (open_stream s) err c c1" by (simp add: attempt_over_def)
    ultimately show ?thesis using Inr Some c1(1) by (simp add: connect_def Let_def)
  qed
qed

end
