(* ===== verification/Layers.thy ===== *)
theory Layers
  imports Server_Registry Client_Runs Quic
begin

text \<open>
  The transport and the encryption that client and server build from their configurations, side by side:
  when the two fit together, and what a listener that cannot listen does to the server.
\<close>

section \<open>Layers of the two sides\<close>

lemmas layer_defs = server_layers_def client_layers_def transport_new_def transport_new_with_quic_def
  new_quic_transport_def new_quic_transport_with_config_def crypto_new_def Let_def

lemma tls_client_refused:
  assumes "\<not> cc_skip_verify c"
  shows "\<exists>e closed. wrap_conn env sha256 False (TLSCrypto (Some c) None) = (Done (Inl e), closed)"
  using assms
  by (auto simp: wrap_defs wrap_client_def client_handshake_def empty_tls_config_def Let_def split: sum.splits)

lemma client_layers_types:
  assumes "client_layers cfg = (tr, cr)"
  shows "transport_type tr = (if cc_transport cfg \<in> {''gnet'', ''quic''} then cc_transport cfg else ''net'')"
    and "crypto_type cr = (if cc_transport cfg = ''quic'' then ''none''
      else if cc_crypto cfg \<in> {''chacha20'', ''none''} then cc_crypto cfg else ''tls'')"
  using assms by (auto simp: layer_defs split: if_splits)

lemma server_layers_types:
  assumes "server_layers env now cfg = Inr (tr, cr)"
  shows "transport_type tr = (if sc_transport cfg \<in> {''gnet'', ''quic''} then sc_transport cfg else ''net'')"
    and "crypto_type cr = (if sc_transport cfg = ''quic'' then ''none''
      else if sc_crypto cfg \<in> {''chacha20'', ''none''} then sc_crypto cfg else ''tls'')"
  using assms by (auto simp: layer_defs split: if_splits sum.splits)

lemma plain_layers_wrap:
  assumes "server_layers env now scfg = Inr (str, scr)" and "client_layers ccfg = (ctr, ccr)"
    and "sc_transport scfg = cc_transport ccfg" and "sc_crypto scfg = cc_crypto ccfg"
    and "sc_chacha20_psk scfg = cc_chacha20_psk ccfg" and "crypto_type scr \<noteq> ''tls''"
  shows "wrap_conn env sha256 True scr = wrap_conn env' sha256 False ccr"
  using assms
  by (auto simp: layer_defs wrap_defs server_crypto_config_def split: if_splits sum.splits)

text \<open>The layer of a type, and the key of the encrypted connection.\<close>

fun_cases chacha_typeE: "crypto_type cr = ''chacha20''"
fun_cases quic_typeE: "transport_type tr = ''quic''"

lemma chacha_layers_key:
  assumes "server_layers env now cfg = Inr (tr, cr)" and "crypto_type cr = ''chacha20''"
    and "length (sha256 (str_bytes (sc_chacha20_psk cfg))) = 32"
  shows "wrap_conn env sha256 True cr = (Done (Inr (ChaChaConn (sha256 (str_bytes (sc_chacha20_psk cfg))))), False)"
  using assms(2)
proof (rule chacha_typeE)
  fix c
  assume "cr = ChaCha20Crypto c"
  with assms(1,3) show ?thesis
    by (auto simp: layer_defs wrap_defs server_crypto_config_def derive_key_def split: if_splits sum.splits)
qed

text \<open>A QUIC connection never asks for less than TLS 1.3, whichever configuration it starts from.\<close>

lemma quic_tls_version:
  assumes "server_layers env now scfg = Inr (str, scr)" and "transport_type str = ''quic''"
    and "client_layers ccfg = (ctr, ccr)" and "transport_type ctr = ''quic''"
  obtains s c where "str = QUICTransport s" and "ctr = QUICTransport c"
    and "VersionTLS13 \<le> tls_min_version (quic_client_tls c)"
    and "\<And>conf. qc_tls_config s = Some conf \<Longrightarrow> VersionTLS13 \<le> tls_min_version conf"
proof -
  from assms(2) obtain s where s: "str = QUICTransport s" by (rule quic_typeE)
  from assms(4) obtain c where c: "ctr = QUICTransport c" by (rule quic_typeE)
  from assms(3) c have "VersionTLS13 \<le> tls_min_version (quic_client_tls c)"
    by (auto simp: layer_defs quic_client_tls_def empty_tls_config_def split: if_splits)
  moreover have "VersionTLS13 \<le> tls_min_version conf" if "qc_tls_config s = Some conf" for conf
    using assms(1) s that
    by (auto simp: layer_defs get_server_tls_config_def new_cert_manager_def build_tls_config_def empty_tls_config_def
        split: if_splits sum.splits prod.splits)
  ultimately show thesis using that s c by blast
qed

lemma tls_layers_wrap:
  assumes "client_layers ccfg = (ctr, ccr)" and "crypto_type ccr = ''tls''" and "\<not> cc_tls_skip_verify ccfg"
  shows "\<exists>e closed. wrap_conn env sha256 False ccr = (Done (Inl e), closed)"
  using assms by (auto simp: layer_defs intro!: tls_client_refused split: if_splits)

text \<open>
  C11: Configurations that name the same transport and encryption give both sides the same kind of
  transport and of encryption (no encryption of its own over QUIC, and package net and TLS for names
  that are not known); with the same pre-shared key, both sides wrap a connection in the same way; but
  with TLS the client's wrapping fails unless it skips the verification of the certificate.
\<close>
theorem layers_interoperate:
  assumes "server_layers env now scfg = Inr (str, scr)" and "client_layers ccfg = (ctr, ccr)"
    and "sc_transport scfg = cc_transport ccfg" and "sc_crypto scfg = cc_crypto ccfg"
    and "sc_chacha20_psk scfg = cc_chacha20_psk ccfg"
  shows "transport_type str = transport_type ctr \<and> crypto_type scr = crypto_type ccr
    \<and> (transport_type str = ''quic'' \<longrightarrow> crypto_type scr = ''none'')
    \<and> (if crypto_type scr \<noteq> ''tls'' then wrap_conn env sha256 True scr = wrap_conn env' sha256 False ccr
       else cc_tls_skip_verify ccfg \<or> (\<exists>e closed. wrap_conn env' sha256 False ccr = (Done (Inl e), closed)))"
  using client_layers_types [OF assms(2)] server_layers_types [OF assms(1)] plain_layers_wrap [OF assms]
    tls_layers_wrap [OF assms(2)] assms(3,4)
  by (auto split: if_splits)

theorem layers_interoperate_witness:
  "\<exists>str ctr scr ccr. server_layers sample_tls_env 0 (sample_config\<lparr>sc_transport := ''gnet'', sc_crypto := ''chacha20'',
        sc_chacha20_psk := ''key''\<rparr>) = Inr (str, scr)
    \<and> client_layers (sample_client_config\<lparr>cc_transport := ''gnet'', cc_crypto := ''chacha20'', cc_chacha20_psk := ''key''\<rparr>)
        = (ctr, ccr)
    \<and> transport_type str = ''gnet'' \<and> transport_type ctr = ''gnet''
    \<and> wrap_conn sample_tls_env (\<lambda>bs. take 32 (bs @ replicate 32 0)) True scr
        = wrap_conn sample_tls_env (\<lambda>bs. take 32 (bs @ replicate 32 0)) False ccr"
proof -
  let ?s = "sample_config\<lparr>sc_transport := ''gnet'', sc_crypto := ''chacha20'', sc_chacha20_psk := ''key''\<rparr>"
  let ?c = "sample_client_config\<lparr>cc_transport := ''gnet'', cc_crypto := ''chacha20'', cc_chacha20_psk := ''key''\<rparr>"
  obtain str scr where s: "server_layers sample_tls_env 0 ?s = Inr (str, scr)" "transport_type str = ''gnet''"
    "crypto_type scr = ''chacha20''"
    by (simp add: layer_defs)
  obtain ctr :: "string transport" and ccr where c: "client_layers ?c = (ctr, ccr)" by fastforce
  from layers_interoperate [OF s(1) c, of "\<lambda>bs. take 32 (bs @ replicate 32 0)" sample_tls_env] s c
  show ?thesis by simp
qed

section \<open>A peer that stays silent\<close>

text \<open>
  The streams the handlers are proved to return on are scripts that end. On a stream whose peer sends nothing
  and does not close it, \<open>RecvMessage\<close> never returns, and with it the handler: the code sets no deadline.
\<close>

lemma recv_message_blocks: "rd 4 s = None \<Longrightarrow> recv_message mp rd s = None"
  by (simp add: recv_message_def decode_def LengthSize_def read_full_def read_full_from.simps)

lemma silent_peer_blocks:
  assumes "\<not> g_closed g" and "g_read_buf g = []" and "g_read_ch g = []"
  shows "recv_message mp (gnet_read choice) g = None"
  by (rule recv_message_blocks) (rule gnet_read_blocks [OF assms])

section \<open>Listening\<close>

text \<open>
  With gnet a server whose address is taken looks like one that serves: \<open>Start\<close> blocks in \<open>Accept\<close>
  and reports nothing, where with package net it returns the error.
\<close>

definition listen_result :: "'l result \<Rightarrow> go_error option" where
  "listen_result r = (case r of Inl e \<Rightarrow> Some e | Inr l \<Rightarrow> None)"

lemma gnet_start_hides_failure:
  "server_start cfg (listen_result (gnet_listen (Some e) booted)) ([] :: ((server \<Rightarrow> server) \<times> nat result option) list) s = (None, s\<lparr>sv_listening := True\<rparr>)"
  "server_start cfg (listen_result (net_listen (\<lambda>network a. Inl e) addr)) accepts s = (Some (Some e, False, []), s)"
  by (simp_all add: server_start_def listen_result_def gnet_listen_def net_listen_def)

end
