(* ===== verification/Tunnel.thy ===== *)
theory Tunnel
  imports Server_Registry Client_Runs
begin

text \<open>
  Client and server together: the delivery of what one end of a control stream sent to the other, the
  exchange of a handshake and of a registration, and the pairing of user connections with data streams
  over a session that accepts streams in the order in which they were opened.
\<close>

section \<open>One exchange on a control stream\<close>

text \<open>The bytes written since the connection was in an earlier state, and their arrival at the other end.\<close>

definition new_bytes :: "conn \<Rightarrow> conn \<Rightarrow> bytes" where
  "new_bytes old c = drop (length (sent (cout old))) (sent (cout c))"

definition deliver :: "bytes \<Rightarrow> conn \<Rightarrow> conn" where
  "deliver bs c = c\<lparr>cin := (cin c)\<lparr>segs := segs (cin c) @ [bs]\<rparr>\<rparr>"

lemma deliver_up [simp]: "conn_up (deliver bs c) = conn_up c"
  by (simp add: deliver_def conn_up_def no_faults_def)

lemma deliver_cout [simp]: "cout (deliver bs c) = cout c"
  by (simp add: deliver_def)

lemma deliver_avail: "conn_up c \<Longrightarrow> live_avail (deliver bs c) = live_avail c @ bs"
  by (simp add: deliver_def conn_up_def live_avail_def conn_avail_def in_avail_def)

lemma new_bytes_append: "sent (cout c) = sent (cout old) @ bs \<Longrightarrow> new_bytes old c = bs"
  by (simp add: new_bytes_def)

text \<open>What MessagePack has to do with one payload for the other end to read it back.\<close>

definition carries :: "msgpack \<Rightarrow> (bytes \<Rightarrow> 'a result) \<Rightarrow> byte \<Rightarrow> payload \<Rightarrow> 'a \<Rightarrow> bool" where
  "carries mp unm t p x \<longleftrightarrow> sendable mp (t, p) \<and> unm (payload_data mp p) = Inr x"

lemma carries_decode: "carries mp unm t p x \<Longrightarrow> decode_payload unm (msg_of mp (t, p)) = Inr x"
  by (simp add: carries_def decode_payload_def msg_of_def)

lemma carries_fits: "carries mp unm t p x \<Longrightarrow> fits mp (msg_of mp (t, p))"
  by (simp add: carries_def sendable_fits)

lemma msg_of_type [simp]: "msg_type (msg_of mp (t, p)) = t"
  by (simp add: msg_of_def)

section \<open>The handshake\<close>

definition auth_ok :: auth_response where
  "auth_ok = \<lparr>authr_ok = True, authr_message = []\<rparr>"

definition auth_failed :: auth_response where
  "auth_failed = \<lparr>authr_ok = False, authr_message = ''authentication failed''\<rparr>"

text \<open>What the server does with a request it can decode, with the answer it sends.\<close>

lemma handle_auth_answers:
  assumes "stream_up i s" and "fits mp m" and "live_avail (sv_streams s i) = msg_frame mp m @ rest"
    and "msg_type m = MsgTypeAuth" and "decode_payload (mp_auth_request mp) m = Inr req"
    and "8 \<le> length (auth_token req)"
    and "verify hm now (sv_auth s) (auth_token req) (format_int (sint (auth_ts req))) (auth_nonce req)
        (auth_sign req) = (ok, au)"
    and "sendable mp (MsgTypeAuthResp, PAuthResponse (if ok then auth_ok else auth_failed))"
  shows "\<exists>out s1. handle_auth mp hm now i s = Some (out, s1)
    \<and> new_bytes (sv_streams s i) (sv_streams s1 i)
        = msg_frame mp (msg_of mp (MsgTypeAuthResp, PAuthResponse (if ok then auth_ok else auth_failed)))
    \<and> (if ok then \<exists>c. out = Done (Inr c) \<and> map_of (sv_clients s1) (take 8 (auth_token req) @ ''...'') = Some c
       else out = Done (Inl (auth_error ''authentication failed'')) \<and> sv_clients s1 = sv_clients s)"
proof (cases ok)
  case True
  with assms(7,8) have ok: "verify hm now (sv_auth s) (auth_token req) (format_int (sint (auth_ts req)))
      (auth_nonce req) (auth_sign req) = (True, au)"
    "sendable mp (MsgTypeAuthResp, PAuthResponse \<lparr>authr_ok = True, authr_message = []\<rparr>)"
    by (simp_all add: auth_ok_def)
  from handle_auth_accepts [OF assms(1-6) ok] obtain st c s1 where
    h: "handle_auth mp hm now i s = Some (Done (Inr c), s1)"
      "register_client (take 8 (auth_token req) @ ''...'') i (fst now) ((set_stream i st s)\<lparr>sv_auth := au\<rparr>) = (c, s1)"
      "sent (cout st) = sent (cout (sv_streams s i)) @ msg_frame mp (msg_of mp (MsgTypeAuthResp, PAuthResponse auth_ok))"
    by (auto simp: auth_ok_def)
  have "cout (sv_streams s1 i) = cout st"
    using h(2) by (auto simp: register_client_def Let_def close_session_def conn_close_def split: option.splits)
  with h True register_client_fields(1) [OF h(2)] show ?thesis by (auto simp: new_bytes_append)
next
  case False
  from srv_recv_frame_up [OF assms(1-3)] obtain st where
    rc: "srv_recv mp i s = Some (Inr m, set_stream i st s)" and
    st: "no_faults st" "\<not> closed st" "cout st = cout (sv_streams s i)" by blast
  let ?s2 = "(set_stream i st s)\<lparr>sv_auth := au\<rparr>"
  have "stream_up i ?s2" using st by (simp add: stream_up_def conn_up_def)
  moreover from False assms(8) have "sendable mp (MsgTypeAuthResp, PAuthResponse auth_failed)" by simp
  ultimately obtain st2 where
    "srv_send mp i MsgTypeAuthResp (PAuthResponse auth_failed) ?s2 = (None, set_stream i st2 ?s2)"
    "sent (cout st2) = sent (cout st) @ msg_frame mp (msg_of mp (MsgTypeAuthResp, PAuthResponse auth_failed))"
    using srv_send_up [of i ?s2 mp MsgTypeAuthResp "PAuthResponse auth_failed"] by auto
  with False assms(4-7) rc st show ?thesis
    by (simp add: handle_auth_def auth_failed_def Let_def new_bytes_append)
qed

lemma client_request_verified:
  assumes "valid_clock now" and "valid_clock (fst snow)"
  shows "fst (verify hm snow a token (format_int (sint (auth_ts (client_auth_request hm now rnd token))))
      (auth_nonce (client_auth_request hm now rnd token)) (auth_sign (client_auth_request hm now rnd token)))
    \<longleftrightarrow> au_tokens a token = Some True \<and> \<bar>fst snow div second - now div second\<bar> \<le> 300
        \<and> \<not> nc_exists (generate_nonce rnd) (au_cache a)"
proof -
  have small: "0 \<le> t div second \<and> t div second < 2 ^ 63" if "valid_clock t" for t
    using that by (auto simp: valid_clock_def second_def intro: le_less_trans [of _ t])
  have ts: "sint (unix now) = now div second"
    using small [OF assms(1)] by (simp add: unix_def sint_small)
  with small [OF assms(1)] have "parse_int (format_int (sint (unix now))) = Some (now div second)"
    by (simp add: parse_format_int)
  moreover have "in_window (fst snow) (now div second) \<longleftrightarrow> \<bar>fst snow div second - now div second\<bar> \<le> 300"
    using small [OF assms(1)] small [OF assms(2)] by (auto simp: in_window_def)
  ultimately have "verify_check (fst snow) a token (format_int (sint (unix now))) (generate_nonce rnd) \<longleftrightarrow>
      au_tokens a token = Some True \<and> \<bar>fst snow div second - now div second\<bar> \<le> 300
      \<and> \<not> nc_exists (generate_nonce rnd) (au_cache a)"
    by (auto simp: verify_check_iff [OF assms(2)])
  then show ?thesis
    by (simp add: verify_def verify_commit_def client_auth_request_def Let_def)
qed

lemma sample_payload_data [simp]: "payload_data sample_msgpack p = sample_payload p"
  by (simp add: payload_data_def sample_msgpack_def)

lemma sample_port_length: "length (format_int 9090) = 4"
  by (simp add: sample_eval)

text \<open>The client reads the one message that waits on its stream.\<close>

lemma auth_recv_answer:
  assumes "conn_up c" and "live_avail c = []" and "carries mp (mp_auth_response mp) MsgTypeAuthResp (PAuthResponse resp) resp"
  shows "\<exists>c'. auth_recv mp (deliver (msg_frame mp (msg_of mp (MsgTypeAuthResp, PAuthResponse resp))) c)
    = Some (if authr_ok resp then None else Some (client_auth_error (authr_message resp)), c')"
proof -
  let ?m = "msg_of mp (MsgTypeAuthResp, PAuthResponse resp)"
  have "live_avail (deliver (msg_frame mp ?m) c) = msg_frame mp ?m @ []" using assms(1,2) by (simp add: deliver_avail)
  from recv_up [OF _ carries_fits [OF assms(3)] this] assms(1) obtain c' where
    "recv_message mp live_read (deliver (msg_frame mp ?m) c) = Some (Inr ?m, c')" by auto
  with carries_decode [OF assms(3)] show ?thesis by (simp add: auth_recv_def)
qed

lemma stream_up_deliver: "conn_up (sv_streams s i) \<Longrightarrow> stream_up i (set_stream i (deliver bs (sv_streams s i)) s)"
  by (simp add: stream_up_def)

definition px_request :: "expanded_proxy \<Rightarrow> new_proxy_request" where
  "px_request px = \<lparr>npq_name = ep_name px, npq_type = ep_type px, npq_remote_port = ep_remote_port px\<rparr>"

text \<open>The answer the server has for a request.\<close>

definition port_answer :: "(int \<Rightarrow> go_error option) \<Rightarrow> int \<Rightarrow> server \<Rightarrow> new_proxy_response" where
  "port_answer listen port s =
     (if map_of (sv_proxies s) port \<noteq> None then
        \<lparr>npr_ok = False, npr_message = ''port already in use'', npr_remote_port = 0\<rparr>
      else (case listen port of
              Some e \<Rightarrow> \<lparr>npr_ok = False, npr_message = error_text e, npr_remote_port = 0\<rparr>
            | None \<Rightarrow> \<lparr>npr_ok = True, npr_message = [], npr_remote_port = port\<rparr>))"

lemma handle_new_proxy_answers:
  assumes "stream_up i s" and "decode_payload (mp_new_proxy_request mp) msg = Inr req"
    and "sendable mp (MsgTypeNewProxyResp, PNewProxyResponse (port_answer listen (npq_remote_port req) s))"
  shows "new_bytes (sv_streams s i) (sv_streams (handle_new_proxy mp listen c i msg s) i)
      = msg_frame mp (msg_of mp (MsgTypeNewProxyResp, PNewProxyResponse (port_answer listen (npq_remote_port req) s)))
    \<and> map_of (sv_proxies (handle_new_proxy mp listen c i msg s)) = (map_of (sv_proxies s))
        (npq_remote_port req := if npr_ok (port_answer listen (npq_remote_port req) s) then Some (sv_next_proxy s)
           else map_of (sv_proxies s) (npq_remote_port req))"
proof -
  let ?port = "npq_remote_port req"
  consider "map_of (sv_proxies s) ?port \<noteq> None" | e where "map_of (sv_proxies s) ?port = None" "listen ?port = Some e"
    | "map_of (sv_proxies s) ?port = None" "listen ?port = None" by blast
  then show ?thesis
  proof cases
    case 1
    with assms srv_send_up [OF assms(1,3)] show ?thesis
      by (auto simp: handle_new_proxy_def np_check_def port_answer_def npr_fail_def new_bytes_append)
  next
    case 2
    with assms srv_send_up [OF assms(1,3)] show ?thesis
      by (auto simp: handle_new_proxy_def np_check_def port_answer_def npr_fail_def new_bytes_append fun_upd_idem)
  next
    case 3
    obtain p s1 where st: "store_proxy c req s = (p, s1)" by fastforce
    note f = store_proxy_fields [OF st]
    have snd: "sendable mp (MsgTypeNewProxyResp, npr_success ?port)"
      using assms(3) 3 by (simp add: port_answer_def npr_success_def)
    have "stream_up i s1" using assms(1) f(6) by (simp add: stream_up_def)
    from srv_send_up [OF this snd] obtain x where
      "srv_send mp i MsgTypeNewProxyResp (npr_success ?port) s1 = (None, set_stream i x s1)"
      "sent (cout x) = sent (cout (sv_streams s1 i)) @ msg_frame mp (msg_of mp (MsgTypeNewProxyResp, npr_success ?port))"
      by blast
    with 3 assms(2) st f show ?thesis
      by (simp add: handle_new_proxy_def np_check_def np_commit_def port_answer_def npr_success_def new_bytes_append)
  qed
qed

section \<open>Forwarding through both ends\<close>

context joiner
begin

lemma join_sent:
  assumes "(join_step it ^^ n) (join_start c1 c2 b1 b2 g) s" and "b1 \<noteq> []" and "b2 \<noteq> []"
  shows "prefix (new_bytes c1 (jc1 s)) (conn_avail c2) \<and> prefix (new_bytes c2 (jc2 s)) (conn_avail c1)"
proof -
  from join_run_ok [OF assms(1) join_start_ok] assms(2,3) have "join_ok c1 c2 s" by auto
  then obtain k l where "sent (cout (jc1 s)) = sent (cout c1) @ take k (conn_avail c2)"
    "sent (cout (jc2 s)) = sent (cout c2) @ take l (conn_avail c1)"
    unfolding join_ok_def by (meson dir_ok_sent)
  then show ?thesis by (simp add: new_bytes_append take_is_prefix)
qed

end

lemmas server_join_sent = server_join.join_sent [folded server_join_step_def]
lemmas client_join_sent = client_join.join_sent [folded client_join_step_def]

section \<open>Data streams\<close>

text \<open>
  A server and one of its clients with the user connections between them, as the steps of their
  goroutines; the client's control stream is \<open>i\<close> on the server and \<open>wr_ctl\<close> on the client.
  \<open>wr_waiting\<close> are the \<open>handleUserConnection\<close> goroutines blocked in \<open>AcceptStream\<close>, each with its
  proxy and the connection ID it sent; \<open>wr_started\<close> are the client's \<open>handleNewConn\<close> goroutines that have
  yet to run; \<open>wr_opened\<close> are the data streams, each with the request it was opened for and what the
  client did with it; \<open>wr_queue\<close> are the streams the session has not handed out yet, which it hands out
  in the order in which they were opened; and \<open>wr_joined\<close> says which user was joined with which stream.
\<close>

record wire =
  wr_srv :: server
  wr_ctl :: conn
  wr_cli :: tunnel_client
  wr_waiting :: "(nat \<times> string) list"
  wr_started :: "new_conn_request list"
  wr_opened :: "(new_conn_request \<times> nat nc_event list) list"
  wr_queue :: "nat list"
  wr_joined :: "((nat \<times> string) \<times> nat) list"

definition wire_start :: "server \<Rightarrow> conn \<Rightarrow> tunnel_client \<Rightarrow> wire" where
  "wire_start s st c =
     \<lparr>wr_srv = s, wr_ctl = st, wr_cli = c, wr_waiting = [], wr_started = [], wr_opened = [], wr_queue = [], wr_joined = []\<rparr>"

text \<open>
  \<open>notify\<close> is \<open>handleUserConnection\<close> up to \<open>AcceptStream\<close>: the bytes it writes arrive at the client (the
  requests considered are those MessagePack carries); with \<open>one\<close>, a user is only notified when no other
  one is waiting. \<open>control\<close> is one round of the client's control loop, \<open>new_conn\<close> one of the goroutines it
  started, and \<open>accept\<close> is \<open>handleUserConnection\<close> from the return of \<open>AcceptStream\<close>: any of the
  goroutines that wait may be the one that gets the next stream.
\<close>

inductive wire_step ::
  "msgpack \<Rightarrow> (string \<Rightarrow> nat result) \<Rightarrow> nat \<Rightarrow> bool \<Rightarrow> wire \<Rightarrow> wire \<Rightarrow> bool" for mp dial i one where
  notify: "cl_session (sv_client (wr_srv w) (px_client (sv_proxy (wr_srv w) p))) = i \<Longrightarrow>
    r = user_request p conn_id (wr_srv w) \<Longrightarrow> carries mp (mp_new_conn_request mp) MsgTypeNewConn (PNewConnRequest r) r \<Longrightarrow>
    (one \<longrightarrow> wr_waiting w = []) \<Longrightarrow> user_notify mp p i conn_id (wr_srv w) = (None, s1) \<Longrightarrow>
    wire_step mp dial i one w (w\<lparr>wr_srv := s1,
      wr_ctl := deliver (new_bytes (sv_streams (wr_srv w) i) (sv_streams s1 i)) (wr_ctl w),
      wr_waiting := wr_waiting w @ [(p, conn_id)]\<rparr>)"
| control: "client_control_iter mp (wr_ctl w, wr_cli w) = Some (None, st, c) \<Longrightarrow>
    wire_step mp dial i one w (w\<lparr>wr_ctl := st, wr_cli := c,
      wr_started := wr_started w @ drop (length (ct_spawned (wr_cli w))) (ct_spawned c)\<rparr>)"
| new_conn: "r \<in> set (wr_started w) \<Longrightarrow> d = length (wr_opened w) \<Longrightarrow>
    handle_new_conn (Inr d) dial r (wr_cli w) = (evs, c) \<Longrightarrow>
    wire_step mp dial i one w (w\<lparr>wr_cli := c, wr_started := remove1 r (wr_started w),
      wr_opened := wr_opened w @ [(r, evs)], wr_queue := wr_queue w @ [d]\<rparr>)"
| accept: "u \<in> set (wr_waiting w) \<Longrightarrow> wr_queue w = d # q \<Longrightarrow>
    user_joining (Inr d) (wr_srv w) = (Some d', s1) \<Longrightarrow>
    wire_step mp dial i one w (w\<lparr>wr_srv := s1, wr_waiting := remove1 u (wr_waiting w), wr_queue := q,
      wr_joined := wr_joined w @ [(u, d')]\<rparr>)"

inductive_cases wire_stepE [consumes 1, case_names notify control new_conn accept]: "wire_step mp dial i one w w'"

text \<open>What the two control steps do when the control stream is up.\<close>

lemma user_notify_up:
  assumes "stream_up i s" and "sendable mp (MsgTypeNewConn, PNewConnRequest (user_request p conn_id s))"
  shows "\<exists>st. user_notify mp p i conn_id s = (None, set_stream i st s) \<and> conn_up st
    \<and> new_bytes (sv_streams s i) st = msg_frame mp (msg_of mp (MsgTypeNewConn, PNewConnRequest (user_request p conn_id s)))"
  using srv_send_up [OF assms] by (auto simp: user_notify_def conn_up_def new_bytes_append)

lemma client_control_request:
  assumes "conn_up st" and "carries mp (mp_new_conn_request mp) MsgTypeNewConn (PNewConnRequest r) r"
    and "live_avail st = msg_frame mp (msg_of mp (MsgTypeNewConn, PNewConnRequest r)) @ rest"
  shows "\<exists>st'. client_control_iter mp (st, c)
      = Some (None, st', c\<lparr>ct_wg := ct_wg c + 1, ct_spawned := ct_spawned c @ [r]\<rparr>) \<and> conn_up st' \<and> live_avail st' = rest"
  using recv_up [OF assms(1) carries_fits [OF assms(2)] assms(3)] carries_decode [OF assms(2)]
  by (auto simp: client_control_iter_def dispatch_def)

lemma client_control_idle:
  assumes "conn_up st" and "live_avail st = []"
  shows "client_control_iter mp (st, c) \<noteq> Some (None, x)"
  using recv_up_end [OF assms, of mp] by (auto simp: client_control_iter_def)

text \<open>With one user notified at a time, the request, its stream and its user belong together at every point.\<close>

definition wire_ok :: "msgpack \<Rightarrow> nat \<Rightarrow> server \<Rightarrow> wire \<Rightarrow> bool" where
  "wire_ok mp i s w \<longleftrightarrow> sv_proxy (wr_srv w) = sv_proxy s \<and> stream_up i (wr_srv w) \<and> conn_up (wr_ctl w)
     \<and> list_all (\<lambda>((p, conn_id), d). d < length (wr_opened w) \<and> fst (wr_opened w ! d) = user_request p conn_id s) (wr_joined w)
     \<and> ((wr_waiting w = [] \<and> live_avail (wr_ctl w) = [] \<and> wr_started w = [] \<and> wr_queue w = [])
        \<or> (\<exists>p conn_id r. wr_waiting w = [(p, conn_id)] \<and> r = user_request p conn_id s
             \<and> carries mp (mp_new_conn_request mp) MsgTypeNewConn (PNewConnRequest r) r
             \<and> ((live_avail (wr_ctl w) = msg_frame mp (msg_of mp (MsgTypeNewConn, PNewConnRequest r))
                   \<and> wr_started w = [] \<and> wr_queue w = [])
               \<or> (live_avail (wr_ctl w) = [] \<and> wr_started w = [r] \<and> wr_queue w = [])
               \<or> (live_avail (wr_ctl w) = [] \<and> wr_started w = []
                    \<and> (\<exists>d. wr_queue w = [d] \<and> d < length (wr_opened w) \<and> fst (wr_opened w ! d) = r)))))"

lemma wire_ok_notify:
  assumes "wire_ok mp i s w" and "wr_waiting w = []" and "r = user_request p conn_id (wr_srv w)"
    and "carries mp (mp_new_conn_request mp) MsgTypeNewConn (PNewConnRequest r) r"
    and "user_notify mp p i conn_id (wr_srv w) = (None, s1)"
  shows "wire_ok mp i s (w\<lparr>wr_srv := s1,
      wr_ctl := deliver (new_bytes (sv_streams (wr_srv w) i) (sv_streams s1 i)) (wr_ctl w), wr_waiting := [(p, conn_id)]\<rparr>)"
proof -
  from assms(1,2) have ok: "sv_proxy (wr_srv w) = sv_proxy s" "stream_up i (wr_srv w)" "conn_up (wr_ctl w)"
    "live_avail (wr_ctl w) = []" "wr_started w = []" "wr_queue w = []" by (auto simp: wire_ok_def)
  have r: "r = user_request p conn_id s" using assms(3) ok(1) by (simp add: user_request_def)
  from assms(3,4) user_notify_up [OF ok(2), of mp p conn_id] assms(5) obtain st where
    s1: "s1 = set_stream i st (wr_srv w)" "conn_up st"
      "new_bytes (sv_streams (wr_srv w) i) st = msg_frame mp (msg_of mp (MsgTypeNewConn, PNewConnRequest r))"
    by (auto simp: carries_def)
  with assms(1,4) ok r show ?thesis by (simp add: wire_ok_def stream_up_def deliver_avail)
qed

lemma wire_ok_step:
  assumes "wire_step mp dial i True w w'" and "wire_ok mp i s w"
  shows "wire_ok mp i s w'"
  using assms(1)
proof (cases rule: wire_stepE)
  case (notify p conn_id s1)
  with wire_ok_notify [OF assms(2) _ refl notify(3,5)] show ?thesis by simp
next
  case (control st c)
  have "conn_up (wr_ctl w)" using assms(2) by (simp add: wire_ok_def)
  with client_control_idle [of "wr_ctl w" mp "wr_cli w" "(st, c)"] control(2) have "live_avail (wr_ctl w) \<noteq> []" by blast
  with assms(2) obtain p conn_id r where
    wait: "wr_waiting w = [(p, conn_id)]" "r = user_request p conn_id s" "wr_started w = []" "wr_queue w = []"
    "carries mp (mp_new_conn_request mp) MsgTypeNewConn (PNewConnRequest r) r" "conn_up (wr_ctl w)"
    "live_avail (wr_ctl w) = msg_frame mp (msg_of mp (MsgTypeNewConn, PNewConnRequest r)) @ []"
    by (auto simp: wire_ok_def)
  from client_control_request [OF wait(6,5,7), of "wr_cli w"] control(2) have "conn_up st" "live_avail st = []"
    "ct_spawned c = ct_spawned (wr_cli w) @ [r]" by auto
  with assms(2) wait show ?thesis by (simp add: control(1) wire_ok_def)
next
  case (new_conn r evs c)
  then have "wr_started w \<noteq> []" by auto
  with assms(2) new_conn show ?thesis by (fastforce simp: wire_ok_def nth_append list_all_iff)
next
  case (accept u d q d' s1)
  then have "wr_queue w \<noteq> []" "s1 = (wr_srv w)\<lparr>sv_stats := IncActiveConns (sv_stats (wr_srv w))\<rparr>" "d' = d"
    by (auto simp: user_joining_def)
  with assms(2) accept show ?thesis by (auto simp: wire_ok_def stream_up_def)
qed

interpretation one_at_a_time: step_invariant "wire_step mp dial i True"
  "\<lambda>w. \<exists>st c. stream_up i s \<and> conn_up st \<and> live_avail st = [] \<and> w = wire_start s st c" "wire_ok mp i s" for mp dial i s
proof unfold_locales
  show "wire_ok mp i s w" if "\<exists>st c. stream_up i s \<and> conn_up st \<and> live_avail st = [] \<and> w = wire_start s st c" for w
    using that by (auto simp: wire_ok_def wire_start_def)
qed (rule wire_ok_step)

text \<open>Two users can both be waiting, with both requests at the client, before any stream is opened.\<close>

lemma two_users_wait:
  assumes "stream_up i s" and "conn_up st" and "live_avail st = []"
    and "cl_session (sv_client s (px_client (sv_proxy s p1))) = i" and "cl_session (sv_client s (px_client (sv_proxy s p2))) = i"
    and "r1 = user_request p1 id1 s" and "carries mp (mp_new_conn_request mp) MsgTypeNewConn (PNewConnRequest r1) r1"
    and "r2 = user_request p2 id2 s" and "carries mp (mp_new_conn_request mp) MsgTypeNewConn (PNewConnRequest r2) r2"
  shows "\<exists>w. (wire_step mp dial i False)\<^sup>*\<^sup>* (wire_start s st c) w \<and> wr_waiting w = [(p1, id1), (p2, id2)]
    \<and> wr_started w = [r1, r2] \<and> wr_opened w = [] \<and> wr_queue w = [] \<and> wr_joined w = []
    \<and> ct_proxies (wr_cli w) = ct_proxies c"
proof -
  let ?step = "wire_step mp dial i False" and ?w0 = "wire_start s st c"
  let ?frame = "\<lambda>r. msg_frame mp (msg_of mp (MsgTypeNewConn, PNewConnRequest r))"
  from user_notify_up [OF assms(1), of mp p1 id1] assms(6,7) obtain x1 where
    n1: "user_notify mp p1 i id1 s = (None, set_stream i x1 s)" "conn_up x1" "new_bytes (sv_streams s i) x1 = ?frame r1"
    by (auto simp: carries_def)
  let ?s1 = "set_stream i x1 s"
  have r2: "r2 = user_request p2 id2 ?s1" using assms(8) by (simp add: user_request_def)
  have "stream_up i ?s1" using n1(2) by (simp add: stream_up_def)
  from user_notify_up [OF this, of mp p2 id2] r2 assms(9) obtain x2 where
    n2: "user_notify mp p2 i id2 ?s1 = (None, set_stream i x2 ?s1)" "conn_up x2" "new_bytes x1 x2 = ?frame r2"
    by (auto simp: carries_def)
  define w1 where "w1 = ?w0\<lparr>wr_srv := ?s1, wr_ctl := deliver (?frame r1) st, wr_waiting := [(p1, id1)]\<rparr>"
  define w2 where "w2 = w1\<lparr>wr_srv := set_stream i x2 ?s1, wr_ctl := deliver (?frame r2) (deliver (?frame r1) st),
      wr_waiting := [(p1, id1), (p2, id2)]\<rparr>"
  have s1: "?step ?w0 w1"
    using wire_step.notify [where w = ?w0 and p = p1 and conn_id = id1 and mp = mp and i = i and one = False and dial = dial,
        OF _ refl] n1 assms(4,6,7)
    by (simp add: wire_start_def w1_def)
  have s2: "?step w1 w2"
    using wire_step.notify [where w = w1 and p = p2 and conn_id = id2 and mp = mp and i = i and one = False and dial = dial,
        OF _ refl] n2 assms(5,9) r2
    by (simp add: wire_start_def w1_def w2_def)
  have up: "conn_up (wr_ctl w2)" "live_avail (wr_ctl w2) = ?frame r1 @ ?frame r2"
    using assms(2,3) by (simp_all add: w2_def deliver_avail)
  from client_control_request [OF up(1) assms(7) up(2), of "wr_cli w2"] obtain st3 where
    c3: "client_control_iter mp (wr_ctl w2, wr_cli w2) = Some (None, st3, (wr_cli w2)
        \<lparr>ct_wg := ct_wg (wr_cli w2) + 1, ct_spawned := ct_spawned (wr_cli w2) @ [r1]\<rparr>)"
      "conn_up st3" "live_avail st3 = ?frame r2 @ []" by auto
  define w3 where "w3 = w2\<lparr>wr_ctl := st3, wr_cli := (wr_cli w2)
        \<lparr>ct_wg := ct_wg (wr_cli w2) + 1, ct_spawned := ct_spawned (wr_cli w2) @ [r1]\<rparr>, wr_started := [r1]\<rparr>"
  have s3: "?step w2 w3"
    using wire_step.control [OF c3(1), of dial i False] by (simp add: w3_def w2_def w1_def wire_start_def)
  have "wr_ctl w3 = st3" by (simp add: w3_def)
  with client_control_request [OF c3(2) assms(9) c3(3), of "wr_cli w3"] obtain st4 where
    c4: "client_control_iter mp (wr_ctl w3, wr_cli w3) = Some (None, st4, (wr_cli w3)
        \<lparr>ct_wg := ct_wg (wr_cli w3) + 1, ct_spawned := ct_spawned (wr_cli w3) @ [r2]\<rparr>)" by auto
  define w4 where "w4 = w3\<lparr>wr_ctl := st4, wr_cli := (wr_cli w3)
        \<lparr>ct_wg := ct_wg (wr_cli w3) + 1, ct_spawned := ct_spawned (wr_cli w3) @ [r2]\<rparr>, wr_started := [r1, r2]\<rparr>"
  have "?step w3 w4"
    using wire_step.control [OF c4, of dial i False] by (simp add: w4_def w3_def)
  with s1 s2 s3 have "?step\<^sup>*\<^sup>* ?w0 w4" by (meson rtranclp.rtrancl_into_rtrancl rtranclp.rtrancl_refl)
  then show ?thesis
    by (intro exI [of _ w4]) (simp add: w4_def w3_def w2_def w1_def wire_start_def)
qed

end
