(* ===== verification/Dashboard.thy ===== *)
theory Dashboard
  imports Server_Registry
begin

text \<open>
  internal/server/dashboard.go: the HTTP interface that shows the state of the server, as the answer to
  a path. JSON is left to the library: an answer is the value the code encodes, and a nil slice, which
  it encodes as null, is \<open>None\<close>. The registries are ranged over in any order; the model takes that of
  the association lists.
\<close>

section \<open>Answers\<close>

record proxy_entry =
  pe_name :: string
  pe_remote_port :: int
  pe_client_id :: string

record client_entry =
  ce_id :: string
  ce_proxy_count :: nat
  ce_last_ping :: int
  ce_remote_addr :: string

text \<open>\<open>append\<close> to a nil slice: no element leaves it nil.\<close>

definition go_slice :: "'a list \<Rightarrow> 'a list option" where
  "go_slice xs = (if xs = [] then None else Some xs)"

definition api_stats :: "(int \<Rightarrow> string) \<Rightarrow> int \<Rightarrow> server \<Rightarrow> stats" where
  "api_stats duration_string now s = Get duration_string now (sv_stats s)"

definition api_proxies :: "server \<Rightarrow> proxy_entry list option" where
  "api_proxies s =
     go_slice (map (\<lambda>(port, p). \<lparr>pe_name = px_name (sv_proxy s p), pe_remote_port = px_port (sv_proxy s p),
                       pe_client_id = cl_id (sv_client s (px_client (sv_proxy s p)))\<rparr>) (sv_proxies s))"

text \<open>\<open>remote\<close> is the remote address of a session.\<close>

definition api_clients :: "(nat \<Rightarrow> string) \<Rightarrow> server \<Rightarrow> client_entry list option" where
  "api_clients remote s =
     go_slice (map (\<lambda>(cid, c). \<lparr>ce_id = cl_id (sv_client s c), ce_proxy_count = length (cl_proxies (sv_client s c)),
                      ce_last_ping = cl_last_ping (sv_client s c),
                      ce_remote_addr = remote (cl_session (sv_client s c))\<rparr>) (sv_clients s))"

datatype dash_answer =
    StatsAnswer stats
  | HealthAnswer string
  | ProxiesAnswer "proxy_entry list option"
  | ClientsAnswer "client_entry list option"
  | NotFoundAnswer

text \<open>The routes \<open>startDashboard\<close> installs; a path without one gets the status 404.\<close>

definition dashboard_answer ::
  "(int \<Rightarrow> string) \<Rightarrow> (nat \<Rightarrow> string) \<Rightarrow> int \<Rightarrow> string \<Rightarrow> server \<Rightarrow> dash_answer" where
  "dashboard_answer duration_string remote now path s =
     (if path = ''/api/stats'' then StatsAnswer (api_stats duration_string now s)
      else if path = ''/health'' then HealthAnswer ''ok''
      else if path = ''/api/proxies'' then ProxiesAnswer (api_proxies s)
      else if path = ''/api/clients'' then ClientsAnswer (api_clients remote s)
      else NotFoundAnswer)"

section \<open>What the answers show\<close>

lemma go_slice_default [simp]: "(case go_slice xs of None \<Rightarrow> [] | Some ys \<Rightarrow> ys) = xs"
  by (simp add: go_slice_def)

lemma api_proxies_ports:
  "proxies_ok s \<Longrightarrow> map pe_remote_port (case api_proxies s of None \<Rightarrow> [] | Some ps \<Rightarrow> ps) = map fst (sv_proxies s)"
  by (auto simp: api_proxies_def proxies_ok_def)

lemma api_clients_ids:
  "clients_ok s \<Longrightarrow> map ce_id (case api_clients remote s of None \<Rightarrow> [] | Some cs \<Rightarrow> cs) = map fst (sv_clients s)"
  by (auto simp: api_clients_def clients_ok_def)

text \<open>
  In every reachable state the list of proxies has one entry for each registered port, under that port,
  and the list of clients one for each registered ID, under that ID; an empty registry shows as null.
\<close>

lemma dashboard_shows_registries:
  assumes "(srv_step mp hm)\<^sup>*\<^sup>* (new_server cfg streams now) s"
  shows "map pe_remote_port (case api_proxies s of None \<Rightarrow> [] | Some ps \<Rightarrow> ps) = map fst (sv_proxies s)"
    and "distinct (map fst (sv_proxies s))"
    and "map ce_id (case api_clients remote s of None \<Rightarrow> [] | Some cs \<Rightarrow> cs) = map fst (sv_clients s)"
    and "distinct (map fst (sv_clients s))"
    and "(dashboard_answer duration_string remote now' ''/api/proxies'' s = ProxiesAnswer None) = (sv_proxies s = [])"
proof -
  have "registry_ok s" using server_run.reachable_ok [OF _ assms] by blast
  then have ok: "proxies_ok s" "clients_ok s" by (simp_all add: registry_ok_def)
  show "map pe_remote_port (case api_proxies s of None \<Rightarrow> [] | Some ps \<Rightarrow> ps) = map fst (sv_proxies s)"
    by (rule api_proxies_ports [OF ok(1)])
  show "map ce_id (case api_clients remote s of None \<Rightarrow> [] | Some cs \<Rightarrow> cs) = map fst (sv_clients s)"
    by (rule api_clients_ids [OF ok(2)])
  show "distinct (map fst (sv_proxies s))" and "distinct (map fst (sv_clients s))"
    using ok by (simp_all add: proxies_ok_def clients_ok_def)
  show "(dashboard_answer duration_string remote now' ''/api/proxies'' s = ProxiesAnswer None) = (sv_proxies s = [])"
    by (simp add: dashboard_answer_def api_proxies_def go_slice_def)
qed

end
