(* ===== verification/Main_Programs.thy ===== *)
theory Main_Programs
  imports Server_Registry Client_Runs
begin

text \<open>
  cmd/client and cmd/server: the two main functions as the status the process exits with, and the
  goroutine that waits for SIGINT or SIGTERM. The flag is the path; reading and unmarshalling the file
  and the run of the program are arguments, so that they compose with the models of Config, Client and
  Server. \<open>None\<close> is a call that never returns.
\<close>

section \<open>Exit status\<close>

text \<open>A \<open>log.Fatalf\<close> exits with 1, a panic that is not recovered with 2, the end of \<open>main\<close> with 0.\<close>

datatype exit_status = ExitOk | ExitFatal go_error | ExitPanic string

fun status_code :: "exit_status \<Rightarrow> nat" where
  "status_code ExitOk = 0"
| "status_code (ExitFatal e) = 1"
| "status_code (ExitPanic m) = 2"

section \<open>The client (cmd/client/main.go)\<close>

definition client_main ::
  "(string \<Rightarrow> bytes result) \<Rightarrow> (bytes \<Rightarrow> client_config result)
   \<Rightarrow> (tunnel_client \<Rightarrow> (unit outcome \<times> run_state) option) \<Rightarrow> string \<Rightarrow> exit_status option" where
  "client_main read_file unmarshal run_fn path =
     (case load_client_config read_file unmarshal path of
        Inl e \<Rightarrow> Some (ExitFatal e)
      | Inr cfg \<Rightarrow>
          (case new_client cfg :: (tunnel_client \<times> unit transport \<times> unit crypto) result outcome of
             Panic m \<Rightarrow> Some (ExitPanic m)
           | Done (Inl e) \<Rightarrow> Some (ExitFatal e)
           | Done (Inr (cli, _, _)) \<Rightarrow>
               (case run_fn cli of
                  None \<Rightarrow> None
                | Some (Panic m, _) \<Rightarrow> Some (ExitPanic m)
                | Some (Done (), _) \<Rightarrow> Some ExitOk)))"

text \<open>
  The goroutine of the signal: \<open>Stop\<close>, its wait over what the others do, and \<open>os.Exit(0)\<close>. \<open>None\<close> is that
  it still waits.
\<close>

definition client_signal :: "(tunnel_client \<Rightarrow> tunnel_client) list \<Rightarrow> tunnel_client \<Rightarrow> exit_status option" where
  "client_signal others c =
     (case client_stop c of
        Panic m \<Rightarrow> Some (ExitPanic m)
      | Done c1 \<Rightarrow> map_option (\<lambda>_. ExitOk) (client_wait others c1))"

section \<open>The server (cmd/server/main.go)\<close>



section \<open>Properties\<close>






lemma expand_no_panic: "expand p \<noteq> Panic m"
  using expand_total [of p] by auto

lemma expand_all_fails_iff:
  "(\<exists>e. expand_all ps al = Done (Inl e)) = (\<exists>p \<in> set ps. \<exists>e. expand p = Done (Inl e))"
  "(\<exists>m. expand_all ps al = Panic m) = False"
proof (induction ps arbitrary: al)
  case (Cons p ps)
  { case 1 from Cons expand_no_panic [of p] show ?case by (auto split: outcome.splits sum.splits) }
  { case 2 from Cons expand_no_panic [of p] show ?case by (auto split: outcome.splits sum.splits) }
qed simp_all

text \<open>
  The client program exits with status 1 exactly when its configuration cannot be loaded or a port
  range of one of its proxies cannot be expanded; everything that goes wrong later, the refusal of every
  proxy by the server included, leaves it running, and it exits with 0 when \<open>Run\<close> returns.
\<close>
theorem client_exits_with_error_iff:
  "(map_option status_code (client_main read_file unmarshal run_fn path) = Some 1) =
     (case load_client_config read_file unmarshal path of
        Inl e \<Rightarrow> True
      | Inr cfg \<Rightarrow> \<exists>p \<in> set (cc_proxies cfg). \<exists>e. expand p = Done (Inl e))"
proof (cases "load_client_config read_file unmarshal path")
  case (Inl e)
  then show ?thesis by (simp add: client_main_def)
next
  case (Inr cfg)
  let ?new = "new_client cfg :: (tunnel_client \<times> unit transport \<times> unit crypto) result outcome"
  consider m where "expand_all (cc_proxies cfg) [] = Panic m"
    | e where "expand_all (cc_proxies cfg) [] = Done (Inl e)" "?new = Done (Inl e)"
    | proxies where "expand_all (cc_proxies cfg) [] = Done (Inr proxies)"
        "?new = Done (Inr (fresh_client cfg proxies, client_layers cfg))"
  proof (cases "expand_all (cc_proxies cfg) []")
    case (Done r)
    with that show ?thesis by (cases r) (auto simp: new_client_def)
  qed (use that in blast)
  then show ?thesis
  proof cases
    case 1
    with expand_all_fails_iff(2) show ?thesis by blast
  next
    case 2
    with expand_all_fails_iff(1) have "\<exists>p \<in> set (cc_proxies cfg). \<exists>e. expand p = Done (Inl e)" by blast
    moreover have "client_main read_file unmarshal run_fn path = Some (ExitFatal e)"
      by (simp only: client_main_def Inr 2(2) sum.case outcome.case)
    ultimately show ?thesis by (simp add: Inr)
  next
    case 3
    with expand_all_fails_iff(1) [of "cc_proxies cfg" "[]"]
    have "\<not> (\<exists>p \<in> set (cc_proxies cfg). \<exists>e. expand p = Done (Inl e))" by simp
    moreover obtain x y where "client_layers cfg = (x :: unit transport, y :: unit crypto)" by fastforce
    then have "map_option status_code (client_main read_file unmarshal run_fn path) \<noteq> Some 1"
      by (simp add: client_main_def Inr 3(2) split: option.splits outcome.splits unit.splits)
    ultimately show ?thesis by (simp add: Inr)
  qed
qed

end
