(* ===== verification/Spec2Isabelle.thy ===== *)
theory Spec2Isabelle
  imports Protocol Config Auth Stats Pool Forward Chacha Crypto Transport Quic Mux Server_Registry Client_Runs
    Server_Session Client_Session Layers Tunnel Dashboard Main_Programs
begin

text \<open>
  The verification library of qtrp, a TCP reverse proxy written in Go (paths below are under src/).

  The program. A client (internal/client) behind a firewall dials a server (internal/server), authenticates
  on a control stream and registers proxies. The server listens on the port of each proxy; for a user that
  connects there it sends NewConn on the control stream, the client opens a data stream on the same
  multiplexed session and dials the local service, and each side joins its two connections. Below the
  session are an encryption layer (pkg/crypto), a transport (pkg/transport) and smux or mtmux (pkg/mux);
  the messages are those of pkg/protocol; tokens are checked by pkg/auth, counters kept by pkg/stats,
  buffers and connections pooled by pkg/pool, files read by pkg/config.

  Conventions. A Go struct is a record, an enum a datatype, an int64 a 64-bit word, another int an int. An
  error is a value (\<open>result\<close> is \<open>go_error + 'a\<close>), a panic too (\<open>outcome\<close>), and a call that never
  returns is \<open>None\<close>: loops that a peer can keep going are \<open>partial_function (option)\<close> (\<open>go_loop\<close>,
  \<open>read_full\<close>), so no fuel is used anywhere, and that they return is proved with \<open>go_loop_returns\<close> and a
  rank that each round lowers. A goroutine is a step of a relation or an entry of a list of running ones;
  objects that goroutines share are cells of a heap in the state (\<open>sv_client\<close>, \<open>sv_proxy\<close>,
  \<open>sv_streams\<close>). What is not under src/ is an argument: MessagePack, the AEAD, HMAC and SHA-256, X.509 and
  TLS, smux, mtmux, quic-go, gnet's callbacks, the operating system's listens, dials and socket options,
  the clock and the random bytes. What is assumed of them is a named predicate (\<open>aead_ok\<close>, \<open>rand_ok\<close>,
  \<open>sendable\<close>, \<open>carries\<close>), and each property that has one has a witness on a concrete instance.

  The theories, in the order of their imports:
  \<^item> Prelude: types, errors, lemmas on lists, association lists and words; the locale \<open>step_invariant\<close>.
  \<^item> Go_Std: the functions of strings, strconv, encoding/binary and encoding/hex the program calls.
  \<^item> Go_Io: readers, writers and connections; \<open>read_full\<close> is io.ReadFull, \<open>go_loop\<close> a loop. Its locales are
    the contracts of a byte stream: \<open>byte_source\<close> (what waits is delivered in order), \<open>byte_reader\<close> (and
    then the stream ends), \<open>framed_stream\<close> (a decoder over it), \<open>byte_sink\<close> (a Write takes a prefix) and
    \<open>byte_writer\<close> (all of it).
  \<^item> Protocol: pkg/protocol/message.go and codec.go (\<open>encode\<close>, \<open>decode\<close>, \<open>send_message\<close>,
    \<open>recv_message\<close>), with a sample MessagePack for the witnesses.
  \<^item> Config: pkg/config (\<open>parse_port_range\<close>, \<open>expand\<close>, the two loaders).
  \<^item> Auth: pkg/auth (\<open>sign\<close>, \<open>verify\<close> in its two atomic parts, the nonce cache and its sweep); the locale
    \<open>nonce_store\<close> is the contract of the cache.
  \<^item> Stats: pkg/stats. Pool: pkg/pool (buffers, TCP options, the connection pool and its races).
  \<^item> Forward: handler.go of both sides: \<open>copyBuffer\<close> as a loop of iterations, \<open>Join\<close> as a step relation of
    its two goroutines; the locales \<open>copy_ends\<close> and \<open>joiner\<close> carry the proofs for both sides.
  \<^item> Chacha: pkg/crypto/chacha_crypto.go; the encrypted connection over any stream is a stream again
    (\<open>chacha_byte_source\<close>, \<open>chacha_byte_reader\<close>, \<open>chacha_byte_writer\<close>), and \<open>data_link\<close> and
    \<open>transport_link\<close> are a writer and a reader at the two ends of a link.
  \<^item> Crypto: pkg/crypto/crypto.go, tls_crypto.go and cert.go: selection, wrapping, certificates.
  \<^item> Transport: pkg/transport/transport.go, net_transport.go, gnet_transport.go: selection, the wrappers of
    package net and the adapter between gnet's callbacks and blocking reads. Quic: quic_transport.go, the
    connection that opens its stream late. Mux: pkg/mux.
  \<^item> Streams: messages on a control stream that either side may close.
  \<^item> Server: internal/server/server.go, the state and every handler, in the order of the file; a handler that
    blocks in the middle is cut there (\<open>np_check\<close> and \<open>np_commit\<close> around the listen, \<open>user_notify\<close> and
    \<open>user_joining\<close> around \<open>AcceptStream\<close>, \<open>server_stop\<close> and \<open>stop_wait\<close>), and the whole handler is
    composed of its pieces. Server_Registry: the step relation \<open>srv_step\<close> over the handlers, the registry
    invariant and the properties of registries, authentication and counters. Server_Session: the life of
    one connection; \<open>without_client\<close> is the specification of what its end takes away.
  \<^item> Client, Client_Runs, Client_Session: internal/client/client.go likewise: the operations, their runs
    (dispatch, registration, backoff, keepalive, \<open>client_step\<close>) and the life of one attempt.
  \<^item> Layers: the layers both sides build from their configurations. Tunnel: both sides of a control stream,
    the two Joins over a data stream, and \<open>wire_step\<close>, the user connections of one client between the
    server's goroutines, the control stream and the client's goroutines. Dashboard:
    internal/server/dashboard.go. Main_Programs: cmd/client/main.go and cmd/server/main.go.
  \<^item> This theory: the properties of client and server together.

  What is shown. Bytes: messages, frames and encrypted frames round trip under any segmentation, over package
  net, gnet and QUIC; whatever is on the stream, only genuine bytes come out; forwarding is exact, and a
  tunnel is a pipe. State: the registries are consistent in every reachable state, a client stays well
  formed, the connection pool accounts for its connections. Ends: every handler and every attempt returns
  once its stream has ended, and what it leaves and leaves alone is stated exactly. Agreement: both sides
  agree on the handshake, on each registration and on their layers. Security: \<open>Verify\<close> accepts exactly
  what it should, and which replays it refuses. The rest are behaviours that surprise, each proved as the
  code has it: lost and crossed data streams, dropped chunks, registrations a reconnect loses, drifting
  counters, accepted replays, a crash, a shutdown that cuts its handlers off.

  The interfaces are interpreted on the model: \<open>byte_reader\<close> and \<open>byte_writer\<close> on the connection, the live
  connection, the counting reader, the closed gnet connection; \<open>byte_source\<close> on the open gnet connection
  under every choice of \<open>select\<close>; \<open>framed_stream\<close> on the codec; \<open>transport_link\<close> on package net and from
  gnet, \<open>data_link\<close> to an open gnet connection; \<open>joiner\<close> on both Joins; \<open>nonce_store\<close> on the cache;
  \<open>step_invariant\<close> on server, client and wire.

  Bounds. Messages are at most 1 MB (\<open>MaxMsgSize\<close>), an encrypted frame at most 64 KB with its length in 16
  bits, a gnet connection queues 256 chunks, a clock reading fits 64 bits of nanoseconds (\<open>valid_clock\<close>):
  these are the code's own and appear as hypotheses where they matter.

  Not modelled. A connection of the model (\<open>conn\<close>) is a finite script of segments with an error at its end:
  that a handler returns is proved for peers that end their stream sooner or later. The code sets no read
  deadline, so a peer that stays silent and connected holds its handler for ever (\<open>silent_peer_blocks\<close> in
  Layers shows it on an open gnet connection). Also left out: the getters of addresses and the deadlines
  the adapters only pass on (those of a QUIC connection are modelled), log lines but for one whose argument
  can panic, the inside of the third-party packages above, the encoding of JSON, YAML and MessagePack, the
  delivery of signals and the command line, and the closing of a gnet listener with connections waiting in
  its channel while \<open>Accept\<close> runs (\<open>gl_accept\<close> has it, \<open>accept_loop\<close> does not).
\<close>

section \<open>Properties of client and server together\<close>

text \<open>
  C1: The handshake, for a token of at least eight characters: when the client's request reaches the server and the server's answer the client, the
  two agree on the outcome. The client is registered and told so exactly when its token is
  configured, the clocks differ by at most five minutes and its nonce is new to the server;
  otherwise nothing is registered and the client gets the authentication error.
\<close>
theorem handshake_agreement:
  assumes "conn_up c" and "live_avail c = []" and "conn_up (sv_streams s i)" and "live_avail (sv_streams s i) = []"
    and "carries mp (mp_auth_request mp) MsgTypeAuth (PAuthRequest (client_auth_request hm now rnd token))
      (client_auth_request hm now rnd token)"
    and "carries mp (mp_auth_response mp) MsgTypeAuthResp (PAuthResponse auth_ok) auth_ok"
    and "carries mp (mp_auth_response mp) MsgTypeAuthResp (PAuthResponse auth_failed) auth_failed"
    and "valid_clock now" and "valid_clock (fst snow)" and "8 \<le> length token"
  shows "\<exists>c1 out s1 err c2. auth_send mp hm now rnd token c = (None, c1)
    \<and> handle_auth mp hm snow i (set_stream i (deliver (new_bytes c c1) (sv_streams s i)) s) = Some (out, s1)
    \<and> auth_recv mp (deliver (new_bytes (sv_streams s i) (sv_streams s1 i)) c1) = Some (err, c2)
    \<and> (if au_tokens (sv_auth s) token = Some True \<and> \<bar>fst snow div second - now div second\<bar> \<le> 300
          \<and> \<not> nc_exists (generate_nonce rnd) (au_cache (sv_auth s))
       then err = None \<and> (\<exists>cl. out = Done (Inr cl) \<and> map_of (sv_clients s1) (take 8 token @ ''...'') = Some cl)
       else err = Some (client_auth_error ''authentication failed'') \<and> sv_clients s1 = sv_clients s
         \<and> out = Done (Inl (auth_error ''authentication failed'')))"
proof -
  let ?req = "client_auth_request hm now rnd token"
  let ?m = "msg_of mp (MsgTypeAuth, PAuthRequest ?req)"
  let ?good = "au_tokens (sv_auth s) token = Some True \<and> \<bar>fst snow div second - now div second\<bar> \<le> 300
          \<and> \<not> nc_exists (generate_nonce rnd) (au_cache (sv_auth s))"
  obtain g where g: "?good = g" by blast
  let ?resp = "if g then auth_ok else auth_failed"
  have carry: "carries mp (mp_auth_response mp) MsgTypeAuthResp (PAuthResponse ?resp) ?resp" using assms(6,7) by simp
  from send_up [OF assms(1)] assms(5) obtain c1 where
    c1: "auth_send mp hm now rnd token c = (None, c1)" "conn_up c1" "live_avail c1 = []" "new_bytes c c1 = msg_frame mp ?m"
    using assms(2) by (fastforce simp: auth_send_def carries_def new_bytes_append)
  let ?s0 = "set_stream i (deliver (msg_frame mp ?m) (sv_streams s i)) s"
  have tok: "auth_token ?req = token" by (simp add: client_auth_request_def Let_def)
  obtain au where ver: "verify hm snow (sv_auth ?s0) (auth_token ?req) (format_int (sint (auth_ts ?req)))
      (auth_nonce ?req) (auth_sign ?req) = (g, au)"
    using client_request_verified [OF assms(8,9), of hm "sv_auth s" token rnd] by (simp add: tok prod_eq_iff g)
  have av: "live_avail (sv_streams ?s0 i) = msg_frame mp ?m @ []" using assms(3,4) by (simp add: deliver_avail)
  have "sendable mp (MsgTypeAuthResp, PAuthResponse ?resp)" using carry by (simp only: carries_def)
  from handle_auth_answers [OF stream_up_deliver [OF assms(3)] carries_fits [OF assms(5)] av _ carries_decode [OF assms(5)]
      _ ver this] obtain out s1 where
    srv: "handle_auth mp hm snow i ?s0 = Some (out, s1)"
      "new_bytes (sv_streams ?s0 i) (sv_streams s1 i) = msg_frame mp (msg_of mp (MsgTypeAuthResp, PAuthResponse ?resp))"
      "if g then \<exists>cl. out = Done (Inr cl) \<and> map_of (sv_clients s1) (take 8 token @ ''...'') = Some cl
       else out = Done (Inl (auth_error ''authentication failed'')) \<and> sv_clients s1 = sv_clients ?s0"
    unfolding tok using assms(10) by (simp only: msg_of_type) blast
  have "new_bytes (sv_streams ?s0 i) (sv_streams s1 i) = new_bytes (sv_streams s i) (sv_streams s1 i)"
    by (simp add: new_bytes_def)
  with srv(2) auth_recv_answer [OF c1(2,3) carry] obtain c2 where
    "auth_recv mp (deliver (new_bytes (sv_streams s i) (sv_streams s1 i)) c1)
      = Some (if authr_ok ?resp then None else Some (client_auth_error (authr_message ?resp)), c2)" by auto
  with c1 srv show ?thesis unfolding g
    by (intro exI [of _ c1] exI [of _ out] exI [of _ s1] exI [of _ c2])
      (auto simp: auth_ok_def auth_failed_def)
qed

theorem handshake_agreement_witness:
  "\<exists>c1 s1 c2 cl. auth_send sample_msgpack sample_mac (5000 * second) [7] ''secret-token'' (idle_conn []) = (None, c1)
    \<and> handle_auth sample_msgpack sample_mac (5100 * second, 5100 * second) 3
        (set_stream 3 (deliver (new_bytes (idle_conn []) c1) (sv_streams sample_server 3)) sample_server) = Some (Done (Inr cl), s1)
    \<and> auth_recv sample_msgpack (deliver (new_bytes (sv_streams sample_server 3) (sv_streams s1 3)) c1) = Some (None, c2)"
proof -
  let ?req = "client_auth_request sample_mac (5000 * second) [7] ''secret-token''"
  have sg: "length (auth_sign ?req) \<le> 4" "length (auth_nonce ?req) < 256" "auth_token ?req = ''secret-token''"
    "auth_version ?req = ''1.0.0''"
    by (simp_all add: client_auth_request_def sample_mac_sign generate_nonce_def Let_def)
  have "mp_auth_request sample_msgpack (sample_payload (PAuthRequest ?req)) = Inr ?req"
    by (rule sample_auth_request) (use sg in simp)
  moreover have "length (sample_payload (PAuthRequest ?req)) < MaxMsgSize"
    using sg format_int_length [OF int64_range, of "auth_ts ?req"] by (simp add: MaxMsgSize_def pack_str_def)
  ultimately have req: "carries sample_msgpack (mp_auth_request sample_msgpack) MsgTypeAuth (PAuthRequest ?req) ?req"
    by (simp add: carries_def sample_sendable sample_payload_data del: sample_payload.simps)
  have ans: "carries sample_msgpack (mp_auth_response sample_msgpack) MsgTypeAuthResp (PAuthResponse r) r"
    if "length (authr_message r) < 256" for r
    using that sample_auth_response [OF that]
    by (simp add: carries_def sample_payload_data sample_sendable MaxMsgSize_def pack_str_def)
  have up: "conn_up (idle_conn [])" "live_avail (idle_conn []) = []" "sv_streams sample_server 3 = idle_conn []"
    by (simp_all add: idle_conn_up live_avail_def) (simp add: sample_server_def)
  have clk: "valid_clock (5000 * second)" "valid_clock (fst (5100 * second, 5100 * second))"
    "\<bar>5100 * second div second - 5000 * second div second\<bar> \<le> 300"
    by (simp_all add: valid_clock_def second_def)
  have srv: "au_tokens (sv_auth sample_server) ''secret-token'' = Some True"
    "\<not> nc_exists (generate_nonce [7]) (au_cache (sv_auth sample_server))"
    by (simp_all add: sample_server_def new_authenticator_token) (simp add: new_authenticator_def new_nonce_cache_def nc_exists_def)
  from handshake_agreement [OF up(1,2) _ _ req ans ans clk(1,2), of sample_server 3] up clk(3) srv
  obtain c1 s1 c2 cl where "auth_send sample_msgpack sample_mac (5000 * second) [7] ''secret-token'' (idle_conn []) = (None, c1)"
    "handle_auth sample_msgpack sample_mac (5100 * second, 5100 * second) 3
        (set_stream 3 (deliver (new_bytes (idle_conn []) c1) (sv_streams sample_server 3)) sample_server) = Some (Done (Inr cl), s1)"
    "auth_recv sample_msgpack (deliver (new_bytes (sv_streams sample_server 3) (sv_streams s1 3)) c1) = Some (None, c2)"
    by (auto simp: auth_ok_def auth_failed_def)
  then show ?thesis by blast
qed

text \<open>
  C2: The registration of a proxy: when the client's request reaches the server and the answer the
  client, the two agree. The client is told of success exactly when the port was free and the system
  let the server listen on it, and then the port is registered; otherwise the registry is unchanged
  and the client gets the reason.
\<close>
theorem registration_agreement:
  assumes "conn_up c" and "live_avail c = []" and "conn_up (sv_streams s i)" and "live_avail (sv_streams s i) = []"
    and "carries mp (mp_new_proxy_request mp) MsgTypeNewProxy (PNewProxyRequest (px_request px)) (px_request px)"
    and "carries mp (mp_new_proxy_response mp) MsgTypeNewProxyResp
      (PNewProxyResponse (port_answer listen (ep_remote_port px) s)) (port_answer listen (ep_remote_port px) s)"
  shows "\<exists>c1 s1 err c2. reg_send mp px c = (None, c1)
    \<and> control_iter mp listen now cl i (set_stream i (deliver (new_bytes c c1) (sv_streams s i)) s) = Some (None, s1)
    \<and> reg_recv mp px (deliver (new_bytes (sv_streams s i) (sv_streams s1 i)) c1) = Some (err, c2)
    \<and> (if map_of (sv_proxies s) (ep_remote_port px) = None \<and> listen (ep_remote_port px) = None
       then err = None \<and> map_of (sv_proxies s1) = (map_of (sv_proxies s))(ep_remote_port px \<mapsto> sv_next_proxy s)
       else err = Some (proxy_error (ep_name px) (npr_message (port_answer listen (ep_remote_port px) s)))
         \<and> map_of (sv_proxies s1) = map_of (sv_proxies s))"
proof -
  let ?m = "msg_of mp (MsgTypeNewProxy, PNewProxyRequest (px_request px))"
  let ?ans = "port_answer listen (ep_remote_port px) s"
  let ?r = "msg_of mp (MsgTypeNewProxyResp, PNewProxyResponse ?ans)"
  let ?s0 = "set_stream i (deliver (msg_frame mp ?m) (sv_streams s i)) s"
  from send_up [OF assms(1)] assms(5) obtain c1 where
    c1: "reg_send mp px c = (None, c1)" "conn_up c1" "live_avail c1 = []" "new_bytes c c1 = msg_frame mp ?m"
    using assms(2) by (fastforce simp: reg_send_def carries_def px_request_def new_bytes_append)
  have av: "live_avail (sv_streams ?s0 i) = msg_frame mp ?m @ []" using assms(3,4) by (simp add: deliver_avail)
  from srv_recv_frame_up [OF stream_up_deliver [OF assms(3)] carries_fits [OF assms(5)] av] obtain st where
    rc: "srv_recv mp i ?s0 = Some (Inr ?m, set_stream i st ?s0)" and
    st: "conn_up st" "cout st = cout (sv_streams s i)" by (auto simp: conn_up_def)
  let ?s1 = "set_stream i st ?s0"
  have port: "npq_remote_port (px_request px) = ep_remote_port px" by (simp add: px_request_def)
  have ans: "port_answer listen (ep_remote_port px) ?s1 = ?ans" by (simp add: port_answer_def)
  have "sendable mp (MsgTypeNewProxyResp, PNewProxyResponse ?ans)" using assms(6) by (simp only: carries_def)
  with handle_new_proxy_answers [of i ?s1, OF _ carries_decode [OF assms(5)], of listen cl] st(1)
  have hp: "new_bytes st (sv_streams (handle_new_proxy mp listen cl i ?m ?s1) i) = msg_frame mp ?r"
    "map_of (sv_proxies (handle_new_proxy mp listen cl i ?m ?s1)) = (map_of (sv_proxies s))
        (ep_remote_port px := if npr_ok ?ans then Some (sv_next_proxy s) else map_of (sv_proxies s) (ep_remote_port px))"
    by (simp_all add: port ans stream_up_def)
  let ?s2 = "handle_new_proxy mp listen cl i ?m ?s1"
  have step: "control_iter mp listen now cl i ?s0 = Some (None, ?s2)" using rc by (simp add: control_iter_def)
  have nb: "new_bytes (sv_streams s i) (sv_streams ?s2 i) = msg_frame mp ?r"
    using hp(1) st(2) by (simp add: new_bytes_def)
  have "live_avail (deliver (msg_frame mp ?r) c1) = msg_frame mp ?r @ []" using c1 by (simp add: deliver_avail)
  from recv_up [OF _ carries_fits [OF assms(6)] this] c1(2) obtain c2 where
    "recv_message mp live_read (deliver (msg_frame mp ?r) c1) = Some (Inr ?r, c2)" by auto
  then have "reg_recv mp px (deliver (msg_frame mp ?r) c1)
      = Some (if npr_ok ?ans then None else Some (proxy_error (ep_name px) (npr_message ?ans)), c2)"
    using carries_decode [OF assms(6)] by (simp add: reg_recv_def reg_answer_def)
  moreover have "npr_ok ?ans \<longleftrightarrow> map_of (sv_proxies s) (ep_remote_port px) = None \<and> listen (ep_remote_port px) = None"
    by (simp add: port_answer_def split: option.splits)
  ultimately show ?thesis using c1 step nb hp(2)
    by (intro exI [of _ c1] exI [of _ ?s2] exI [of _ c2]) (auto simp: fun_upd_idem)
qed

theorem registration_agreement_witness:
  "let px = sample_proxy ''api'' 9090
   in \<exists>c1 s1 c2. reg_send sample_msgpack px (idle_conn []) = (None, c1)
    \<and> control_iter sample_msgpack (\<lambda>_. None) (0, 0) 0 0
        (set_stream 0 (deliver (new_bytes (idle_conn []) c1) (sv_streams sample_server 0)) sample_server) = Some (None, s1)
    \<and> reg_recv sample_msgpack px (deliver (new_bytes (sv_streams sample_server 0) (sv_streams s1 0)) c1) = Some (None, c2)
    \<and> map_of (sv_proxies s1) 9090 = Some 1"
proof -
  let ?px = "sample_proxy ''api'' 9090"
  have req: "carries sample_msgpack (mp_new_proxy_request sample_msgpack) MsgTypeNewProxy
      (PNewProxyRequest (px_request ?px)) (px_request ?px)"
    using sample_new_proxy_request [of "px_request ?px"] sample_sendable [of "PNewProxyRequest (px_request ?px)" MsgTypeNewProxy]
    by (simp add: carries_def sample_payload_data px_request_def sample_proxy_def MaxMsgSize_def pack_str_def format_int_length
        sample_port_length)
  let ?ans = "port_answer (\<lambda>_. None) (ep_remote_port ?px) sample_server"
  have ans_eq: "?ans = \<lparr>npr_ok = True, npr_message = [], npr_remote_port = 9090\<rparr>"
    by (simp add: port_answer_def sample_server_def sample_proxy_def)
  have ans: "carries sample_msgpack (mp_new_proxy_response sample_msgpack) MsgTypeNewProxyResp (PNewProxyResponse ?ans) ?ans"
    unfolding ans_eq
    using sample_new_proxy_response [of "\<lparr>npr_ok = True, npr_message = [], npr_remote_port = 9090\<rparr>"]
      sample_sendable [of "PNewProxyResponse \<lparr>npr_ok = True, npr_message = [], npr_remote_port = 9090\<rparr>" MsgTypeNewProxyResp]
    by (simp add: carries_def sample_payload_data MaxMsgSize_def pack_str_def sample_port_length)
  have up: "conn_up (idle_conn [])" "live_avail (idle_conn []) = []" "sv_streams sample_server 0 = idle_conn []"
    by (simp_all add: idle_conn_up live_avail_def) (simp add: sample_server_def)
  from registration_agreement [OF up(1,2) _ _ req ans, of 0 "(0, 0)" 0] up show ?thesis
    by (auto simp: Let_def sample_server_def sample_proxy_def)
qed

text \<open>
  C18: User connections of one client can be cross-wired. \<open>handleUserConnection\<close> joins its user with whatever
  stream \<open>AcceptStream\<close> returns to it, for whichever request that stream was opened. So if two users wait
  at the same time, even of different proxies, there is a run of the server, the control stream and
  the client in which the first user is joined with the stream that was opened for the second, whose other
  end is the local service of the second proxy. As long as each user is notified only when no other
  waits, in every run every user gets the stream that was opened for its request.
\<close>
theorem data_streams_cross:
  assumes "stream_up i s" and "conn_up st" and "live_avail st = []"
    and "cl_session (sv_client s (px_client (sv_proxy s p1))) = i" and "cl_session (sv_client s (px_client (sv_proxy s p2))) = i"
    and "r1 = user_request p1 (generate_nonce rnd1) s"
    and "carries mp (mp_new_conn_request mp) MsgTypeNewConn (PNewConnRequest r1) r1"
    and "r2 = user_request p2 (generate_nonce rnd2) s"
    and "carries mp (mp_new_conn_request mp) MsgTypeNewConn (PNewConnRequest r2) r2"
    and "map_of (ct_proxies c) (px_name (sv_proxy s p2)) = Some ep2"
  shows "(\<exists>w d evs. (wire_step mp dial i False)\<^sup>*\<^sup>* (wire_start s st c) w
        \<and> ((p1, generate_nonce rnd1), d) \<in> set (wr_joined w) \<and> wr_opened w ! d = (r2, evs)
        \<and> NcDialled (get_local_address ep2) \<in> set evs)
    \<and> {w. (wire_step mp dial i True)\<^sup>*\<^sup>* (wire_start s st c) w}
        \<subseteq> {w. list_all (\<lambda>((p, conn_id), d). fst (wr_opened w ! d) = user_request p conn_id s) (wr_joined w)}
    \<and> (\<exists>s1. user_notify mp p1 i (generate_nonce rnd1) s = (None, s1)
        \<and> handle_user_connection mp rnd1 (\<lambda>k s. Some (Inr d, s)) join p1 i s
            = map_option user_done (join d (snd (user_joining (Inr d) s1))))"
proof (intro conjI)
  let ?u1 = "(p1, generate_nonce rnd1)" and ?u2 = "(p2, generate_nonce rnd2)"
  from two_users_wait [OF assms(1-9), of dial c] obtain w where
    w: "(wire_step mp dial i False)\<^sup>*\<^sup>* (wire_start s st c) w" "wr_waiting w = [?u1, ?u2]" "wr_started w = [r1, r2]"
      "wr_opened w = []" "wr_queue w = []" "wr_joined w = []" "ct_proxies (wr_cli w) = ct_proxies c" by blast
  obtain evs c5 where nc: "handle_new_conn (Inr (0 :: nat)) dial r2 (wr_cli w) = (evs, c5)" by fastforce
  have dialled: "NcDialled (get_local_address ep2) \<in> set evs"
    using nc assms(8,10) w(7) by (auto simp: handle_new_conn_def user_request_def Let_def split: sum.splits)
  obtain rest where rest: "remove1 r2 [r1, r2] = rest" by blast
  let ?w5 = "w\<lparr>wr_cli := c5, wr_started := rest, wr_opened := [(r2, evs)], wr_queue := [0]\<rparr>"
  have "wire_step mp dial i False w ?w5"
    using wire_step.new_conn [of r2 w 0 dial evs c5 mp i False] w(3-5) nc rest by simp
  moreover obtain s6 where "user_joining (Inr (0 :: nat)) (wr_srv ?w5) = (Some 0, s6)" by (simp add: user_joining_def)
  with wire_step.accept [of ?u1 ?w5 0 "[]" 0 s6 mp dial i False] w
  have "wire_step mp dial i False ?w5 (?w5\<lparr>wr_srv := s6, wr_waiting := [?u2], wr_queue := [], wr_joined := [(?u1, 0)]\<rparr>)"
    by simp
  ultimately have "(wire_step mp dial i False)\<^sup>*\<^sup>* (wire_start s st c)
      (?w5\<lparr>wr_srv := s6, wr_waiting := [?u2], wr_queue := [], wr_joined := [(?u1, 0)]\<rparr>)"
    using w(1) by (meson rtranclp.rtrancl_into_rtrancl)
  with dialled show "\<exists>w d evs. (wire_step mp dial i False)\<^sup>*\<^sup>* (wire_start s st c) w
      \<and> (?u1, d) \<in> set (wr_joined w) \<and> wr_opened w ! d = (r2, evs) \<and> NcDialled (get_local_address ep2) \<in> set evs"
    by (intro exI [of _ "?w5\<lparr>wr_srv := s6, wr_waiting := [?u2], wr_queue := [], wr_joined := [(?u1, 0)]\<rparr>"]
        exI [of _ "0 :: nat"] exI [of _ evs]) simp
  have "wire_ok mp i s w" if "(wire_step mp dial i True)\<^sup>*\<^sup>* (wire_start s st c) w" for w
    using one_at_a_time.reachable_ok [OF _ that] assms(1-3) by blast
  then show "{w. (wire_step mp dial i True)\<^sup>*\<^sup>* (wire_start s st c) w}
      \<subseteq> {w. list_all (\<lambda>((p, conn_id), d). fst (wr_opened w ! d) = user_request p conn_id s) (wr_joined w)}"
    by (force simp: wire_ok_def list_all_iff)
  from user_notify_up [OF assms(1), of mp p1 "generate_nonce rnd1"] assms(6,7) obtain s1 where
    "user_notify mp p1 i (generate_nonce rnd1) s = (None, s1)" by (auto simp: carries_def)
  then show "\<exists>s1. user_notify mp p1 i (generate_nonce rnd1) s = (None, s1)
      \<and> handle_user_connection mp rnd1 (\<lambda>k s. Some (Inr d, s)) join p1 i s
          = map_option user_done (join d (snd (user_joining (Inr d) s1)))"
    by (simp add: handle_user_connection_def user_joining_def)
qed

theorem data_streams_cross_witness:
  "let s = sample_server\<lparr>sv_proxy := (sv_proxy sample_server)(1 := \<lparr>px_name = ''api'', px_port = 9090, px_listening = True,
         px_client = 0, px_close_ch = False\<rparr>)\<rparr>;
       c = fresh_client sample_client_config [(''api'', sample_proxy ''api'' 9090)]
   in \<exists>w d r2 evs. (wire_step sample_msgpack (\<lambda>a. Inr 5) 0 False)\<^sup>*\<^sup>* (wire_start s (idle_conn []) c) w
        \<and> ((0, generate_nonce [1]), d) \<in> set (wr_joined w) \<and> wr_opened w ! d = (r2, evs)
        \<and> px_name (sv_proxy s 0) = ''web'' \<and> ncq_proxy_name r2 = ''api'' \<and> NcDialled ''127.0.0.1:9090'' \<in> set evs"
proof -
  let ?s = "sample_server\<lparr>sv_proxy := (sv_proxy sample_server)(1 := \<lparr>px_name = ''api'', px_port = 9090, px_listening = True,
         px_client = 0, px_close_ch = False\<rparr>)\<rparr>"
  let ?c = "fresh_client sample_client_config [(''api'', sample_proxy ''api'' 9090)]"
  let ?r1 = "user_request 0 (generate_nonce [1]) ?s" and ?r2 = "user_request 1 (generate_nonce [2]) ?s"
  have addr: "get_local_address (sample_proxy ''api'' 9090) = ''127.0.0.1:9090''"
    by (simp add: get_local_address_def sample_proxy_def) (simp add: sample_eval)
  have up: "stream_up 0 ?s" "conn_up (idle_conn [])" "live_avail (idle_conn []) = []"
    using sample_server_up [of 0] by (simp_all add: stream_up_def idle_conn_up live_avail_def)
  have sess: "cl_session (sv_client ?s (px_client (sv_proxy ?s 0))) = 0" "cl_session (sv_client ?s (px_client (sv_proxy ?s 1))) = 0"
    by (simp_all add: sample_server_def)
  have names: "ncq_proxy_name ?r1 = ''web''" "ncq_proxy_name ?r2 = ''api''" "px_name (sv_proxy ?s 0) = ''web''"
    "ncq_conn_id ?r1 = generate_nonce [1]" "ncq_conn_id ?r2 = generate_nonce [2]"
    by (simp_all add: user_request_def sample_server_def)
  have carry: "carries sample_msgpack (mp_new_conn_request sample_msgpack) MsgTypeNewConn (PNewConnRequest r) r"
    if "length (ncq_proxy_name r) < 256" "length (ncq_conn_id r) < 256" for r
    using that sample_new_conn_request [of r] sample_sendable [of "PNewConnRequest r" MsgTypeNewConn]
    by (simp add: carries_def sample_payload_data MaxMsgSize_def pack_str_def)
  have reqs: "carries sample_msgpack (mp_new_conn_request sample_msgpack) MsgTypeNewConn (PNewConnRequest ?r1) ?r1"
    "carries sample_msgpack (mp_new_conn_request sample_msgpack) MsgTypeNewConn (PNewConnRequest ?r2) ?r2"
    by (rule carry; simp only: names; simp add: generate_nonce_def hex_encode_length)+
  have known: "map_of (ct_proxies ?c) (px_name (sv_proxy ?s 1)) = Some (sample_proxy ''api'' 9090)"
    by (simp add: fresh_client_def)
  have "\<exists>w d evs. (wire_step sample_msgpack (\<lambda>a. Inr 5) 0 False)\<^sup>*\<^sup>* (wire_start ?s (idle_conn []) ?c) w
      \<and> ((0, generate_nonce [1]), d) \<in> set (wr_joined w) \<and> wr_opened w ! d = (?r2, evs)
      \<and> NcDialled (get_local_address (sample_proxy ''api'' 9090)) \<in> set evs"
    by (rule data_streams_cross [OF up sess refl reqs(1) refl reqs(2) known, THEN conjunct1])
  then show ?thesis unfolding Let_def addr using names by blast
qed

text \<open>
  C4: The tunnel is a pipe: with the server's \<open>Join\<close> between the user and the data stream and the
  client's \<open>Join\<close> between the local service and the other end of it, and whatever of each end's
  bytes the stream has delivered so far, the local service has received a prefix of what the user
  sent and the user a prefix of what the local service sent, at every point of every interleaving.
\<close>
theorem tunnel_is_a_pipe:
  assumes "(server_join_step ^^ n) (join_start user d b1 b2 g) ss" and "(client_join_step ^^ m) (join_start local e b3 b4 g') cs"
    and "b1 \<noteq> []" and "b2 \<noteq> []" and "b3 \<noteq> []" and "b4 \<noteq> []"
    and "prefix (conn_avail e) (new_bytes d (jc2 ss))" and "prefix (conn_avail d) (new_bytes e (jc2 cs))"
  shows "prefix (new_bytes local (jc1 cs)) (conn_avail user) \<and> prefix (new_bytes user (jc1 ss)) (conn_avail local)"
  using server_join_sent [OF assms(1,3,4)] client_join_sent [OF assms(2,5,6)] assms(7,8) prefix_order.trans by blast


theorem tunnel_is_a_pipe_witness:
  "let user = idle_conn [[1, 2], [3]]; d = idle_conn []; local = idle_conn []; e = idle_conn [[1, 2]]
   in \<exists>ss cs. (server_join_step ^^ 1) (join_start user d [0, 0] [0, 0] (initial_stats 0)) ss
      \<and> (client_join_step ^^ 1) (join_start local e [0, 0] [0, 0] ()) cs
      \<and> new_bytes local (jc1 cs) = [1, 2] \<and> prefix (new_bytes local (jc1 cs)) (conn_avail user)"
proof -
  let ?user = "idle_conn [[1, 2], [3]]" and ?d = "idle_conn []" and ?local = "idle_conn []" and ?e = "idle_conn [[1, 2]]"
  let ?s0 = "join_start ?user ?d [0, 0] [0, 0] (initial_stats 0)" and ?c0 = "join_start ?local ?e [0, 0] [0, 0] ()"
  obtain r st x where it: "server_copy_iter live_read live_write (copy_resume ?d ?user [0, 0] 0, initial_stats 0) = Some (r, st, x)"
    "sent (cout (copy_dst st)) = [1, 2]"
    by (simp add: server_copy_iter_def copy_read_def copy_resume_def live_read_def conn_read_def server_copy_write_def
        live_write_def conn_write_def copy_check_write_def copy_check_read_def idle_conn_def Let_def)
  from join_step.copy2 [where it = "server_copy_iter live_read live_write" and s = ?s0 and buf = "[0, 0]" and tot = 0] it
  obtain ss where ss: "server_join_step ?s0 ss" "sent (cout (jc2 ss)) = [1, 2]"
    by (fastforce simp: server_join_step_def join_start_def)
  obtain r' st' where it': "client_copy_iter live_read live_write (copy_resume ?local ?e [0, 0] 0) = Some (r', st')"
    "sent (cout (copy_dst st')) = [1, 2]" "cout (copy_src st') = cout ?e"
    by (simp add: client_copy_iter_def copy_read_def copy_resume_def live_read_def conn_read_def client_copy_write_def
        live_write_def conn_write_def copy_check_write_def copy_check_read_def idle_conn_def Let_def)
  from join_step.copy1 [where it = "\<lambda>(st, u :: unit). map_option (\<lambda>(r, st'). (r, st', u)) (client_copy_iter live_read live_write st)"
      and s = ?c0 and buf = "[0, 0]" and tot = 0] it'
  obtain cs where cs: "client_join_step ?c0 cs" "sent (cout (jc1 cs)) = [1, 2]" "sent (cout (jc2 cs)) = []"
    by (fastforce simp: client_join_step_def join_start_def)
  from tunnel_is_a_pipe [of 1 ?user ?d "[0, 0]" "[0, 0]" "initial_stats 0" ss 1 ?local ?e "[0, 0]" "[0, 0]" "()" cs] ss cs
  have "prefix (new_bytes ?local (jc1 cs)) (conn_avail ?user)" by (simp add: new_bytes_def eq_OO)
  with ss cs show ?thesis unfolding Let_def
    by (intro exI [of _ ss] exI [of _ cs]) (simp add: new_bytes_def eq_OO)
qed

end
